(* ===== verification/Prelude.thy ===== *)
theory Prelude
  imports Main "HOL-Library.Word" "HOL-Library.Char_ord" "HOL-Library.List_Lexorder"
begin

text \<open>
  What the component theories share: the type of an effectful Python call, the collections
  of rewrite rules the proofs use, and generic facts on lists, strings and maps.

  A Python coroutine that may raise and that changes some outside state of type \<open>'w\<close> is a
  function of type \<open>('w, 'e, 'a) io\<close>: it takes the state it starts in and returns what it
  ended with, \<open>Inl\<close> an exception or \<open>Inr\<close> a value, together with the state it left.
\<close>

section \<open>Effects\<close>

type_synonym ('w, 'e, 'a) io = "'w \<Rightarrow> ('e + 'a) \<times> 'w"

text \<open>Sequencing: an exception skips the rest and keeps the state reached so far.\<close>

definition and_then :: "('w, 'e, 'a) io \<Rightarrow> ('a \<Rightarrow> ('w, 'e, 'b) io) \<Rightarrow> ('w, 'e, 'b) io" where
  "and_then m k = (\<lambda>w. case m w of (Inl e, w') \<Rightarrow> (Inl e, w') | (Inr x, w') \<Rightarrow> k x w')"

definition ret :: "'a \<Rightarrow> ('w, 'e, 'a) io" where
  "ret x = (\<lambda>w. (Inr x, w))"

definition raise :: "'e \<Rightarrow> ('w, 'e, 'a) io" where
  "raise e = (\<lambda>w. (Inl e, w))"

text \<open>An exception or a value that needs no effect to compute, used inside an effectful call.\<close>

definition lift_sum :: "'e + 'a \<Rightarrow> ('w, 'e, 'a) io" where
  "lift_sum r = (\<lambda>w. (r, w))"

text \<open>\<open>try: m except: h\<close>; the handler sees the exception and starts in the state reached.\<close>

definition catch :: "('w, 'e, 'a) io \<Rightarrow> ('e \<Rightarrow> ('w, 'e, 'a) io) \<Rightarrow> ('w, 'e, 'a) io" where
  "catch m h = (\<lambda>w. case m w of (Inl e, w') \<Rightarrow> h e w' | (Inr x, w') \<Rightarrow> (Inr x, w'))"

text \<open>
  Two collaborators of one use case hold separate state: the state of the use case is the
  pair, and a call to one of them leaves the other's half alone.
\<close>

definition on_fst :: "('w, 'e, 'a) io \<Rightarrow> ('w \<times> 'v, 'e, 'a) io" where
  "on_fst m = (\<lambda>(w, v). case m w of (r, w') \<Rightarrow> (r, (w', v)))"

definition on_snd :: "('v, 'e, 'a) io \<Rightarrow> ('w \<times> 'v, 'e, 'a) io" where
  "on_snd m = (\<lambda>(w, v). case m v of (r, v') \<Rightarrow> (r, (w, v')))"

text \<open>
  One structured log line, its event name and its fields. A component that logs has the lines
  it wrote, newest first, as the second half of its state.
\<close>

type_synonym log_line = "string \<times> (string \<times> string) list"

definition warn :: "string \<Rightarrow> (string \<times> string) list \<Rightarrow> ('q \<times> log_line list, 'e, unit) io" where
  "warn event kvs = (\<lambda>(q, lg). (Inr (), (q, (event, kvs) # lg)))"

text \<open>
  \<open>io_simps\<close> unfolds the combinators; \<open>run_simps\<close> steps a call whose first part is known.
\<close>

named_theorems io_simps \<open>unfolding of the effect combinators\<close>
named_theorems run_simps \<open>one step of an effectful call with a known first result\<close>

lemmas [io_simps] = and_then_def ret_def raise_def lift_sum_def catch_def on_fst_def on_snd_def

lemma and_then_Inr [run_simps]: "m w = (Inr x, w') \<Longrightarrow> and_then m k w = k x w'"
  by (simp add: and_then_def)

lemma and_then_Inl [run_simps]: "m w = (Inl e, w') \<Longrightarrow> and_then m k w = (Inl e, w')"
  by (simp add: and_then_def)

lemma catch_Inr [run_simps]: "m w = (Inr x, w') \<Longrightarrow> catch m h w = (Inr x, w')"
  by (simp add: catch_def)

lemma catch_Inl [run_simps]: "m w = (Inl e, w') \<Longrightarrow> catch m h w = h e w'"
  by (simp add: catch_def)

lemma ret_apply [simp]: "ret x w = (Inr x, w)"
  by (simp add: ret_def)

lemma raise_apply [simp]: "raise e w = (Inl e, w)"
  by (simp add: raise_def)

lemma lift_sum_apply [simp]: "lift_sum r w = (r, w)"
  by (simp add: lift_sum_def)

lemma on_fst_apply [simp]: "on_fst m (w, v) = (case m w of (r, w') \<Rightarrow> (r, (w', v)))"
  by (simp add: on_fst_def)

lemma on_snd_apply [simp]: "on_snd m (w, v) = (case m v of (r, v') \<Rightarrow> (r, (w, v')))"
  by (simp add: on_snd_def)

lemma and_then_on_fst [simp]:
  "and_then (on_fst m) k (w, v) =
     (case m w of (Inl e, w') \<Rightarrow> (Inl e, (w', v)) | (Inr x, w') \<Rightarrow> k x (w', v))"
  by (simp add: and_then_def split: prod.splits)

lemma and_then_on_snd [simp]:
  "and_then (on_snd m) k (w, v) =
     (case m v of (Inl e, v') \<Rightarrow> (Inl e, (w, v')) | (Inr x, v') \<Rightarrow> k x (w, v'))"
  by (simp add: and_then_def split: prod.splits)

lemma and_then_lift_sum [simp]:
  "and_then (lift_sum r) k w = (case r of Inl e \<Rightarrow> (Inl e, w) | Inr x \<Rightarrow> k x w)"
  by (simp add: and_then_def)

lemma and_then_cases:
  assumes "and_then m k w = (r, w')"
  obtains (failed) e where "m w = (Inl e, w')" "r = Inl e"
    | (stepped) x w1 where "m w = (Inr x, w1)" "k x w1 = (r, w')"
  using assms by (auto simp: and_then_def split: prod.splits sum.splits)

lemma catch_cases:
  assumes "catch m h w = (r, w')"
  obtains (handled) e w1 where "m w = (Inl e, w1)" "h e w1 = (r, w')"
    | (returned) x where "m w = (Inr x, w')" "r = Inr x"
  using assms by (auto simp: catch_def split: prod.splits sum.splits)

section \<open>Pure computations that may raise\<close>

text \<open>The same sequencing for code with no effect but its exception.\<close>

definition try_then :: "'e + 'a \<Rightarrow> ('a \<Rightarrow> 'e + 'b) \<Rightarrow> 'e + 'b" where
  "try_then r k = (case r of Inl e \<Rightarrow> Inl e | Inr x \<Rightarrow> k x)"

lemma try_then_simps [simp]:
  "try_then (Inl e) k = Inl e"
  "try_then (Inr x) k = k x"
  by (simp_all add: try_then_def)

lemma try_then_Inr_iff: "try_then r k = Inr y \<longleftrightarrow> (\<exists>x. r = Inr x \<and> k x = Inr y)"
  by (cases r) auto

lemma try_then_Inl_iff:
  "try_then r k = Inl e \<longleftrightarrow> r = Inl e \<or> (\<exists>x. r = Inr x \<and> k x = Inl e)"
  by (cases r) auto

text \<open>A generator consumed by \<open>tuple(...)\<close>: the first exception ends it.\<close>

fun map_sum_list :: "('a \<Rightarrow> 'e + 'b) \<Rightarrow> 'a list \<Rightarrow> 'e + 'b list" where
  "map_sum_list f [] = Inr []"
| "map_sum_list f (x # xs) =
     try_then (f x) (\<lambda>y. try_then (map_sum_list f xs) (\<lambda>ys. Inr (y # ys)))"

lemma map_sum_list_Inr:
  "map_sum_list f xs = Inr ys \<longleftrightarrow> list_all2 (\<lambda>x y. f x = Inr y) xs ys"
proof (induction xs arbitrary: ys)
  case Nil
  then show ?case by auto
next
  case (Cons x xs)
  then show ?case
    by (cases ys) (auto simp: try_then_Inr_iff)
qed

lemma map_sum_list_total:
  "(\<And>x. x \<in> set xs \<Longrightarrow> f x = Inr (g x)) \<Longrightarrow> map_sum_list f xs = Inr (map g xs)"
  by (induction xs) auto

lemma map_sum_list_Inl:
  "map_sum_list f xs = Inl e \<Longrightarrow> \<exists>x \<in> set xs. f x = Inl e"
  by (induction xs) (auto simp: try_then_Inl_iff)

section \<open>Maps and lists\<close>

lemma map_leD: "m \<subseteq>\<^sub>m m' \<Longrightarrow> m k = Some v \<Longrightarrow> m' k = Some v"
  by (metis domI map_le_def)

lemma sum_list_filter_le:
  fixes f :: "'a \<Rightarrow> nat"
  shows "sum_list (map f (filter P xs)) \<le> sum_list (map f xs)"
  by (induction xs) auto

text \<open>\<open>str.startswith\<close> with one prefix, and with a tuple of prefixes.\<close>

fun starts_with :: "'a list \<Rightarrow> 'a list \<Rightarrow> bool" where
  "starts_with s [] = True"
| "starts_with [] (p # ps) = False"
| "starts_with (c # cs) (p # ps) = (c = p \<and> starts_with cs ps)"

lemma starts_with_iff: "starts_with s p \<longleftrightarrow> (\<exists>t. s = p @ t)"
  by (induction s p rule: starts_with.induct) auto

lemma starts_with_append [simp]: "starts_with (p @ t) p"
  by (auto simp: starts_with_iff)

definition starts_with_any :: "'a list \<Rightarrow> 'a list list \<Rightarrow> bool" where
  "starts_with_any s ps = list_ex (starts_with s) ps"

text \<open>\<open>str.endswith\<close>.\<close>

definition ends_with :: "'a list \<Rightarrow> 'a list \<Rightarrow> bool" where
  "ends_with s p = starts_with (rev s) (rev p)"

lemma ends_with_iff: "ends_with s p \<longleftrightarrow> (\<exists>t. s = t @ p)"
proof -
  have "ends_with s p \<longleftrightarrow> (\<exists>t. rev s = rev p @ t)"
    by (simp add: ends_with_def starts_with_iff)
  also have "\<dots> \<longleftrightarrow> (\<exists>t. s = t @ p)"
    by (metis rev_append rev_rev_ident)
  finally show ?thesis .
qed

text \<open>\<open>sep.join(parts)\<close>.\<close>

fun join :: "'a list \<Rightarrow> 'a list list \<Rightarrow> 'a list" where
  "join sep [] = []"
| "join sep [p] = p"
| "join sep (p # q # ps) = p @ sep @ join sep (q # ps)"

section \<open>Python dictionaries\<close>

text \<open>
  A dictionary keeps its keys in the order they were first set; setting a key that is there
  replaces its value in place. \<open>dict_of\<close> is \<open>dict(pairs)\<close>.
\<close>

definition dict_set :: "('k \<times> 'v) list \<Rightarrow> 'k \<Rightarrow> 'v \<Rightarrow> ('k \<times> 'v) list" where
  "dict_set d k v =
     (if k \<in> set (map fst d) then map (\<lambda>(k', x). if k' = k then (k, v) else (k', x)) d else d @ [(k, v)])"

definition dict_of :: "('k \<times> 'v) list \<Rightarrow> ('k \<times> 'v) list" where
  "dict_of pairs = foldl (\<lambda>d (k, v). dict_set d k v) [] pairs"

lemma dict_set_keys:
  "map fst (dict_set d k v) = (if k \<in> set (map fst d) then map fst d else map fst d @ [k])"
  by (auto simp: dict_set_def comp_def case_prod_beta intro!: map_cong)

lemma dict_set_distinct: "distinct (map fst d) \<Longrightarrow> distinct (map fst (dict_set d k v))"
  by (simp add: dict_set_keys)

lemma map_of_replace:
  "map_of (map (\<lambda>(k', x). if k' = k then (k, v) else (k', x)) d) x
     = (if x = k \<and> k \<in> set (map fst d) then Some v else map_of d x)"
proof (induction d)
  case (Cons p d)
  obtain a b where "p = (a, b)" by (cases p)
  then show ?case using Cons by (cases "a = k"; cases "x = k"; cases "x = a") simp_all
qed simp

lemma map_of_dict_set [simp]: "map_of (dict_set d k v) = (map_of d)(k \<mapsto> v)"
proof (cases "k \<in> set (map fst d)")
  case True
  then show ?thesis by (auto simp: dict_set_def fun_eq_iff map_of_replace)
next
  case False
  then have "map_of d k = None" by (simp add: map_of_eq_None_iff)
  then show ?thesis using False by (auto simp: dict_set_def fun_eq_iff map_add_def split: option.splits)
qed

lemma dict_set_new: "k \<notin> set (map fst d) \<Longrightarrow> dict_set d k v = d @ [(k, v)]"
  by (simp add: dict_set_def)

lemma dict_of_distinct: "distinct (map fst pairs) \<Longrightarrow> dict_of pairs = pairs"
proof (induction pairs rule: rev_induct)
  case (snoc p pairs)
  then have "dict_of pairs = pairs" by simp
  then have "dict_of (pairs @ [p]) = dict_set pairs (fst p) (snd p)"
    by (simp add: dict_of_def case_prod_beta)
  then show ?case using snoc.prems by (auto simp: dict_set_new)
qed (simp add: dict_of_def)

end
