(* ===== verification/PyDecimal.thy ===== *)
theory PyDecimal
  imports Prelude Complex_Main
begin

text \<open>
  Python's \<open>decimal.Decimal\<close>, as far as the service uses it: finite values, addition and
  multiplication under the default context (28 significant digits, rounding half to even),
  comparison by value and \<open>str\<close>. A decimal keeps its exponent, so \<open>10.5\<close> and \<open>10.50\<close> are
  equal by value and print differently, as in Python. The exponent limits of the context
  (a million) are not modelled.

  The lemmas say when the 28-digit arithmetic is exact, which is what the totals of an order
  rest on: \<open>dec_mul_int_exact\<close> and \<open>dec_add_exact\<close> for results that fit, and
  \<open>dec_fix_ge_pow10\<close> for those that do not, which rounding never brings below a power of ten.
\<close>

datatype decimal = Dec (dneg: bool) (dcoef: nat) (dexp: int)

definition dec_val :: "decimal \<Rightarrow> rat" where
  "dec_val d = (if dneg d then - 1 else 1) * of_nat (dcoef d) * 10 powi dexp d"

definition PREC :: nat where
  "PREC = 28"

text \<open>The number of decimal digits of a coefficient; that of 0 is 1.\<close>

fun ndigits :: "nat \<Rightarrow> nat" where
  "ndigits n = (if n < 10 then 1 else Suc (ndigits (n div 10)))"

declare ndigits.simps [simp del]

definition round_half_even :: "nat \<Rightarrow> nat \<Rightarrow> nat" where
  "round_half_even c p =
     (let q = c div p; r = c mod p
      in if 2 * r > p \<or> (2 * r = p \<and> odd q) then q + 1 else q)"

text \<open>Rounding a result to the context's precision (\<open>Decimal._fix\<close>).\<close>

definition dec_fix :: "decimal \<Rightarrow> decimal" where
  "dec_fix d =
     (let n = ndigits (dcoef d)
      in if n \<le> PREC then d
         else
           let k = n - PREC;
               q = round_half_even (dcoef d) (10 ^ k)
           in if ndigits q > PREC
              then Dec (dneg d) (q div 10) (dexp d + int k + 1)
              else Dec (dneg d) q (dexp d + int k))"

definition dec_of_int :: "int \<Rightarrow> decimal" where
  "dec_of_int i = Dec (i < 0) (nat \<bar>i\<bar>) 0"

text \<open>\<open>amount * quantity\<close>: the exact product, then rounded.\<close>

definition dec_mul_int :: "decimal \<Rightarrow> int \<Rightarrow> decimal" where
  "dec_mul_int d i = dec_fix (Dec (dneg d \<noteq> (i < 0)) (dcoef d * nat \<bar>i\<bar>) (dexp d))"

text \<open>The signed coefficient of a decimal at a smaller exponent.\<close>

definition dec_coef_at :: "int \<Rightarrow> decimal \<Rightarrow> int" where
  "dec_coef_at e d = (if dneg d then - 1 else 1) * int (dcoef d) * 10 ^ nat (dexp d - e)"

text \<open>
  \<open>a + b\<close>: both at the smaller exponent, added exactly, then rounded. A zero sum is negative
  only when both operands are.
\<close>

definition dec_add :: "decimal \<Rightarrow> decimal \<Rightarrow> decimal" where
  "dec_add a b =
     (let e = min (dexp a) (dexp b);
          s = dec_coef_at e a + dec_coef_at e b
      in dec_fix (Dec (if s = 0 then dneg a \<and> dneg b else s < 0) (nat \<bar>s\<bar>) e))"

text \<open>Comparison is by value, so it is a preorder: equal values may have other exponents.\<close>

instantiation decimal :: preorder
begin

definition less_eq_decimal :: "decimal \<Rightarrow> decimal \<Rightarrow> bool" where
  "less_eq_decimal a b \<longleftrightarrow> dec_val a \<le> dec_val b"

definition less_decimal :: "decimal \<Rightarrow> decimal \<Rightarrow> bool" where
  "less_decimal a b \<longleftrightarrow> dec_val a < dec_val b"

instance
  by standard (auto simp: less_eq_decimal_def less_decimal_def)

end

text \<open>\<open>a == b\<close> of the source.\<close>

definition dec_eq :: "decimal \<Rightarrow> decimal \<Rightarrow> bool" where
  "dec_eq a b \<longleftrightarrow> dec_val a = dec_val b"

lemma dec_eq_refl [simp]: "dec_eq a a"
  by (simp add: dec_eq_def)

section \<open>Digits\<close>

lemma ndigits_pos: "0 < ndigits n"
  by (subst ndigits.simps) simp

lemma ndigits_upper: "n < 10 ^ ndigits n"
proof (induction n rule: ndigits.induct)
  case (1 n)
  show ?case
  proof (cases "n < 10")
    case True
    then show ?thesis by (subst ndigits.simps) simp
  next
    case False
    with 1 have "n div 10 < 10 ^ ndigits (n div 10)" by simp
    then have "n < 10 * 10 ^ ndigits (n div 10)" by linarith
    with False show ?thesis by (simp add: ndigits.simps [of n])
  qed
qed

lemma ndigits_lower: "0 < n \<Longrightarrow> 10 ^ (ndigits n - 1) \<le> n"
proof (induction n rule: ndigits.induct)
  case (1 n)
  show ?case
  proof (cases "n < 10")
    case True
    with "1.prems" show ?thesis by (simp add: ndigits.simps [of n])
  next
    case False
    with 1 have "10 ^ (ndigits (n div 10) - 1) \<le> n div 10" by simp
    then have "10 * 10 ^ (ndigits (n div 10) - 1) \<le> n" by linarith
    moreover have "10 * 10 ^ (ndigits (n div 10) - 1) = (10::nat) ^ ndigits (n div 10)"
      using ndigits_pos [of "n div 10"] by (metis Suc_diff_1 power_Suc)
    ultimately show ?thesis using False by (simp add: ndigits.simps [of n])
  qed
qed

lemma ndigits_le_iff:
  assumes "0 < k"
  shows "ndigits n \<le> k \<longleftrightarrow> n < 10 ^ k"
proof
  assume "ndigits n \<le> k"
  then have "(10::nat) ^ ndigits n \<le> 10 ^ k" by (simp add: power_increasing)
  with ndigits_upper [of n] show "n < 10 ^ k" by linarith
next
  assume lt: "n < 10 ^ k"
  show "ndigits n \<le> k"
  proof (cases "n = 0")
    case True
    with assms show ?thesis by (simp add: ndigits.simps)
  next
    case False
    then have "(10::nat) ^ (ndigits n - 1) < 10 ^ k"
      using ndigits_lower [of n] lt by linarith
    then have "ndigits n - 1 < k" by (simp add: power_strict_increasing_iff)
    then show ?thesis by simp
  qed
qed


section \<open>Exactness of the rounded arithmetic\<close>

lemma dec_val_Dec_False [simp]: "dec_val (Dec False c e) = of_nat c * 10 powi e"
  by (simp add: dec_val_def)

lemma dec_val_sign: "dec_val (Dec s c e) = (if s then - 1 else 1) * dec_val (Dec False c e)"
  by (simp add: dec_val_def)

lemma round_half_even_exact: "0 < p \<Longrightarrow> p dvd c \<Longrightarrow> round_half_even c p = c div p"
  by (simp add: round_half_even_def Let_def)

lemma round_half_even_ge: "c div p \<le> round_half_even c p"
  by (simp add: round_half_even_def Let_def)

lemma powi_10_of_nat: "(10::rat) powi int k = of_nat (10 ^ k)"
  by (simp add: power_int_def)

lemma powi_10_split: "(10::rat) powi (e + int k) = 10 powi e * of_nat (10 ^ k)"
  by (simp add: power_int_add powi_10_of_nat)

lemma powi_10_mono: "i \<le> j \<Longrightarrow> (10::rat) powi i \<le> 10 powi j"
  by (simp add: power_int_increasing)

text \<open>A dropped tail of zeros does not change the value.\<close>

lemma dec_fix_exact_dvd:
  assumes "PREC < ndigits c" and "10 ^ (ndigits c - PREC) dvd c"
  shows "dec_val (dec_fix (Dec s c e)) = dec_val (Dec s c e)"
proof -
  define k where "k = ndigits c - PREC"
  define q where "q = c div 10 ^ k"
  have c: "c = q * 10 ^ k" using assms(2) by (simp add: q_def k_def)
  have rq: "round_half_even c (10 ^ k) = q"
    using assms(2) by (simp add: round_half_even_exact q_def k_def)
  have "c < 10 ^ (PREC + k)"
    using ndigits_upper [of c] assms(1) by (simp add: k_def)
  then have "q < 10 ^ PREC"
    by (simp add: q_def power_add less_mult_imp_div_less)
  then have "ndigits q \<le> PREC" by (simp add: ndigits_le_iff PREC_def)
  then have "dec_fix (Dec s c e) = Dec s q (e + int k)"
    using assms(1) rq by (simp add: dec_fix_def Let_def k_def)
  then show ?thesis
    by (simp add: dec_val_def c powi_10_split)
qed

lemma dec_fix_exact_small: "ndigits (dcoef d) \<le> PREC \<Longrightarrow> dec_fix d = d"
  by (simp add: dec_fix_def Let_def)

lemma coef_of_cents:
  assumes val: "of_nat c * (10::rat) powi e = of_nat m / 100"
  shows "e \<ge> -2 \<Longrightarrow> c \<le> m"
    and "e < -2 \<Longrightarrow> c = m * 10 ^ nat (- 2 - e)"
proof -
  have m: "of_nat m = of_nat c * (10::rat) powi (e + 2)"
    using val by (simp add: power_int_add power_int_numeral field_simps)
  show "c \<le> m" if "e \<ge> -2"
  proof -
    have "(10::rat) powi (e + 2) = of_nat (10 ^ nat (e + 2))"
      using that powi_10_of_nat [of "nat (e + 2)"] by simp
    with m have "(of_nat m :: rat) = of_nat (c * 10 ^ nat (e + 2))" by simp
    then have "m = c * 10 ^ nat (e + 2)" by (metis of_nat_eq_iff)
    then show ?thesis by simp
  qed
  show "c = m * 10 ^ nat (- 2 - e)" if "e < -2"
  proof -
    have "(10::rat) powi (e + 2) * of_nat (10 ^ nat (- 2 - e)) = 1"
      using that powi_10_split [of "e + 2" "nat (- 2 - e)"] by simp
    with m have "of_nat (m * 10 ^ nat (- 2 - e)) = (of_nat c :: rat)" by simp
    then show ?thesis by (metis of_nat_eq_iff)
  qed
qed

text \<open>A result that is a number of cents below \<open>10 ^ 28\<close> is not changed by rounding.\<close>

lemma dec_fix_exact:
  assumes val: "dec_val (Dec False c e) = of_nat m / 100" and m: "m < 10 ^ PREC"
  shows "dec_val (dec_fix (Dec s c e)) = dec_val (Dec s c e)"
proof (cases "ndigits c \<le> PREC")
  case True
  then show ?thesis by (simp add: dec_fix_exact_small)
next
  case False
  have "\<not> e \<ge> -2"
  proof
    assume "e \<ge> -2"
    then have "c < 10 ^ PREC" using coef_of_cents(1) [of c e m] val m by simp
    with False show False by (simp add: ndigits_le_iff PREC_def)
  qed
  define j where "j = nat (- 2 - e)"
  have c: "c = m * 10 ^ j"
    using coef_of_cents(2) [of c e m] val \<open>\<not> e \<ge> -2\<close> by (simp add: j_def)
  have "c < 10 ^ PREC * 10 ^ j" using m c by simp
  then have "c < 10 ^ (PREC + j)" by (simp add: power_add)
  then have "ndigits c \<le> PREC + j" by (simp add: ndigits_le_iff PREC_def)
  then have "(10::nat) ^ (ndigits c - PREC) dvd c"
    using c by (simp add: le_imp_power_dvd)
  with False show ?thesis by (simp add: dec_fix_exact_dvd)
qed

text \<open>A rounded coefficient keeps all 28 digits, so rounding keeps the leading one.\<close>

lemma dec_fix_rounded:
  assumes "PREC < ndigits c"
  shows "\<exists>q i. dec_fix (Dec s c e) = Dec s q i \<and> 10 ^ 27 \<le> q \<and> e + int (ndigits c - PREC) \<le> i"
proof -
  define k where "k = ndigits c - PREC"
  define q where "q = round_half_even c (10 ^ k)"
  have "0 < c" using assms by (cases c) (auto simp: ndigits.simps PREC_def)
  then have "10 ^ (ndigits c - 1) \<le> c" by (rule ndigits_lower)
  moreover have "ndigits c - 1 = 27 + k" using assms by (simp add: k_def PREC_def)
  ultimately have "(10 ^ (27 + k)) div 10 ^ k \<le> c div 10 ^ k" by (simp add: div_le_mono)
  then have "10 ^ 27 \<le> c div 10 ^ k" by (simp add: power_add)
  also have "\<dots> \<le> q" by (simp add: q_def round_half_even_ge)
  finally have q: "10 ^ 27 \<le> q" .
  show ?thesis
  proof (cases "ndigits q > PREC")
    case True
    then have "10 ^ PREC \<le> q"
      using ndigits_le_iff [of PREC q] by (simp add: PREC_def not_less)
    then have "10 ^ 27 \<le> q div 10"
      using div_le_mono [of "10 ^ PREC" q 10] by (simp add: PREC_def)
    moreover have "dec_fix (Dec s c e) = Dec s (q div 10) (e + int k + 1)"
      using assms True by (simp add: dec_fix_def Let_def k_def q_def)
    ultimately show ?thesis by (auto simp: k_def)
  next
    case False
    then have "dec_fix (Dec s c e) = Dec s q (e + int k)"
      using assms by (simp add: dec_fix_def Let_def k_def q_def)
    with q show ?thesis by (auto simp: k_def)
  qed
qed

text \<open>Rounding never takes a value below a power of ten it had reached.\<close>

lemma dec_fix_ge_pow10:
  assumes ge: "10 powi j \<le> dec_val (Dec False c e)"
  shows "10 powi j \<le> dec_val (dec_fix (Dec False c e))"
proof (cases "ndigits c \<le> PREC")
  case True
  with ge show ?thesis by (simp add: dec_fix_exact_small)
next
  case False
  then obtain q i where fix_eq: "dec_fix (Dec False c e) = Dec False q i"
    and q: "10 ^ 27 \<le> q" and i: "e + int (ndigits c - PREC) \<le> i"
    using dec_fix_rounded [of c False e] by (auto simp: not_le)
  have "(of_nat c :: rat) < of_nat (10 ^ ndigits c)"
    using ndigits_upper [of c] by (simp del: of_nat_power)
  then have "dec_val (Dec False c e) < 10 powi (e + int (ndigits c))"
    by (simp add: powi_10_split mult.commute del: of_nat_power)
  with ge have "10 powi j < (10::rat) powi (e + int (ndigits c))" by simp
  then have "j < e + int (ndigits c)"
    using powi_10_mono [of "e + int (ndigits c)" j] by linarith
  with i False have "j \<le> i + int 27" by (simp add: PREC_def)
  then have "(10::rat) powi j \<le> 10 powi i * of_nat (10 ^ 27)"
    using powi_10_mono [of j "i + int 27"] by (simp only: powi_10_split)
  also have "\<dots> \<le> 10 powi i * of_nat q"
    using q by (intro mult_left_mono) (metis of_nat_le_iff, simp)
  finally show ?thesis by (simp add: fix_eq mult.commute)
qed

section \<open>Values of the operations\<close>

lemma dec_coef_at_val:
  assumes "e \<le> dexp d"
  shows "of_int (dec_coef_at e d) * 10 powi e = dec_val d"
proof -
  have "(10::rat) powi dexp d = 10 powi e * of_nat (10 ^ nat (dexp d - e))"
    using assms powi_10_split [of e "nat (dexp d - e)"] by simp
  then show ?thesis by (simp add: dec_coef_at_def dec_val_def)
qed

text \<open>The sum before rounding has the exact value.\<close>

lemma dec_add_unrounded:
  obtains s c e where "dec_add a b = dec_fix (Dec s c e)"
    and "dec_val (Dec s c e) = dec_val a + dec_val b"
    and "s \<longrightarrow> dec_val a + dec_val b \<le> 0"
proof -
  define e where "e = min (dexp a) (dexp b)"
  define t where "t = dec_coef_at e a + dec_coef_at e b"
  define s where "s = (if t = 0 then dneg a \<and> dneg b else t < 0)"
  have sum: "of_int t * 10 powi e = dec_val a + dec_val b"
    by (simp add: t_def e_def ring_distribs dec_coef_at_val)
  have "dec_val (Dec s (nat \<bar>t\<bar>) e) = of_int t * 10 powi e"
    by (auto simp: dec_val_def s_def)
  with sum have val: "dec_val (Dec s (nat \<bar>t\<bar>) e) = dec_val a + dec_val b" by simp
  moreover have "dec_add a b = dec_fix (Dec s (nat \<bar>t\<bar>) e)"
    by (simp add: dec_add_def Let_def e_def t_def s_def)
  moreover have "s \<longrightarrow> dec_val a + dec_val b \<le> 0"
    unfolding val [symmetric] by (simp add: dec_val_def)
  ultimately show thesis using that by blast
qed

text \<open>A sign in front of a value that is not negative belongs to a zero.\<close>

lemma powi_10_pos [simp]: "0 < (10::rat) powi e"
  by (simp add: zero_less_power_int)

lemma dec_val_neg_ge_0: "0 \<le> dec_val (Dec True c e) \<longleftrightarrow> c = 0"
proof
  assume "0 \<le> dec_val (Dec True c e)"
  then have "of_nat c * (10::rat) powi e \<le> 0" by (simp add: dec_val_def)
  then have "(of_nat c :: rat) \<le> 0"
    by (metis powi_10_pos mult_le_0_iff less_le_not_le)
  then show "c = 0" by simp
qed (simp add: dec_val_def)

lemma dec_val_pos_sign:
  "0 \<le> dec_val (Dec s c e) \<Longrightarrow> dec_val (Dec s c e) = dec_val (Dec False c e)"
  using dec_val_neg_ge_0 [of c e] by (cases s) (auto simp: dec_val_sign [of True])

lemma dec_fix_zero_coef: "dec_fix (Dec s 0 e) = Dec s 0 e"
  by (simp add: dec_fix_exact_small ndigits.simps PREC_def)

lemma dec_val_fix_sign:
  "0 \<le> dec_val (Dec s c e) \<Longrightarrow> dec_val (dec_fix (Dec s c e)) = dec_val (dec_fix (Dec False c e))"
  using dec_val_neg_ge_0 [of c e] by (cases s) (auto simp: dec_fix_zero_coef dec_val_def [of "Dec True 0 e"])

lemma dec_add_exact:
  assumes "dec_val a + dec_val b = of_nat m / 100" and "m < 10 ^ PREC"
  shows "dec_val (dec_add a b) = dec_val a + dec_val b"
proof -
  obtain s c e where add: "dec_add a b = dec_fix (Dec s c e)"
    and val: "dec_val (Dec s c e) = dec_val a + dec_val b"
    by (rule dec_add_unrounded)
  then have "dec_val (Dec False c e) = of_nat m / 100"
    using dec_val_pos_sign [of s c e] assms(1) by simp
  then show ?thesis
    using dec_fix_exact [OF _ assms(2), of c e s] add val by simp
qed

lemma dec_add_ge_pow10:
  assumes "10 powi j \<le> dec_val a + dec_val b"
  shows "10 powi j \<le> dec_val (dec_add a b)"
proof -
  obtain s c e where add: "dec_add a b = dec_fix (Dec s c e)"
    and val: "dec_val (Dec s c e) = dec_val a + dec_val b"
    by (rule dec_add_unrounded)
  have pos: "0 \<le> dec_val (Dec s c e)"
    using assms val powi_10_pos [of j] by linarith
  then have "10 powi j \<le> dec_val (Dec False c e)"
    using dec_val_pos_sign [OF pos] assms val by simp
  then have "10 powi j \<le> dec_val (dec_fix (Dec False c e))" by (rule dec_fix_ge_pow10)
  then show ?thesis by (simp add: add dec_val_fix_sign [OF pos])
qed

lemma dec_mul_int_exact:
  assumes "0 \<le> i" and "dec_val d * of_int i = of_nat m / 100" and "m < 10 ^ PREC"
  shows "dec_val (dec_mul_int d i) = dec_val d * of_int i"
proof -
  let ?p = "Dec (dneg d) (dcoef d * nat i) (dexp d)"
  have val: "dec_val ?p = dec_val d * of_int i"
    using assms(1) by (simp add: dec_val_def)
  then have "dec_val (Dec False (dcoef d * nat i) (dexp d)) = of_nat m / 100"
    using dec_val_pos_sign [of "dneg d" "dcoef d * nat i" "dexp d"] assms(2) by simp
  then show ?thesis
    using dec_fix_exact [OF _ assms(3), of "dcoef d * nat i" "dexp d" "dneg d"] val assms(1)
    by (simp add: dec_mul_int_def)
qed

end
