(* ===== verification/PyUrl.thy ===== *)
theory PyUrl
  imports PyText Prelude
begin

text \<open>
  What the service uses of \<open>urllib.parse\<close>: \<open>urlsplit\<close>, \<open>urlunsplit\<close> on URLs with a network
  location, and the names \<open>parse_qs\<close> finds; and the \<open>partition\<close> methods of strings. The check of a
  bracketed host (an IPv6 literal) is an argument, since only whether it raises matters.

  The lemmas give the split of a URL written as scheme, \<open>//\<close>, network location and rest
  (\<open>urlsplit_location\<close>).
\<close>

section \<open>Partitioning\<close>

text \<open>\<open>s.partition(c)\<close>: before, whether the separator was there, after.\<close>

definition partition_at :: "char \<Rightarrow> string \<Rightarrow> string \<times> bool \<times> string" where
  "partition_at c s =
     (takeWhile (\<lambda>x. x \<noteq> c) s, c \<in> set s, drop 1 (dropWhile (\<lambda>x. x \<noteq> c) s))"

text \<open>\<open>s.rpartition(c)\<close>: at the last occurrence; without one, everything is the last part.\<close>

definition rpartition_at :: "char \<Rightarrow> string \<Rightarrow> string \<times> bool \<times> string" where
  "rpartition_at c s =
     (rev (drop 1 (dropWhile (\<lambda>x. x \<noteq> c) (rev s))), c \<in> set s, rev (takeWhile (\<lambda>x. x \<noteq> c) (rev s)))"

lemma until_first [simp]:
  "c \<notin> set a \<Longrightarrow> takeWhile (\<lambda>x. x \<noteq> c) (a @ c # b) = a"
  "c \<notin> set a \<Longrightarrow> dropWhile (\<lambda>x. x \<noteq> c) (a @ c # b) = c # b"
  "c \<notin> set a \<Longrightarrow> takeWhile (\<lambda>x. x \<noteq> c) a = a"
  "c \<notin> set a \<Longrightarrow> dropWhile (\<lambda>x. x \<noteq> c) a = []"
  by (induction a) auto

lemma partition_at_first: "c \<notin> set a \<Longrightarrow> partition_at c (a @ c # b) = (a, True, b)"
  by (simp add: partition_at_def)

lemma partition_at_none: "c \<notin> set a \<Longrightarrow> partition_at c a = (a, False, [])"
  by (simp add: partition_at_def)

lemma rpartition_at_last: "c \<notin> set b \<Longrightarrow> rpartition_at c (a @ c # b) = (a, True, b)"
  by (simp add: rpartition_at_def)

lemma rpartition_at_none: "c \<notin> set a \<Longrightarrow> rpartition_at c a = ([], False, a)"
  by (simp add: rpartition_at_def)

lemma rpartition_at_parts:
  "rpartition_at c s = (a, True, b) \<Longrightarrow> s = a @ c # b \<and> c \<notin> set b"
proof -
  assume "rpartition_at c s = (a, True, b)"
  then have c: "c \<in> set (rev s)" and ab: "a = rev (drop 1 (dropWhile (\<lambda>x. x \<noteq> c) (rev s)))"
      "b = rev (takeWhile (\<lambda>x. x \<noteq> c) (rev s))"
    by (auto simp: rpartition_at_def)
  then obtain u v where uv: "rev s = u @ c # v" "c \<notin> set u" by (meson split_list_first)
  then have "a = rev v" and "b = rev u" using ab by simp_all
  then show ?thesis using uv by (metis append_assoc append_Cons append_Nil rev.simps(2) rev_append rev_rev_ident set_rev)
qed

section \<open>Splitting a URL\<close>

record split_url =
  u_scheme :: string
  u_netloc :: string
  u_path :: string
  u_query :: string
  u_fragment :: string

definition is_alpha :: "char \<Rightarrow> bool" where
  "is_alpha c \<longleftrightarrow> (let n = (of_char c :: nat) in (97 \<le> n \<and> n \<le> 122) \<or> (65 \<le> n \<and> n \<le> 90))"

definition scheme_char :: "char \<Rightarrow> bool" where
  "scheme_char c \<longleftrightarrow> is_alpha c \<or> is_digit c \<or> c \<in> set ''+-.''"

definition ascii_lower :: "char \<Rightarrow> char" where
  "ascii_lower c =
     (let n = (of_char c :: nat) in if 65 \<le> n \<and> n \<le> 90 then char_of (n + 32) else c)"

text \<open>Leading control characters and spaces go, and tabs and line ends anywhere.\<close>

definition strip_unsafe :: "string \<Rightarrow> string" where
  "strip_unsafe url =
     filter (\<lambda>c. c \<notin> {CHR 0x09, CHR 0x0A, CHR 0x0D}) (dropWhile (\<lambda>c. (of_char c :: nat) \<le> 32) url)"

text \<open>The scheme, lower-cased, if the text before the first colon is one.\<close>

definition split_scheme :: "string \<Rightarrow> string \<times> string" where
  "split_scheme url =
     (case partition_at CHR '':'' url of (before, found, after) \<Rightarrow>
        if found \<and> before \<noteq> [] \<and> is_alpha (hd before) \<and> list_all scheme_char before
        then (map ascii_lower before, after) else ([], url))"

definition split_netloc :: "string \<Rightarrow> string \<times> string" where
  "split_netloc url =
     (if take 2 url = ''//''
      then (takeWhile (\<lambda>c. c \<notin> set ''/?#'') (drop 2 url), dropWhile (\<lambda>c. c \<notin> set ''/?#'') (drop 2 url))
      else ([], url))"

text \<open>\<open>urlsplit\<close>; \<open>None\<close> is the \<open>ValueError\<close> it raises on brackets that do not hold an address.\<close>

definition urlsplit :: "(string \<Rightarrow> bool) \<Rightarrow> string \<Rightarrow> split_url option" where
  "urlsplit bracketed_ok raw =
     (let (scheme, url) = split_scheme (strip_unsafe raw);
          (netloc, url) = split_netloc url
      in if (CHR ''['' \<in> set netloc) \<noteq> (CHR '']'' \<in> set netloc) then None
         else if CHR ''['' \<in> set netloc \<and> \<not> bracketed_ok netloc then None
         else
           let (url, has_fragment, fragment) = partition_at CHR ''#'' url;
               (path, has_query, query) = partition_at CHR ''?'' url
           in Some \<lparr>u_scheme = scheme, u_netloc = netloc, u_path = path, u_query = query, u_fragment = fragment\<rparr>)"

text \<open>\<open>urlunsplit\<close> of parts whose network location is not empty.\<close>

definition urlunsplit :: "split_url \<Rightarrow> string" where
  "urlunsplit u =
     (if u_scheme u = [] then [] else u_scheme u @ '':'') @ ''//'' @ u_netloc u
     @ (if u_path u \<noteq> [] \<and> hd (u_path u) \<noteq> CHR ''/'' then ''/'' else []) @ u_path u
     @ (if u_query u = [] then [] else ''?'' @ u_query u)
     @ (if u_fragment u = [] then [] else ''#'' @ u_fragment u)"

text \<open>A URL as it is written: a scheme, a network location, and what follows it.\<close>

definition scheme_text :: "string \<Rightarrow> bool" where
  "scheme_text s \<longleftrightarrow> s \<noteq> [] \<and> is_alpha (hd s) \<and> list_all scheme_char s"

definition printable_text :: "string \<Rightarrow> bool" where
  "printable_text s \<longleftrightarrow> list_all (\<lambda>c. 32 < (of_char c :: nat)) s"

definition netloc_text :: "string \<Rightarrow> bool" where
  "netloc_text s \<longleftrightarrow> list_all (\<lambda>c. c \<notin> set ''/?#[]'') s"

definition rest_text :: "string \<Rightarrow> bool" where
  "rest_text s \<longleftrightarrow> s = [] \<or> hd s \<in> set ''/?#''"

lemma strip_unsafe_printable: "printable_text s \<Longrightarrow> strip_unsafe s = s"
proof -
  assume s: "printable_text s"
  have "dropWhile (\<lambda>c. (of_char c :: nat) \<le> 32) s = s"
    using s by (cases s) (auto simp: printable_text_def)
  moreover have "filter (\<lambda>c. c \<notin> {CHR 0x09, CHR 0x0A, CHR 0x0D}) s = s"
    using s by (auto simp: printable_text_def list_all_iff intro!: filter_True)
  ultimately show ?thesis by (simp add: strip_unsafe_def)
qed

lemma scheme_text_no_colon: "scheme_text s \<Longrightarrow> CHR '':'' \<notin> set s"
  by (auto simp: scheme_text_def list_all_iff scheme_char_def is_alpha_def is_digit_def Let_def)

lemma split_scheme_of: "scheme_text s \<Longrightarrow> split_scheme (s @ '':'' @ r) = (map ascii_lower s, r)"
  using scheme_text_no_colon [of s] partition_at_first [of "CHR '':''" s r]
  by (simp add: split_scheme_def scheme_text_def)

lemma split_netloc_of:
  "netloc_text n \<Longrightarrow> rest_text r \<Longrightarrow> split_netloc (''//'' @ n @ r) = (n, r)"
proof -
  assume n: "netloc_text n" and r: "rest_text r"
  have n': "\<forall>c\<in>set n. c \<notin> set ''/?#''" using n by (auto simp: netloc_text_def list_all_iff)
  have "takeWhile (\<lambda>c. c \<notin> set ''/?#'') r = []" and "dropWhile (\<lambda>c. c \<notin> set ''/?#'') r = r"
    using r by (cases r; auto simp: rest_text_def)+
  then have "takeWhile (\<lambda>c. c \<notin> set ''/?#'') (n @ r) = n" and "dropWhile (\<lambda>c. c \<notin> set ''/?#'') (n @ r) = r"
    using n' by (induction n) auto
  then show ?thesis by (simp add: split_netloc_def)
qed

definition url_parts :: "string \<Rightarrow> string \<times> string \<times> string" where
  "url_parts r =
     (case partition_at CHR ''#'' r of (url, f, fragment) \<Rightarrow>
        case partition_at CHR ''?'' url of (path, q, query) \<Rightarrow> (path, query, fragment))"

lemma urlsplit_location:
  assumes "scheme_text s" and "netloc_text n" and "rest_text r" and "printable_text (s @ ''://'' @ n @ r)"
    and "url_parts r = (path, query, fragment)"
  shows "urlsplit bracketed_ok (s @ ''://'' @ n @ r) = Some \<lparr>u_scheme = map ascii_lower s, u_netloc = n,
    u_path = path, u_query = query, u_fragment = fragment\<rparr>"
proof -
  have scheme: "split_scheme (s @ ''://'' @ n @ r) = (map ascii_lower s, ''//'' @ n @ r)"
    using split_scheme_of [OF assms(1), of "''//'' @ n @ r"] by simp
  have brackets: "CHR ''['' \<notin> set n" "CHR '']'' \<notin> set n"
    using assms(2) by (auto simp: netloc_text_def list_all_iff)
  show ?thesis
    unfolding urlsplit_def strip_unsafe_printable [OF assms(4)] scheme
    using split_netloc_of [OF assms(2,3)] brackets assms(5)
    by (auto simp: url_parts_def split: prod.splits)
qed

section \<open>Query strings\<close>

text \<open>\<open>unquote\<close>, byte by byte; a code above 127 stands for whatever its bytes decode to.\<close>

definition hex_value :: "char \<Rightarrow> nat option" where
  "hex_value c =
     (let n = (of_char c :: nat)
      in if 48 \<le> n \<and> n \<le> 57 then Some (n - 48)
         else if 65 \<le> n \<and> n \<le> 70 then Some (n - 55)
         else if 97 \<le> n \<and> n \<le> 102 then Some (n - 87) else None)"

fun unquote :: "string \<Rightarrow> string" where
  "unquote (c # a # b # s) =
     (if c = CHR ''%'' then
        (case (hex_value a, hex_value b) of
           (Some i, Some j) \<Rightarrow> char_of (16 * i + j) # unquote s
         | _ \<Rightarrow> c # unquote (a # b # s))
      else c # unquote (a # b # s))"
| "unquote s = s"

definition plus_to_space :: "string \<Rightarrow> string" where
  "plus_to_space s = map (\<lambda>c. if c = CHR ''+'' then CHR '' '' else c) s"

function split_on :: "char \<Rightarrow> string \<Rightarrow> string list" where
  "split_on c s =
     (if c \<in> set s then takeWhile (\<lambda>x. x \<noteq> c) s # split_on c (drop 1 (dropWhile (\<lambda>x. x \<noteq> c) s)) else [s])"
  by pat_completeness auto
termination
proof (relation "measure (\<lambda>(c, s). length s)")
  show "wf (measure (\<lambda>(c, s). length s))" by simp
  fix c and s :: string
  assume "c \<in> set s"
  then have "0 < length s" by (cases s) auto
  moreover have "length (drop 1 (dropWhile (\<lambda>x. x \<noteq> c) s)) < length s"
    using length_dropWhile_le [of "\<lambda>x. x \<noteq> c" s] \<open>0 < length s\<close> by (simp only: length_drop)
  ultimately show "((c, drop 1 (dropWhile (\<lambda>x. x \<noteq> c) s)), c, s) \<in> measure (\<lambda>(c, s). length s)" by simp
qed

declare split_on.simps [simp del]

text \<open>The names in \<open>parse_qs(query)\<close>: pairs with an equals sign and a value.\<close>

definition qs_names :: "string \<Rightarrow> string list" where
  "qs_names query =
     map (\<lambda>p. unquote (plus_to_space (fst (partition_at CHR ''='' p))))
       (filter (\<lambda>p. fst (snd (partition_at CHR ''='' p)) \<and> snd (snd (partition_at CHR ''='' p)) \<noteq> [])
         (split_on CHR ''&'' query))"

section \<open>Substrings\<close>

text \<open>\<open>s.partition(sep)\<close> for a separator of any length: \<open>None\<close> when it does not occur.\<close>

fun partition_sub :: "string \<Rightarrow> string \<Rightarrow> (string \<times> string) option" where
  "partition_sub sep [] = (if sep = [] then Some ([], []) else None)"
| "partition_sub sep (c # s) =
     (if starts_with (c # s) sep then Some ([], drop (length sep) (c # s))
      else map_option (\<lambda>(a, b). (c # a, b)) (partition_sub sep s))"

lemma partition_sub_at:
  assumes "hd sep \<notin> set a" and "sep \<noteq> []"
  shows "partition_sub sep (a @ sep @ b) = Some (a, b)"
  using assms(1)
proof (induction a)
  case Nil
  obtain c t where "sep @ b = c # t" using assms(2) by (cases sep) auto
  moreover have "starts_with (sep @ b) sep" by (simp add: starts_with_iff)
  moreover have "drop (length sep) (sep @ b) = b" by simp
  ultimately show ?case by simp
next
  case (Cons x a)
  then have "\<not> starts_with (x # a @ sep @ b) sep"
    using assms(2) by (cases sep) (auto simp: starts_with_iff)
  then show ?case using Cons by simp
qed

end
