(* ===== verification/Errors.thy ===== *)
theory Errors
  imports PyText
begin

text \<open>
  The exceptions of the service as values. The three modules that define exceptions are three
  datatypes (\<open>domain/errors.py\<close>, \<open>services/errors.py\<close>, \<open>infrastructure/errors.py\<close>); the
  exceptions of the libraries and of Python that the code catches or lets pass are a fourth.
  An exception carries what the code later reads from it: identifiers, reasons, messages,
  status codes, error codes.
\<close>

section \<open>The exception types\<close>

text \<open>
  Business rule violations. \<open>OtherDomainError\<close> is any further subclass of \<open>DomainError\<close>: its
  class names in method resolution order, its \<open>code\<close> and \<open>title\<close>, and its message.
\<close>

datatype domain_error =
    OrderNotFoundError uuid
  | PaymentDeclinedError uuid string
  | OtherDomainError "string list" string string string

datatype service_error = ServiceDefectError string

datatype infra_error =
    CorruptPersistedDataError string
  | StorageConstraintViolatedError string
  | PaymentUnavailableError string
  | StorageUnavailableError string

text \<open>What the circuit breaker says when it refuses: the seconds left, or a probe is running.\<close>

datatype circuit_refusal = RetryingIn rat | ProbeRunning

text \<open>The driver's own exception behind an integrity error, as far as the code may read it.\<close>

record driver_error =
  sqlstate :: "string option"
  table_name :: "string option"
  constraint_name :: "string option"
  err_detail :: string
  err_message :: string

datatype lib_error =
    PydanticValidationError
  | RequestValidationError string
  | StarletteHTTPException nat string "(string \<times> string) list"
  | CircuitOpenError circuit_refusal
  | ConnectError | ConnectTimeout | PoolTimeout | ReadTimeout | WriteTimeout
  | HTTPStatusError nat
  | OtherHTTPError string
  | InvalidURL
  | ClientError "string option"
  | BotoCoreError
  | IntegrityError "driver_error option"
  | TimeoutError
  | ValueError string
  | KeyError
  | TypeError
  | AttributeError
  | OtherException string string

datatype exn =
    Domain domain_error
  | Service service_error
  | Infra infra_error
  | Lib lib_error

section \<open>Attributes of domain errors\<close>

fun error_code :: "domain_error \<Rightarrow> string" where
  "error_code (OrderNotFoundError i) = ''order_not_found''"
| "error_code (PaymentDeclinedError i r) = ''payment_declined''"
| "error_code (OtherDomainError mro c t m) = c"

fun error_title :: "domain_error \<Rightarrow> string" where
  "error_title (OrderNotFoundError i) = ''Order not found''"
| "error_title (PaymentDeclinedError i r) = ''Payment declined''"
| "error_title (OtherDomainError mro c t m) = t"

text \<open>\<open>str(exc)\<close> of a domain error: the message its constructor builds.\<close>

fun error_message :: "domain_error \<Rightarrow> string" where
  "error_message (OrderNotFoundError i) = ''no order with id '' @ uuid_str i"
| "error_message (PaymentDeclinedError i r) =
     ''payment for order '' @ uuid_str i @ '' was declined: '' @ r"
| "error_message (OtherDomainError mro c t m) = m"

text \<open>\<open>type(error).__mro__\<close>, by class name.\<close>

fun error_mro :: "domain_error \<Rightarrow> string list" where
  "error_mro (OrderNotFoundError i) =
     [''OrderNotFoundError'', ''DomainError'', ''Exception'', ''BaseException'', ''object'']"
| "error_mro (PaymentDeclinedError i r) =
     [''PaymentDeclinedError'', ''DomainError'', ''Exception'', ''BaseException'', ''object'']"
| "error_mro (OtherDomainError mro c t m) = mro"

section \<open>Names and families of library exceptions\<close>

text \<open>\<open>type(exc).__name__\<close>.\<close>

fun lib_error_name :: "lib_error \<Rightarrow> string" where
  "lib_error_name PydanticValidationError = ''ValidationError''"
| "lib_error_name (RequestValidationError m) = ''RequestValidationError''"
| "lib_error_name (StarletteHTTPException c m hs) = ''HTTPException''"
| "lib_error_name (CircuitOpenError r) = ''CircuitOpenError''"
| "lib_error_name ConnectError = ''ConnectError''"
| "lib_error_name ConnectTimeout = ''ConnectTimeout''"
| "lib_error_name PoolTimeout = ''PoolTimeout''"
| "lib_error_name ReadTimeout = ''ReadTimeout''"
| "lib_error_name WriteTimeout = ''WriteTimeout''"
| "lib_error_name (HTTPStatusError c) = ''HTTPStatusError''"
| "lib_error_name (OtherHTTPError n) = n"
| "lib_error_name InvalidURL = ''InvalidURL''"
| "lib_error_name (ClientError c) = ''ClientError''"
| "lib_error_name BotoCoreError = ''BotoCoreError''"
| "lib_error_name (IntegrityError d) = ''IntegrityError''"
| "lib_error_name TimeoutError = ''TimeoutError''"
| "lib_error_name (ValueError m) = ''ValueError''"
| "lib_error_name KeyError = ''KeyError''"
| "lib_error_name TypeError = ''TypeError''"
| "lib_error_name AttributeError = ''AttributeError''"
| "lib_error_name (OtherException n m) = n"

fun exn_name :: "exn \<Rightarrow> string" where
  "exn_name (Domain d) = hd (error_mro d @ [''DomainError''])"
| "exn_name (Service s) = ''ServiceDefectError''"
| "exn_name (Infra (CorruptPersistedDataError m)) = ''CorruptPersistedDataError''"
| "exn_name (Infra (StorageConstraintViolatedError m)) = ''StorageConstraintViolatedError''"
| "exn_name (Infra (PaymentUnavailableError m)) = ''PaymentUnavailableError''"
| "exn_name (Infra (StorageUnavailableError m)) = ''StorageUnavailableError''"
| "exn_name (Lib l) = lib_error_name l"

text \<open>\<open>isinstance(exc, (httpx.HTTPError, httpx.InvalidURL))\<close>.\<close>

fun is_httpx_error :: "exn \<Rightarrow> bool" where
  "is_httpx_error (Lib ConnectError) = True"
| "is_httpx_error (Lib ConnectTimeout) = True"
| "is_httpx_error (Lib PoolTimeout) = True"
| "is_httpx_error (Lib ReadTimeout) = True"
| "is_httpx_error (Lib WriteTimeout) = True"
| "is_httpx_error (Lib (HTTPStatusError c)) = True"
| "is_httpx_error (Lib (OtherHTTPError n)) = True"
| "is_httpx_error (Lib InvalidURL) = True"
| "is_httpx_error e = False"

text \<open>\<open>isinstance(exc, (pydantic.ValidationError, ValueError))\<close>: the first is a subclass of the second.\<close>

fun is_value_error :: "exn \<Rightarrow> bool" where
  "is_value_error (Lib PydanticValidationError) = True"
| "is_value_error (Lib (ValueError m)) = True"
| "is_value_error e = False"

text \<open>\<open>isinstance(exc, (ValueError, KeyError, TypeError, AttributeError))\<close>.\<close>

fun is_shape_error :: "exn \<Rightarrow> bool" where
  "is_shape_error (Lib KeyError) = True"
| "is_shape_error (Lib TypeError) = True"
| "is_shape_error (Lib AttributeError) = True"
| "is_shape_error e = is_value_error e"

end
