(* ===== verification/Settings.thy ===== *)
theory Settings
  imports PyUrl Errors
begin

text \<open>
  Application configuration (\<open>settings.py\<close>) and the DSN handling of the database engine
  (\<open>infrastructure/db/engine.py\<close>): the settings models with their constraints as predicates, the
  validators with their messages, and \<open>load_settings\<close>. Floats are their exact values; an infinite
  one, which pydantic would accept, is not modelled. URLs that pydantic has validated are their text.

  The lemmas show that the two checks of a DSN agree, so a DSN the settings accept never fails in the
  engine (\<open>accepted_dsn_builds\<close>), and that the message for invalid settings has no rejected value in
  it (\<open>config_error_is_value_free\<close>).
\<close>

section \<open>Logging and telemetry\<close>

definition log_levels :: "string list" where
  "log_levels = [''debug'', ''info'', ''warning'', ''error'', ''critical'']"

record log_settings =
  log_level :: string
  log_level_overrides :: "(string \<times> string) list"
  log_redact_fields :: "string list"

definition log_settings_valid :: "log_settings \<Rightarrow> bool" where
  "log_settings_valid s \<longleftrightarrow>
     log_level s \<in> set log_levels \<and> list_all (\<lambda>(name, l). l \<in> set log_levels) (log_level_overrides s)"

record otel_settings =
  otel_enabled :: bool
  otel_logs_enabled :: bool
  otel_endpoint :: "string option"
  otel_sample_ratio :: rat
  otel_metric_export_interval_ms :: int

text \<open>The message of the validator, when it raises one; an empty endpoint counts as unset.\<close>

definition exporting_requires_somewhere_to_export_to :: "otel_settings \<Rightarrow> string option" where
  "exporting_requires_somewhere_to_export_to s =
     (if otel_enabled s \<and> (otel_endpoint s = None \<or> otel_endpoint s = Some [])
      then Some ''APP_OTEL__ENABLED is true but APP_OTEL__ENDPOINT is not set: the SDK would start and then drop every span, metric and log record from its own exporter thread. Set the collector endpoint, or set APP_OTEL__ENABLED=false.''
      else if otel_logs_enabled s \<and> \<not> otel_enabled s
      then Some ''APP_OTEL__LOGS_ENABLED is true but APP_OTEL__ENABLED is false: OTLP log export uses the providers APP_OTEL__ENABLED builds, so on its own this setting does nothing.''
      else None)"

definition otel_settings_valid :: "otel_settings \<Rightarrow> bool" where
  "otel_settings_valid s \<longleftrightarrow>
     0 \<le> otel_sample_ratio s \<and> otel_sample_ratio s \<le> 1 \<and> 1000 \<le> otel_metric_export_interval_ms s
     \<and> exporting_requires_somewhere_to_export_to s = None"

section \<open>Database\<close>

record database_settings =
  db_dsn :: string
  db_pool_size :: int
  db_statement_timeout_ms :: int

definition LIBPQ_ONLY_DSN_PARAMETERS :: "string list" where
  "LIBPQ_ONLY_DSN_PARAMETERS = [''sslmode'', ''sslcert'', ''sslkey'', ''sslrootcert'']"

text \<open>The validator of \<open>dsn\<close>: its message, never with the DSN in it. \<open>urlsplit\<close> itself may raise.\<close>

definition dsn_must_not_carry_libpq_only_parameters :: "(string \<Rightarrow> bool) \<Rightarrow> string \<Rightarrow> string option" where
  "dsn_must_not_carry_libpq_only_parameters bracketed_ok dsn =
     (case urlsplit bracketed_ok dsn of
        None \<Rightarrow> Some ''Invalid IPv6 URL''
      | Some u \<Rightarrow>
          map_option (\<lambda>p. ''must not carry the libpq parameter '' @ [CHR 0x27] @ p @ [CHR 0x27]
              @ '': asyncpg does not understand it.'')
            (find (\<lambda>p. p \<in> set (qs_names (u_query u))) LIBPQ_ONLY_DSN_PARAMETERS))"

definition database_settings_valid :: "(string \<Rightarrow> bool) \<Rightarrow> database_settings \<Rightarrow> bool" where
  "database_settings_valid bracketed_ok s \<longleftrightarrow>
     1 \<le> db_pool_size s \<and> 0 \<le> db_statement_timeout_ms s
     \<and> dsn_must_not_carry_libpq_only_parameters bracketed_ok (db_dsn s) = None"

text \<open>
  \<open>async_dsn\<close> of the engine module, with its own copy of the check; the messages are kept up to
  where they start to give advice.
\<close>

definition LIBPQ_ONLY_PARAMETERS :: "string list" where
  "LIBPQ_ONLY_PARAMETERS = [''sslmode'', ''sslcert'', ''sslkey'', ''sslrootcert'']"

definition async_dsn :: "(string \<Rightarrow> bool) \<Rightarrow> string \<Rightarrow> exn + string" where
  "async_dsn bracketed_ok raw =
     (case urlsplit bracketed_ok raw of
        None \<Rightarrow> Inl (Lib (ValueError ''Invalid IPv6 URL''))
      | Some u \<Rightarrow>
          (case find (\<lambda>p. p \<in> set (qs_names (u_query u))) LIBPQ_ONLY_PARAMETERS of
             Some p \<Rightarrow> Inl (Lib (ValueError (''APP_DATABASE__DSN must not carry the libpq parameter ''
               @ [CHR 0x27] @ p @ [CHR 0x27])))
           | None \<Rightarrow>
               (case partition_sub ''://'' raw of
                  None \<Rightarrow> Inl (Lib (ValueError (''not a database URL: missing '' @ [CHR 0x27] @ ''://'' @ [CHR 0x27]
                    @ '' between the scheme and the rest'')))
                | Some (scheme, rest) \<Rightarrow>
                    if CHR ''+'' \<in> set scheme then Inr raw else Inr (''postgresql+asyncpg://'' @ rest))))"

section \<open>Payment, cache and storage\<close>

record http_client_settings =
  http_connect_timeout_seconds :: rat
  http_read_timeout_seconds :: rat
  http_write_timeout_seconds :: rat
  http_pool_timeout_seconds :: rat
  http_max_connections :: int
  http_max_keepalive_connections :: int

definition http_client_settings_valid :: "http_client_settings \<Rightarrow> bool" where
  "http_client_settings_valid s \<longleftrightarrow>
     0 < http_connect_timeout_seconds s \<and> 0 < http_read_timeout_seconds s \<and> 0 < http_write_timeout_seconds s
     \<and> 0 < http_pool_timeout_seconds s \<and> 1 \<le> http_max_connections s \<and> 0 \<le> http_max_keepalive_connections s"

record payment_settings =
  pay_base_url :: string
  pay_api_key :: "string option"
  pay_http :: http_client_settings
  pay_retry_attempts :: int
  pay_retry_initial_wait_seconds :: rat
  pay_retry_max_wait_seconds :: rat
  pay_breaker_failure_threshold :: int
  pay_breaker_reset_after_seconds :: rat

definition payment_settings_valid :: "payment_settings \<Rightarrow> bool" where
  "payment_settings_valid s \<longleftrightarrow>
     http_client_settings_valid (pay_http s) \<and> 1 \<le> pay_retry_attempts s
     \<and> 0 < pay_retry_initial_wait_seconds s \<and> 0 < pay_retry_max_wait_seconds s
     \<and> 1 \<le> pay_breaker_failure_threshold s \<and> 0 < pay_breaker_reset_after_seconds s"

record cache_settings =
  cache_dsn :: string
  cache_ttl_seconds :: int
  cache_pool_size :: int
  cache_connect_timeout_seconds :: rat
  cache_operation_timeout_seconds :: rat

definition cache_settings_valid :: "cache_settings \<Rightarrow> bool" where
  "cache_settings_valid s \<longleftrightarrow>
     1 \<le> cache_ttl_seconds s \<and> 1 \<le> cache_pool_size s \<and> 0 < cache_connect_timeout_seconds s
     \<and> 0 < cache_operation_timeout_seconds s"

record storage_settings =
  st_bucket :: string
  st_endpoint_url :: "string option"
  st_region :: string
  st_access_key_id :: string
  st_secret_access_key :: string
  st_connect_timeout_seconds :: rat
  st_read_timeout_seconds :: rat

definition lower_alnum :: "char \<Rightarrow> bool" where
  "lower_alnum c \<longleftrightarrow> is_digit c \<or> (let n = (of_char c :: nat) in 97 \<le> n \<and> n \<le> 122)"

text \<open>\<open>_BUCKET_NAME_PATTERN\<close>: \<open>^[a-z0-9][a-z0-9.-]{1,61}[a-z0-9]$\<close>.\<close>

definition bucket_name_ok :: "string \<Rightarrow> bool" where
  "bucket_name_ok b \<longleftrightarrow>
     3 \<le> length b \<and> length b \<le> 63 \<and> lower_alnum (hd b) \<and> lower_alnum (last b)
     \<and> list_all (\<lambda>c. lower_alnum c \<or> c \<in> {CHR ''.'', CHR ''-''}) b"

definition storage_settings_valid :: "storage_settings \<Rightarrow> bool" where
  "storage_settings_valid s \<longleftrightarrow>
     bucket_name_ok (st_bucket s) \<and> 0 < st_connect_timeout_seconds s \<and> 0 < st_read_timeout_seconds s"

section \<open>All settings\<close>

record settings =
  environment :: string
  service_name :: string
  http_port :: int
  log_conf :: log_settings
  otel_conf :: otel_settings
  database :: "database_settings option"
  payment :: "payment_settings option"
  cache :: "cache_settings option"
  storage :: "storage_settings option"

definition settings_valid :: "(string \<Rightarrow> bool) \<Rightarrow> settings \<Rightarrow> bool" where
  "settings_valid bracketed_ok s \<longleftrightarrow>
     environment s \<in> {''local'', ''staging'', ''production''} \<and> 1 \<le> http_port s \<and> http_port s \<le> 65535
     \<and> log_settings_valid (log_conf s) \<and> otel_settings_valid (otel_conf s)
     \<and> pred_option (database_settings_valid bracketed_ok) (database s) \<and> pred_option payment_settings_valid (payment s)
     \<and> pred_option cache_settings_valid (cache s) \<and> pred_option storage_settings_valid (storage s)"

section \<open>Loading\<close>

text \<open>
  One entry of \<open>exc.errors()\<close>: where, what, which rule, and the two parts that can hold the rejected
  value. Reading the environment ends in settings, in validation errors, or in another exception of
  pydantic-settings (a variable that is not the JSON it has to be).
\<close>

record error_entry =
  ee_loc :: "string list"
  ee_msg :: string
  ee_type :: string
  ee_input :: string
  ee_ctx :: string

datatype settings_result = Built settings | Invalid "error_entry list" | NotReadable exn

datatype load_result = Loaded settings | ExitWith int string | Escapes exn

definition EXIT_CONFIG_ERROR :: int where
  "EXIT_CONFIG_ERROR = 78"

definition error_line :: "error_entry \<Rightarrow> string" where
  "error_line e =
     ''  '' @ (if join ''.'' (ee_loc e) = [] then ''<root>'' else join ''.'' (ee_loc e))
     @ '': '' @ ee_msg e @ '' ('' @ ee_type e @ '')''"

definition load_settings :: "settings_result \<Rightarrow> load_result" where
  "load_settings r =
     (case r of
        Built s \<Rightarrow> Loaded s
      | Invalid es \<Rightarrow> ExitWith EXIT_CONFIG_ERROR
          (''Invalid configuration:'' @ [CHR 0x0A] @ join [CHR 0x0A] (map error_line es) @ [CHR 0x0A])
      | NotReadable e \<Rightarrow> Escapes e)"

section \<open>Properties\<close>

lemma same_parameters: "LIBPQ_ONLY_PARAMETERS = LIBPQ_ONLY_DSN_PARAMETERS"
  by (simp add: LIBPQ_ONLY_PARAMETERS_def LIBPQ_ONLY_DSN_PARAMETERS_def)

lemma async_dsn_accepts:
  assumes "CHR '':'' \<notin> set scheme"
  shows "async_dsn bracketed_ok (scheme @ ''://'' @ rest) = Inr url
    \<longleftrightarrow> dsn_must_not_carry_libpq_only_parameters bracketed_ok (scheme @ ''://'' @ rest) = None
      \<and> url = (if CHR ''+'' \<in> set scheme then scheme else ''postgresql+asyncpg'') @ ''://'' @ rest"
  using partition_sub_at [of "''://''" scheme rest] assms
  by (auto simp: dsn_must_not_carry_libpq_only_parameters_def async_dsn_def same_parameters
      split: option.splits if_splits)

text \<open>
  The two checks of a DSN agree: for a URL with a scheme, the engine accepts it exactly when the
  settings do, and then adds the driver to a plain scheme and keeps everything after the scheme; an
  explicit driver is left alone. So a DSN that passes settings validation cannot fail in the engine.
\<close>

theorem accepted_dsn_builds:
  assumes "CHR '':'' \<notin> set scheme"
  shows "async_dsn bracketed_ok (scheme @ ''://'' @ rest) = Inr url
    \<longleftrightarrow> dsn_must_not_carry_libpq_only_parameters bracketed_ok (scheme @ ''://'' @ rest) = None
      \<and> url = (if CHR ''+'' \<in> set scheme then scheme else ''postgresql+asyncpg'') @ ''://'' @ rest"
  using assms by (rule async_dsn_accepts)

text \<open>The name of a parameter counts, not its text inside the value of another one.\<close>

theorem accepted_dsn_builds_witness:
  "async_dsn (\<lambda>n. True) ''postgresql://app:pw@db/orders?options=sslmode=app''
     = Inr ''postgresql+asyncpg://app:pw@db/orders?options=sslmode=app''
   \<and> (\<forall>url. async_dsn (\<lambda>n. True) ''postgresql://db/orders?sslmode=disable'' \<noteq> Inr url)"
proof -
  have parse: "urlsplit (\<lambda>n. True) ''postgresql://app:pw@db/orders?options=sslmode=app'' \<noteq> None"
    "qs_names (u_query (the (urlsplit (\<lambda>n. True) ''postgresql://app:pw@db/orders?options=sslmode=app''))) = [''options'']"
    "qs_names (u_query (the (urlsplit (\<lambda>n. True) ''postgresql://db/orders?sslmode=disable''))) = [''sslmode'']"
    "urlsplit (\<lambda>n. True) ''postgresql://db/orders?sslmode=disable'' \<noteq> None"
    by code_simp+
  have "dsn_must_not_carry_libpq_only_parameters (\<lambda>n. True) ''postgresql://app:pw@db/orders?options=sslmode=app'' = None"
    using parse(1,2) by (auto simp: dsn_must_not_carry_libpq_only_parameters_def LIBPQ_ONLY_DSN_PARAMETERS_def)
  moreover have "dsn_must_not_carry_libpq_only_parameters (\<lambda>n. True) ''postgresql://db/orders?sslmode=disable'' \<noteq> None"
    using parse(3,4) by (auto simp: dsn_must_not_carry_libpq_only_parameters_def LIBPQ_ONLY_DSN_PARAMETERS_def)
  ultimately show ?thesis
    using accepted_dsn_builds [of "''postgresql''" "\<lambda>n. True" "''app:pw@db/orders?options=sslmode=app''"]
      accepted_dsn_builds [of "''postgresql''" "\<lambda>n. True" "''db/orders?sslmode=disable''"]
    by simp
qed

text \<open>
  The message for invalid settings names field, problem and rule, and nothing of the rejected
  values: it is the same whatever the inputs and contexts of the errors hold. The process exits with
  the configuration error code.
\<close>

theorem config_error_is_value_free:
  "load_settings (Invalid (map (\<lambda>e. e\<lparr>ee_input := f e, ee_ctx := g e\<rparr>) es)) = load_settings (Invalid es)
   \<and> (\<exists>text. load_settings (Invalid es) = ExitWith 78 text)"
proof -
  have "error_line (e\<lparr>ee_input := i, ee_ctx := c\<rparr>) = error_line e" for e i c
    by (auto simp: error_line_def)
  then show ?thesis by (simp add: load_settings_def comp_def EXIT_CONFIG_ERROR_def)
qed

end
