(* ===== verification/Breaker.thy ===== *)
theory Breaker
  imports Errors Prelude
begin

text \<open>
  The circuit breaker (\<open>infrastructure/http/breaker.py\<close>). Times are seconds as rationals. A call
  is the two atomic pieces of code around its \<open>await\<close>: \<open>breaker_enter\<close> decides and marks the
  probe, \<open>breaker_exit\<close> records the outcome and clears the mark; \<open>breaker_call\<close> puts them around
  an operation that runs alone, and the step relation \<open>bstep\<close> interleaves any number of calls on
  the event loop, with cancellations.

  The lemmas show the invariant of the interleaved system (\<open>breaker_inv\<close>, preserved by every
  step) and what each piece does in each state.
\<close>

section \<open>State\<close>

datatype breaker_state = CLOSED | OPEN | HALF_OPEN

record breaker =
  failure_threshold :: int
  reset_after_seconds :: rat
  consecutive_failures :: int
  opened_at :: "rat option"
  probe_in_flight :: bool

text \<open>The constructor; the text of a float is left out of the second message.\<close>

definition mk_breaker :: "int \<Rightarrow> rat \<Rightarrow> exn + breaker" where
  "mk_breaker threshold reset =
     (if threshold < 1
      then Inl (Lib (ValueError (''failure_threshold must be >= 1, got '' @ int_str threshold)))
      else if reset \<le> 0
      then Inl (Lib (ValueError ''reset_after_seconds must be > 0''))
      else Inr \<lparr>failure_threshold = threshold, reset_after_seconds = reset,
                consecutive_failures = 0, opened_at = None, probe_in_flight = False\<rparr>)"

definition breaker_state_at :: "rat \<Rightarrow> breaker \<Rightarrow> breaker_state" where
  "breaker_state_at now b =
     (case opened_at b of
        None \<Rightarrow> CLOSED
      | Some t \<Rightarrow> if now - t \<ge> reset_after_seconds b then HALF_OPEN else OPEN)"

section \<open>One call\<close>

definition record_success :: "breaker \<Rightarrow> breaker" where
  "record_success b = b\<lparr>consecutive_failures := 0, opened_at := None\<rparr>"

definition record_failure :: "rat \<Rightarrow> bool \<Rightarrow> breaker \<Rightarrow> breaker" where
  "record_failure now is_probe b =
     (let b' = b\<lparr>consecutive_failures := consecutive_failures b + 1\<rparr>
      in if is_probe \<or> consecutive_failures b' \<ge> failure_threshold b'
         then b'\<lparr>opened_at := Some now\<rparr> else b')"

text \<open>
  \<open>call\<close> up to its \<open>await\<close>, with the two readings of the clock: a refusal, or whether the call
  that goes ahead is the probe.
\<close>

definition breaker_enter :: "rat \<Rightarrow> rat \<Rightarrow> breaker \<Rightarrow> (circuit_refusal + bool) \<times> breaker" where
  "breaker_enter now now' b =
     (case breaker_state_at now b of
        OPEN \<Rightarrow>
          (let t = (case opened_at b of None \<Rightarrow> 0 | Some t \<Rightarrow> t)
           in (Inl (RetryingIn (reset_after_seconds b - (now' - t))), b))
      | HALF_OPEN \<Rightarrow>
          if probe_in_flight b then (Inl ProbeRunning, b)
          else (Inr True, b\<lparr>probe_in_flight := True\<rparr>)
      | CLOSED \<Rightarrow> (Inr False, b))"

text \<open>
  How the awaited operation ended: with a value, with an \<open>Exception\<close>, or with a
  \<open>BaseException\<close> such as \<open>CancelledError\<close>, which no \<open>except\<close> clause of \<open>call\<close> names.
\<close>

datatype outcome = Returned | Raised | Cancelled

text \<open>\<open>call\<close> from the end of its \<open>await\<close>: \<open>except\<close>, \<open>else\<close> and then \<open>finally\<close>.\<close>

definition breaker_exit :: "rat \<Rightarrow> bool \<Rightarrow> outcome \<Rightarrow> breaker \<Rightarrow> breaker" where
  "breaker_exit now is_probe out b =
     (let b' = (case out of
                  Raised \<Rightarrow> record_failure now is_probe b
                | Returned \<Rightarrow> record_success b
                | Cancelled \<Rightarrow> b)
      in if is_probe then b'\<lparr>probe_in_flight := False\<rparr> else b')"

text \<open>A whole call with no other call in between, over a world that has a clock.\<close>

definition breaker_call ::
  "('p \<Rightarrow> rat) \<Rightarrow> ('p, exn, 'a) io \<Rightarrow> ('p \<times> breaker, exn, 'a) io" where
  "breaker_call clock operation = (\<lambda>(p, b).
     case breaker_enter (clock p) (clock p) b of
       (Inl refusal, b') \<Rightarrow> (Inl (Lib (CircuitOpenError refusal)), (p, b'))
     | (Inr is_probe, b') \<Rightarrow>
         (case operation p of
            (Inl e, p') \<Rightarrow> (Inl e, (p', breaker_exit (clock p') is_probe Raised b'))
          | (Inr x, p') \<Rightarrow> (Inr x, (p', breaker_exit (clock p') is_probe Returned b'))))"

lemmas breaker_defs =
  breaker_enter_def breaker_exit_def record_success_def record_failure_def breaker_state_at_def Let_def

lemma breaker_enter_keeps_config:
  assumes "breaker_enter now now' b = (r, b')"
  shows "failure_threshold b' = failure_threshold b" and "reset_after_seconds b' = reset_after_seconds b"
    and "opened_at b' = opened_at b" and "consecutive_failures b' = consecutive_failures b"
  using assms by (auto simp: breaker_enter_def Let_def split: breaker_state.splits if_splits)

lemma breaker_exit_keeps_config [simp]:
  "failure_threshold (breaker_exit now p out b) = failure_threshold b"
  "reset_after_seconds (breaker_exit now p out b) = reset_after_seconds b"
  by (cases out; simp add: breaker_defs)+

text \<open>A refused call changes nothing.\<close>

lemma breaker_enter_refusal: "breaker_enter now now' b = (Inl r, b') \<Longrightarrow> b' = b"
  by (auto simp: breaker_enter_def Let_def split: breaker_state.splits if_splits)

lemma breaker_call_refused:
  "breaker_enter (clock p) (clock p) b = (Inl r, b') \<Longrightarrow>
     breaker_call clock operation (p, b) = (Inl (Lib (CircuitOpenError r)), (p, b))"
  using breaker_enter_refusal [of "clock p" "clock p" b r b'] by (simp add: breaker_call_def)

section \<open>Calls interleaved on the event loop\<close>

text \<open>The calls in flight, each with its \<open>is_probe\<close>, and the time.\<close>

record bsys =
  bs_breaker :: breaker
  bs_calls :: "nat \<rightharpoonup> bool"
  bs_now :: rat

datatype bevent =
    Tick rat
  | Admitted nat
  | Refused circuit_refusal
  | Ended nat outcome

inductive bstep :: "bsys \<Rightarrow> bevent \<Rightarrow> bsys \<Rightarrow> bool" where
  tick: "bs_now s \<le> t \<Longrightarrow> bstep s (Tick t) (s\<lparr>bs_now := t\<rparr>)"
| admit: "bs_calls s c = None \<Longrightarrow> breaker_enter (bs_now s) (bs_now s) (bs_breaker s) = (Inr p, b) \<Longrightarrow>
    bstep s (Admitted c) (s\<lparr>bs_breaker := b, bs_calls := (bs_calls s)(c \<mapsto> p)\<rparr>)"
| refuse: "breaker_enter (bs_now s) (bs_now s) (bs_breaker s) = (Inl r, b) \<Longrightarrow>
    bstep s (Refused r) (s\<lparr>bs_breaker := b\<rparr>)"
| finish: "bs_calls s c = Some p \<Longrightarrow>
    bstep s (Ended c out)
      (s\<lparr>bs_breaker := breaker_exit (bs_now s) p out (bs_breaker s), bs_calls := (bs_calls s)(c := None)\<rparr>)"

inductive_cases tickE: "bstep s (Tick t) s'"
inductive_cases admittedE: "bstep s (Admitted c) s'"
inductive_cases refusedE: "bstep s (Refused r) s'"
inductive_cases endedE: "bstep s (Ended c out) s'"

text \<open>The states a fresh breaker can reach, with the events that led there, last first.\<close>

inductive breached :: "int \<Rightarrow> rat \<Rightarrow> bevent list \<Rightarrow> bsys \<Rightarrow> bool" for threshold reset where
  start: "mk_breaker threshold reset = Inr b \<Longrightarrow>
    breached threshold reset [] \<lparr>bs_breaker = b, bs_calls = Map.empty, bs_now = t\<rparr>"
| step: "breached threshold reset tr s \<Longrightarrow> bstep s ev s' \<Longrightarrow> breached threshold reset (ev # tr) s'"

text \<open>Failures recorded since the last recorded success.\<close>

fun failures_since_success :: "bevent list \<Rightarrow> int" where
  "failures_since_success [] = 0"
| "failures_since_success (Ended c Returned # tr) = 0"
| "failures_since_success (Ended c Raised # tr) = failures_since_success tr + 1"
| "failures_since_success (ev # tr) = failures_since_success tr"

definition probes :: "bsys \<Rightarrow> nat set" where
  "probes s = {c. bs_calls s c = Some True}"

text \<open>
  The probe mark is up exactly while one admitted probe is in flight, there is never a second
  one, the counter is what it says, a closed breaker is below its threshold and the time it
  opened is not in the future.
\<close>

definition breaker_inv :: "int \<Rightarrow> rat \<Rightarrow> bevent list \<Rightarrow> bsys \<Rightarrow> bool" where
  "breaker_inv threshold reset tr s \<longleftrightarrow>
     (let b = bs_breaker s
      in failure_threshold b = threshold \<and> reset_after_seconds b = reset \<and> 1 \<le> threshold \<and> 0 < reset
         \<and> (if probe_in_flight b then \<exists>c. probes s = {c} else probes s = {})
         \<and> consecutive_failures b = failures_since_success tr
         \<and> (opened_at b = None \<longrightarrow> consecutive_failures b < threshold)
         \<and> (\<forall>t. opened_at b = Some t \<longrightarrow> t \<le> bs_now s))"

lemma breaker_inv_start:
  "mk_breaker threshold reset = Inr b \<Longrightarrow>
     breaker_inv threshold reset [] \<lparr>bs_breaker = b, bs_calls = Map.empty, bs_now = t\<rparr>"
  by (auto simp: mk_breaker_def breaker_inv_def probes_def split: if_splits)

lemma breaker_inv_admit:
  assumes inv: "breaker_inv threshold reset tr s" and free: "bs_calls s c = None"
    and enter: "breaker_enter (bs_now s) (bs_now s) (bs_breaker s) = (Inr p, b)"
  shows "breaker_inv threshold reset (Admitted c # tr)
    (s\<lparr>bs_breaker := b, bs_calls := (bs_calls s)(c \<mapsto> p)\<rparr>)"
proof -
  have p: "if p then \<not> probe_in_flight (bs_breaker s) \<and> probe_in_flight b
      else probe_in_flight b = probe_in_flight (bs_breaker s)"
    using enter by (auto simp: breaker_enter_def Let_def split: breaker_state.splits if_splits)
  have "probes (s\<lparr>bs_breaker := b, bs_calls := (bs_calls s)(c \<mapsto> p)\<rparr>) =
      (if p then insert c (probes s) else probes s)"
    using free by (auto simp: probes_def)
  then show ?thesis
    using inv p breaker_enter_keeps_config [OF enter]
    by (auto simp: breaker_inv_def Let_def split: if_splits)
qed

lemma breaker_inv_finish:
  assumes inv: "breaker_inv threshold reset tr s" and call: "bs_calls s c = Some p"
  shows "breaker_inv threshold reset (Ended c out # tr)
    (s\<lparr>bs_breaker := breaker_exit (bs_now s) p out (bs_breaker s), bs_calls := (bs_calls s)(c := None)\<rparr>)"
    (is "breaker_inv _ _ _ ?s'")
proof -
  have "probes ?s' = (if p then probes s - {c} else probes s)"
    using call by (auto simp: probes_def)
  moreover have "probes s = {c}" if p
  proof -
    have "c \<in> probes s" using that call by (simp add: probes_def)
    then show ?thesis using inv by (auto simp: breaker_inv_def Let_def split: if_splits)
  qed
  ultimately show ?thesis
    using inv by (cases out) (auto simp: breaker_inv_def breaker_defs split: if_splits)
qed

lemma breaker_inv_step:
  assumes "bstep s ev s'" and inv: "breaker_inv threshold reset tr s"
  shows "breaker_inv threshold reset (ev # tr) s'"
  using assms(1)
proof cases
  case (tick t)
  then show ?thesis using inv by (fastforce simp: breaker_inv_def probes_def Let_def)
next
  case (admit c p b)
  then show ?thesis using breaker_inv_admit [OF inv] by simp
next
  case (refuse r b)
  then have "s' = s" using breaker_enter_refusal [of "bs_now s" "bs_now s" "bs_breaker s" r b] by simp
  then show ?thesis using inv refuse(1) by (simp add: breaker_inv_def)
next
  case (finish c p out)
  then show ?thesis using breaker_inv_finish [OF inv] by simp
qed

lemma breached_inv: "breached threshold reset tr s \<Longrightarrow> breaker_inv threshold reset tr s"
  by (induction rule: breached.induct) (auto intro: breaker_inv_start breaker_inv_step)

section \<open>A sample run\<close>

text \<open>Threshold 2, window 30 s: two failures at time 0, then the window passes and a probe starts.\<close>

definition sample_breaker :: breaker where
  "sample_breaker = \<lparr>failure_threshold = 2, reset_after_seconds = 30, consecutive_failures = 0,
                     opened_at = None, probe_in_flight = False\<rparr>"

definition sample_start :: bsys where
  "sample_start = \<lparr>bs_breaker = sample_breaker, bs_calls = Map.empty, bs_now = 0\<rparr>"

definition sample_open :: bsys where
  "sample_open = \<lparr>bs_breaker = sample_breaker\<lparr>consecutive_failures := 2, opened_at := Some 0\<rparr>,
                  bs_calls = [3 \<mapsto> False], bs_now = 0\<rparr>"

definition sample_probing :: bsys where
  "sample_probing = \<lparr>bs_breaker = sample_breaker\<lparr>consecutive_failures := 2, opened_at := Some 0,
                                                 probe_in_flight := True\<rparr>,
                     bs_calls = [3 \<mapsto> False, 4 \<mapsto> True], bs_now = 31\<rparr>"

definition sample_open_trace :: "bevent list" where
  "sample_open_trace =
     [Ended 2 Raised, Ended 1 Raised, Admitted 3, Admitted 2, Admitted 1]"

lemmas sample_defs =
  sample_breaker_def sample_start_def sample_open_def sample_probing_def sample_open_trace_def

lemma breached_start: "breached 2 30 [] sample_start"
  unfolding sample_start_def by (rule breached.start) (simp add: mk_breaker_def sample_breaker_def)

lemma bstep_admitI:
  "bs_calls s c = None \<Longrightarrow> breaker_enter (bs_now s) (bs_now s) (bs_breaker s) = (Inr p, b) \<Longrightarrow>
     s' = s\<lparr>bs_breaker := b, bs_calls := (bs_calls s)(c \<mapsto> p)\<rparr> \<Longrightarrow> bstep s (Admitted c) s'"
  using bstep.admit by blast

lemma bstep_finishI:
  "bs_calls s c = Some p \<Longrightarrow>
     s' = s\<lparr>bs_breaker := breaker_exit (bs_now s) p out (bs_breaker s), bs_calls := (bs_calls s)(c := None)\<rparr> \<Longrightarrow>
     bstep s (Ended c out) s'"
  using bstep.finish by blast

lemma breached_open: "breached 2 30 sample_open_trace sample_open"
proof -
  let ?s = "\<lambda>n m. \<lparr>bs_breaker = sample_breaker\<lparr>consecutive_failures := n\<rparr>, bs_calls = m, bs_now = 0 :: rat\<rparr>"
  have 1: "bstep sample_start (Admitted 1) (?s 0 [1 \<mapsto> False])"
    by (rule bstep_admitI [where p = False and b = sample_breaker])
      (simp_all add: sample_defs breaker_defs)
  have 2: "bstep (?s 0 [1 \<mapsto> False]) (Admitted 2) (?s 0 [1 \<mapsto> False, 2 \<mapsto> False])"
    by (rule bstep_admitI [where p = False and b = sample_breaker])
      (simp_all add: sample_defs breaker_defs)
  have 3: "bstep (?s 0 [1 \<mapsto> False, 2 \<mapsto> False]) (Admitted 3) (?s 0 [1 \<mapsto> False, 2 \<mapsto> False, 3 \<mapsto> False])"
    by (rule bstep_admitI [where p = False and b = sample_breaker])
      (simp_all add: sample_defs breaker_defs)
  have 4: "bstep (?s 0 [1 \<mapsto> False, 2 \<mapsto> False, 3 \<mapsto> False]) (Ended 1 Raised) (?s 1 [2 \<mapsto> False, 3 \<mapsto> False])"
    by (rule bstep_finishI [where p = False]) (auto simp: sample_defs breaker_defs fun_eq_iff)
  have 5: "bstep (?s 1 [2 \<mapsto> False, 3 \<mapsto> False]) (Ended 2 Raised) sample_open"
    by (rule bstep_finishI [where p = False]) (auto simp: sample_defs breaker_defs fun_eq_iff)
  show ?thesis
    unfolding sample_open_trace_def
    by (rule breached.step [OF breached.step [OF breached.step [OF breached.step
          [OF breached.step [OF breached_start 1] 2] 3] 4] 5])
qed

lemma breached_probing: "breached 2 30 (Admitted 4 # Tick 31 # sample_open_trace) sample_probing"
proof -
  have 1: "bstep sample_open (Tick 31) (sample_open\<lparr>bs_now := 31\<rparr>)"
    by (rule bstep.tick) (simp add: sample_open_def)
  have 2: "bstep (sample_open\<lparr>bs_now := 31\<rparr>) (Admitted 4) sample_probing"
    by (rule bstep_admitI [where p = True and b = "bs_breaker sample_probing"])
      (simp_all add: sample_defs breaker_defs)
  show ?thesis by (rule breached.step [OF breached.step [OF breached_open 1] 2])
qed

section \<open>Properties\<close>

text \<open>
  C16: at any moment of any interleaving of calls, failures, successes and cancellations there is at
  most one probe in flight, and the breaker's mark says exactly whether there is one.
\<close>

theorem single_probe:
  assumes "breached threshold reset tr s"
  shows "card (probes s) = (if probe_in_flight (bs_breaker s) then 1 else 0)"
  using breached_inv [OF assms] by (auto simp: breaker_inv_def Let_def split: if_splits)

theorem single_probe_witness:
  "card (probes sample_probing) = 1 \<and> 4 \<in> probes sample_probing \<and> bs_calls sample_probing 3 = Some False"
  using single_probe [OF breached_probing] by (simp add: sample_defs probes_def)

text \<open>
  The breaker opens in time. Whenever \<open>failure_threshold\<close> or more failures have been recorded
  since the last recorded success, it is not closed, so within the window no call goes ahead.
\<close>

theorem opens_after_threshold:
  assumes "breached threshold reset tr s" and "threshold \<le> failures_since_success tr"
  shows "breaker_state_at (bs_now s) (bs_breaker s) \<noteq> CLOSED
    \<and> (\<exists>t \<le> bs_now s. opened_at (bs_breaker s) = Some t)"
  using breached_inv [OF assms(1)] assms(2)
  by (cases "opened_at (bs_breaker s)") (auto simp: breaker_inv_def breaker_state_at_def Let_def)

theorem opens_after_threshold_witness:
  "failures_since_success sample_open_trace = 2
   \<and> breaker_state_at (bs_now sample_open) (bs_breaker sample_open) \<noteq> CLOSED"
  using opens_after_threshold [OF breached_open] by (simp add: sample_open_trace_def)

text \<open>
  An open breaker does not let a call through. In the window after it opened, every call is
  refused without running its operation and without changing the breaker or the world, and the
  error says how long is left, which is more than nothing and at most the whole window.
\<close>

theorem open_refuses:
  assumes "opened_at b = Some t" and "t \<le> clock p" and "clock p - t < reset_after_seconds b"
  shows "\<exists>left. breaker_call clock operation (p, b) =
      (Inl (Lib (CircuitOpenError (RetryingIn left))), (p, b))
    \<and> 0 < left \<and> left \<le> reset_after_seconds b"
  using assms by (auto simp: breaker_call_def breaker_defs)

theorem open_refuses_witness:
  "breaker_call (\<lambda>p. p) (\<lambda>p. (Inr True, p + 1)) (10, sample_breaker\<lparr>opened_at := Some 0\<rparr>) =
     (Inl (Lib (CircuitOpenError (RetryingIn 20))), (10, sample_breaker\<lparr>opened_at := Some 0\<rparr>))"
  using open_refuses [of "sample_breaker\<lparr>opened_at := Some 0\<rparr>" 0 "\<lambda>p. p" 10 "\<lambda>p. (Inr True, p + 1)"]
  by (simp add: breaker_call_def breaker_defs sample_breaker_def)

text \<open>
  C17: once the window has passed and no probe is running, the next call runs as the probe and
  decides alone: its success closes the breaker and clears the failures, its failure starts the
  window again at the time it failed, and either way the mark is down afterwards.
\<close>

theorem probe_decides:
  assumes "opened_at b = Some t" and "reset_after_seconds b \<le> clock p - t" and "\<not> probe_in_flight b"
    and "operation p = (r, p')"
  shows "\<exists>b'. breaker_call clock operation (p, b) = (r, (p', b')) \<and> \<not> probe_in_flight b'
    \<and> (case r of
         Inr x \<Rightarrow> opened_at b' = None \<and> consecutive_failures b' = 0
       | Inl e \<Rightarrow> opened_at b' = Some (clock p'))"
  using assms by (cases r) (auto simp: breaker_call_def breaker_defs)

theorem probe_decides_witness:
  "\<exists>b'. breaker_call (\<lambda>p. p) (\<lambda>p. (Inr True, p + 1)) (30, sample_breaker\<lparr>opened_at := Some 0\<rparr>) =
      (Inr True, (31, b')) \<and> opened_at b' = None"
  using probe_decides [of "sample_breaker\<lparr>opened_at := Some 0\<rparr>" 0 "\<lambda>p. p" 30 "\<lambda>p. (Inr True, p + 1)"
      "Inr True" 31]
  by (auto simp: sample_breaker_def)

text \<open>
  A call that was admitted before the breaker opened can close it from inside the window: its
  late success ends the cool-down although no probe has run. The reachable run has two failures at
  the threshold 2, then the success of a third call that was already in flight.
\<close>

theorem late_success_closes_open_breaker:
  "\<exists>s'. breached 2 30 sample_open_trace sample_open
    \<and> breaker_state_at (bs_now sample_open) (bs_breaker sample_open) = OPEN
    \<and> probes sample_open = {}
    \<and> bstep sample_open (Ended 3 Returned) s'
    \<and> breaker_state_at (bs_now s') (bs_breaker s') = CLOSED"
proof (intro exI conjI)
  show "bstep sample_open (Ended 3 Returned)
      (sample_open\<lparr>bs_breaker := breaker_exit (bs_now sample_open) False Returned (bs_breaker sample_open),
         bs_calls := (bs_calls sample_open)(3 := None)\<rparr>)"
    by (rule bstep.finish) (simp add: sample_open_def)
qed (simp_all add: breached_open, simp_all add: sample_defs breaker_defs probes_def)

end
