(* ===== verification/Readiness.thy ===== *)
theory Readiness
  imports Errors Prelude
begin

text \<open>
  The readiness registry (\<open>container.py\<close>) and the health endpoints (\<open>api/health.py\<close>). A check is a
  coroutine; how one run of it goes (when it ends, and with which exception, or that it never
  ends) is the environment of a run, a function from checks to \<open>check_run\<close>. Times are
  seconds as rationals, and every check of one run starts at time zero.

  The lemmas show that the report is decided by the gating checks alone (\<open>healthy_iff\<close>), that a
  run ends within one timeout however many checks there are (\<open>run_time_bounded\<close>), and that the
  report carries no text of an exception (\<open>report_hides_messages\<close>).
\<close>

section \<open>The registry\<close>

record 'c registry =
  gating :: "(string \<times> 'c) list"
  informational :: "(string \<times> 'c) list"

definition empty_registry :: "'c registry" where
  "empty_registry = \<lparr>gating = [], informational = []\<rparr>"

definition register :: "string \<Rightarrow> 'c \<Rightarrow> 'c registry \<Rightarrow> 'c registry" where
  "register name check r = r\<lparr>gating := dict_set (gating r) name check\<rparr>"

definition register_informational :: "string \<Rightarrow> 'c \<Rightarrow> 'c registry \<Rightarrow> 'c registry" where
  "register_informational name check r = r\<lparr>informational := dict_set (informational r) name check\<rparr>"

definition registry_ok :: "'c registry \<Rightarrow> bool" where
  "registry_ok r \<longleftrightarrow> distinct (map fst (gating r)) \<and> distinct (map fst (informational r))"

lemma registry_ok_empty [simp]: "registry_ok empty_registry"
  by (simp add: registry_ok_def empty_registry_def)

lemma registry_ok_register [simp]: "registry_ok r \<Longrightarrow> registry_ok (register name check r)"
  by (simp add: registry_ok_def register_def dict_set_distinct)

lemma registry_ok_register_informational [simp]:
  "registry_ok r \<Longrightarrow> registry_ok (register_informational name check r)"
  by (simp add: registry_ok_def register_informational_def dict_set_distinct)

section \<open>Running the checks\<close>

definition READINESS_TIMEOUT_SECONDS :: rat where
  "READINESS_TIMEOUT_SECONDS = 2"

text \<open>A check ends after some time, normally or with an exception, or never.\<close>

datatype check_run = Ends rat "exn option" | Hangs

text \<open>\<open>asyncio.wait_for\<close>: the exception it ends with, if any, and the time it took.\<close>

fun wait_for :: "rat \<Rightarrow> check_run \<Rightarrow> exn option \<times> rat" where
  "wait_for timeout (Ends t r) = (if t < timeout then (r, t) else (Some (Lib TimeoutError), timeout))"
| "wait_for timeout Hangs = (Some (Lib TimeoutError), timeout)"

text \<open>The result of \<open>run_one\<close> and the line it logs; the timeout also comes as its text.\<close>

definition run_one ::
  "rat \<Rightarrow> string \<Rightarrow> ('c \<Rightarrow> check_run) \<Rightarrow> string \<times> 'c \<Rightarrow> (string \<times> string) \<times> log_line list" where
  "run_one timeout timeout_text env = (\<lambda>(name, check).
     case fst (wait_for timeout (env check)) of
       None \<Rightarrow> ((name, ''ok''), [])
     | Some e \<Rightarrow>
         if e = Lib TimeoutError then ((name, ''error: timeout after '' @ timeout_text @ ''s''), [])
         else ((name, ''error: '' @ exn_name e), [(''readiness_check.failed'', [(''check'', name)])]))"

record readiness_report =
  rep_gating :: "(string \<times> string) list"
  rep_informational :: "(string \<times> string) list"

definition healthy :: "readiness_report \<Rightarrow> bool" where
  "healthy r \<longleftrightarrow> list_all (\<lambda>(name, result). result = ''ok'') (rep_gating r)"

text \<open>
  One \<open>gather\<close> over both tiers: the results in argument order, split at the number of gating names.
  It takes as long as the slowest check.
\<close>

definition run_registry ::
  "rat \<Rightarrow> string \<Rightarrow> ('c \<Rightarrow> check_run) \<Rightarrow> 'c registry \<Rightarrow> readiness_report" where
  "run_registry timeout timeout_text env r =
     (let results = map (\<lambda>c. fst (run_one timeout timeout_text env c)) (gating r @ informational r);
          boundary = length (gating r)
      in \<lparr>rep_gating = dict_of (take boundary results), rep_informational = dict_of (drop boundary results)\<rparr>)"

definition run_duration :: "rat \<Rightarrow> ('c \<Rightarrow> check_run) \<Rightarrow> 'c registry \<Rightarrow> rat" where
  "run_duration timeout env r =
     foldl (\<lambda>m (name, c). max m (snd (wait_for timeout (env c)))) 0 (gating r @ informational r)"

section \<open>Endpoints\<close>

record readiness_response =
  rr_status :: string
  rr_checks :: "(string \<times> string) list"
  rr_dependencies :: "(string \<times> string) list"

record liveness_response =
  lr_status :: string
  lr_version :: string

text \<open>Each endpoint gives the status code of the response and its body.\<close>

definition liveness :: "string \<Rightarrow> nat \<times> liveness_response" where
  "liveness version = (200, \<lparr>lr_status = ''ok'', lr_version = version\<rparr>)"

definition readiness :: "('c \<Rightarrow> check_run) \<Rightarrow> 'c registry \<Rightarrow> nat \<times> readiness_response" where
  "readiness env r =
     (let report = run_registry READINESS_TIMEOUT_SECONDS ''2.0'' env r
      in (if healthy report then 200 else 503,
          \<lparr>rr_status = (if healthy report then ''ok'' else ''unavailable''),
           rr_checks = rep_gating report, rr_dependencies = rep_informational report\<rparr>))"

definition startup :: "string \<Rightarrow> bool \<Rightarrow> nat \<times> liveness_response" where
  "startup version started =
     (if started then 200 else 503,
      \<lparr>lr_status = (if started then ''ok'' else ''starting''), lr_version = version\<rparr>)"

section \<open>What a report says\<close>

text \<open>A check passes when it ends in time with no exception.\<close>

definition passes :: "rat \<Rightarrow> check_run \<Rightarrow> bool" where
  "passes timeout c = (case c of Ends t None \<Rightarrow> t < timeout | _ \<Rightarrow> False)"

lemma run_one_ok: "snd (fst (run_one timeout shown env (name, c))) = ''ok'' \<longleftrightarrow> passes timeout (env c)"
  by (cases "env c") (auto simp: run_one_def passes_def split: option.splits if_splits)

lemma run_one_name [simp]: "fst (fst (run_one timeout shown env c)) = fst c"
  by (auto simp: run_one_def split: prod.splits option.splits)

lemma run_registry_parts:
  assumes "registry_ok r"
  shows "rep_gating (run_registry timeout shown env r) = map (\<lambda>c. fst (run_one timeout shown env c)) (gating r)"
    and "rep_informational (run_registry timeout shown env r)
      = map (\<lambda>c. fst (run_one timeout shown env c)) (informational r)"
  using assms by (simp_all add: run_registry_def Let_def dict_of_distinct registry_ok_def comp_def)

lemma healthy_iff:
  assumes "registry_ok r"
  shows "healthy (run_registry timeout shown env r) \<longleftrightarrow> (\<forall>(name, c) \<in> set (gating r). passes timeout (env c))"
  using run_one_ok [of timeout shown env]
  by (auto simp: healthy_def run_registry_parts [OF assms] list_all_iff case_prod_beta)

lemma wait_for_bounded: "0 \<le> timeout \<Longrightarrow> snd (wait_for timeout c) \<le> timeout"
  by (cases c) auto

lemma run_time_bounded:
  assumes "0 \<le> timeout"
  shows "run_duration timeout env r \<le> timeout"
proof -
  have "foldl (\<lambda>m (name, c). max m (snd (wait_for timeout (env c)))) m cs \<le> timeout"
    if "m \<le> timeout" for m and cs :: "(string \<times> 'a) list"
    using that by (induction cs arbitrary: m) (auto simp: wait_for_bounded [OF assms])
  then show ?thesis using assms by (simp add: run_duration_def)
qed

text \<open>Two runs of a check that differ at most in the texts of the exception.\<close>

fun same_but_texts :: "check_run \<Rightarrow> check_run \<Rightarrow> bool" where
  "same_but_texts (Ends t (Some e)) (Ends t' (Some e')) =
     (t = t' \<and> exn_name e = exn_name e' \<and> (e = Lib TimeoutError) = (e' = Lib TimeoutError))"
| "same_but_texts c c' = (c = c')"

lemma run_one_texts:
  "same_but_texts (env (snd c)) (env' (snd c)) \<Longrightarrow> run_one timeout shown env c = run_one timeout shown env' c"
proof -
  assume "same_but_texts (env (snd c)) (env' (snd c))"
  then show ?thesis
    by (cases "(env (snd c), env' (snd c))" rule: same_but_texts.cases)
      (auto simp: run_one_def split: prod.splits option.splits if_splits)
qed

section \<open>Properties\<close>


definition sample_registry :: "nat registry" where
  "sample_registry = register_informational ''cache'' 1 (register ''database'' 0 empty_registry)"

definition sample_env :: "nat \<Rightarrow> check_run" where
  "sample_env c = (if c = 0 then Ends (1 / 10) None else Hangs)"


text \<open>
  Nothing an exception of a check says reaches the readiness response: two runs whose checks end at
  the same times with exceptions of the same class names give the same status and body.
\<close>

theorem report_hides_messages:
  assumes "\<forall>(name, c) \<in> set (gating r @ informational r). same_but_texts (env c) (env' c)"
  shows "readiness env r = readiness env' r"
proof -
  have "map (\<lambda>c. fst (run_one READINESS_TIMEOUT_SECONDS ''2.0'' env c)) (gating r @ informational r)
      = map (\<lambda>c. fst (run_one READINESS_TIMEOUT_SECONDS ''2.0'' env' c)) (gating r @ informational r)"
    using assms run_one_texts [of env _ env'] by (intro map_cong) fastforce+
  then show ?thesis by (simp only: readiness_def run_registry_def)
qed

theorem report_hides_messages_witness:
  "readiness (\<lambda>c. Ends 1 (Some (Lib (OtherException ''OSError'' ''connect postgresql://app:pw@db'')))) sample_registry
   = readiness (\<lambda>c. Ends 1 (Some (Lib (OtherException ''OSError'' ''refused'')))) sample_registry"
  by (rule report_hides_messages) simp

end
