(* ===== verification/Lifecycle.thy ===== *)
theory Lifecycle
  imports Settings Breaker Readiness
begin

text \<open>
  The composition root and the life of an application (\<open>container.py\<close>, \<open>main.py\<close>): which adapters
  \<open>build_container\<close> selects and how it wraps them, which readiness checks it registers and in which
  tier, how \<open>close_container\<close> releases what was opened, and the \<open>lifespan\<close> that starts, serves and
  stops the process. An adapter is described by its class and the arguments it is constructed with;
  the steps of the life cycle that other libraries carry out (instrumenting, closing, flushing) end
  normally or with an exception as an argument \<open>fails\<close> says.

  The lemmas show that settings which passed validation always give a container
  (\<open>valid_settings_build\<close>), what is wired for them, and what a failing start or stop still releases.
\<close>

section \<open>Adapters and the container\<close>

datatype orders_adapter =
    InMemoryOrderRepository
  | PostgresOrderRepository string
  | CachedOrderRepository orders_adapter string int

text \<open>The HTTP gateway: base URL, headers, breaker, attempts, first and largest wait.\<close>

datatype payments_adapter =
    InMemoryPaymentGateway
  | HttpPaymentGateway string "(string \<times> string) list" breaker int rat rat

datatype receipts_adapter = InMemoryReceiptStore | S3ReceiptStore string

datatype readiness_check = DatabaseIsReachable | CacheIsReachable | StorageIsReachable string

record container =
  c_settings :: settings
  c_orders :: orders_adapter
  c_payments :: payments_adapter
  c_engine :: "string option"
  c_http_client :: "string option"
  c_redis :: "string option"
  c_receipts :: receipts_adapter
  c_readiness :: "readiness_check registry"
  c_started :: bool

definition bearer_header :: "string option \<Rightarrow> (string \<times> string) list" where
  "bearer_header api_key = (case api_key of None \<Rightarrow> [] | Some k \<Rightarrow> [(''Authorization'', ''Bearer '' @ k)])"

text \<open>The payment gateway and the HTTP client it opened, if any.\<close>

definition select_payments :: "payment_settings option \<Rightarrow> exn + payments_adapter \<times> string option" where
  "select_payments p =
     (case p of
        None \<Rightarrow> Inr (InMemoryPaymentGateway, None)
      | Some s \<Rightarrow>
          try_then (mk_breaker (pay_breaker_failure_threshold s) (pay_breaker_reset_after_seconds s)) (\<lambda>b.
            Inr (HttpPaymentGateway (pay_base_url s) (bearer_header (pay_api_key s)) b (pay_retry_attempts s)
                   (pay_retry_initial_wait_seconds s) (pay_retry_max_wait_seconds s), Some (pay_base_url s))))"

definition select_orders ::
  "(string \<Rightarrow> bool) \<Rightarrow> database_settings option \<Rightarrow> exn + orders_adapter \<times> string option" where
  "select_orders bracketed_ok d =
     (case d of
        None \<Rightarrow> Inr (InMemoryOrderRepository, None)
      | Some s \<Rightarrow> try_then (async_dsn bracketed_ok (db_dsn s)) (\<lambda>url.
          Inr (PostgresOrderRepository url, Some url)))"

definition wrap_cache :: "cache_settings option \<Rightarrow> orders_adapter \<Rightarrow> orders_adapter \<times> string option" where
  "wrap_cache c inner =
     (case c of
        None \<Rightarrow> (inner, None)
      | Some s \<Rightarrow> (CachedOrderRepository inner (cache_dsn s) (cache_ttl_seconds s), Some (cache_dsn s)))"

definition select_receipts :: "storage_settings option \<Rightarrow> receipts_adapter" where
  "select_receipts st = (case st of None \<Rightarrow> InMemoryReceiptStore | Some s \<Rightarrow> S3ReceiptStore (st_bucket s))"

definition readiness_of ::
  "string option \<Rightarrow> string option \<Rightarrow> storage_settings option \<Rightarrow> readiness_check registry" where
  "readiness_of engine redis st =
     (let r0 = empty_registry;
          r1 = (case engine of None \<Rightarrow> r0 | Some e \<Rightarrow> register ''database'' DatabaseIsReachable r0);
          r2 = (case redis of None \<Rightarrow> r1 | Some c \<Rightarrow> register_informational ''cache'' CacheIsReachable r1)
      in case st of None \<Rightarrow> r2 | Some s \<Rightarrow> register_informational ''storage'' (StorageIsReachable (st_bucket s)) r2)"

definition build_container :: "(string \<Rightarrow> bool) \<Rightarrow> settings \<Rightarrow> exn + container" where
  "build_container bracketed_ok s =
     try_then (select_payments (payment s)) (\<lambda>(payments, http_client).
     try_then (select_orders bracketed_ok (database s)) (\<lambda>(inner, engine).
       let (orders, redis) = wrap_cache (cache s) inner
       in Inr \<lparr>c_settings = s, c_orders = orders, c_payments = payments, c_engine = engine,
               c_http_client = http_client, c_redis = redis, c_receipts = select_receipts (storage s),
               c_readiness = readiness_of engine redis (storage s), c_started = False\<rparr>))"

section \<open>Closing\<close>

datatype resource = Engine | HttpClient | Redis

text \<open>\<open>try: m finally: f\<close> for steps that only log what they did: the exception of the last part wins.\<close>

type_synonym 'ev step = "'ev list \<times> exn option"

definition finally_do :: "'ev step \<Rightarrow> 'ev step \<Rightarrow> 'ev step" where
  "finally_do m f = (fst m @ fst f, if snd f = None then snd m else snd f)"

text \<open>Closing one resource, if the container has it: the attempt is what happened.\<close>

definition close_one :: "(resource \<Rightarrow> exn option) \<Rightarrow> resource \<Rightarrow> string option \<Rightarrow> resource step" where
  "close_one fails r handle = (case handle of None \<Rightarrow> ([], None) | Some h \<Rightarrow> ([r], fails r))"

definition close_container :: "(resource \<Rightarrow> exn option) \<Rightarrow> container \<Rightarrow> resource step" where
  "close_container fails c =
     finally_do (close_one fails Engine (c_engine c))
       (finally_do (close_one fails HttpClient (c_http_client c)) (close_one fails Redis (c_redis c)))"

definition opened :: "container \<Rightarrow> resource list" where
  "opened c =
     (if c_engine c = None then [] else [Engine]) @ (if c_http_client c = None then [] else [HttpClient])
     @ (if c_redis c = None then [] else [Redis])"

section \<open>The lifespan\<close>

datatype life_event =
    Instrumented resource
  | MetricsRegistered
  | StartedSet bool
  | Served
  | Closed resource
  | MetricsStopped
  | TelemetryShutDown

text \<open>Setting the flag is an assignment, which does not raise.\<close>

fun raises :: "(life_event \<Rightarrow> exn option) \<Rightarrow> life_event \<Rightarrow> exn option" where
  "raises fails (StartedSet b) = None"
| "raises fails e = fails e"

text \<open>
  Steps in sequence until one raises: an event that raises is the last one, and it is recorded too,
  since the attempt was made.
\<close>

fun run_steps :: "(life_event \<Rightarrow> exn option) \<Rightarrow> life_event list \<Rightarrow> life_event step" where
  "run_steps fails [] = ([], None)"
| "run_steps fails (e # es) =
     (case raises fails e of
        Some x \<Rightarrow> ([e], Some x)
      | None \<Rightarrow> (case run_steps fails es of (evs, r) \<Rightarrow> (e # evs, r)))"

text \<open>What the \<open>try\<close> block runs: instrumentation when there is telemetry, the flag, then serving.\<close>

definition startup_steps :: "bool \<Rightarrow> container \<Rightarrow> life_event list" where
  "startup_steps otel c =
     (if otel
      then (if c_engine c = None then [] else [Instrumented Engine])
           @ (if c_http_client c = None then [] else [Instrumented HttpClient])
           @ [Instrumented Redis, MetricsRegistered]
      else [])
     @ [StartedSet True, Served]"

text \<open>
  The \<open>finally\<close> block: the flag is cleared, the container closed; then, if that did not raise, the
  runtime metrics stop, when they were registered, and the telemetry shuts down.
\<close>

definition shutdown_steps ::
  "(life_event \<Rightarrow> exn option) \<Rightarrow> bool \<Rightarrow> bool \<Rightarrow> container \<Rightarrow> life_event step" where
  "shutdown_steps fails otel registered c =
     (case close_container (\<lambda>r. fails (Closed r)) c of (attempts, raised) \<Rightarrow>
        case raised of
          Some x \<Rightarrow> (StartedSet False # map Closed attempts, Some x)
        | None \<Rightarrow>
            (case run_steps fails ((if registered then [MetricsStopped] else []) @ (if otel then [TelemetryShutDown] else []))
             of (evs, r) \<Rightarrow> (StartedSet False # map Closed attempts @ evs, r)))"

text \<open>The metrics were registered when that step was reached and did not raise.\<close>

definition metrics_registered :: "(life_event \<Rightarrow> exn option) \<Rightarrow> life_event list \<Rightarrow> bool" where
  "metrics_registered fails evs \<longleftrightarrow> MetricsRegistered \<in> set evs \<and> fails MetricsRegistered = None"

definition lifespan :: "(life_event \<Rightarrow> exn option) \<Rightarrow> bool \<Rightarrow> container \<Rightarrow> life_event step" where
  "lifespan fails otel c =
     (let body = run_steps fails (startup_steps otel c)
      in finally_do body (shutdown_steps fails otel (metrics_registered fails (fst body)) c))"

definition run_app ::
  "(string \<Rightarrow> bool) \<Rightarrow> (life_event \<Rightarrow> exn option) \<Rightarrow> bool \<Rightarrow> settings \<Rightarrow> life_event step" where
  "run_app bracketed_ok fails otel s =
     (case build_container bracketed_ok s of Inl e \<Rightarrow> ([], Some e) | Inr c \<Rightarrow> lifespan fails otel c)"

section \<open>What is closed\<close>

lemma close_container_attempts [simp]: "fst (close_container fails c) = opened c"
  by (auto simp: close_container_def finally_do_def close_one_def opened_def split: option.splits)

lemma close_container_raises: "snd (close_container fails c) = None \<longleftrightarrow> (\<forall>r \<in> set (opened c). fails r = None)"
  by (auto simp: close_container_def finally_do_def close_one_def opened_def split: option.splits)

text \<open>The events of a run that close something, and those that set the flag.\<close>

fun closes_of :: "life_event list \<Rightarrow> resource list" where
  "closes_of [] = []"
| "closes_of (Closed r # es) = r # closes_of es"
| "closes_of (e # es) = closes_of es"

fun flags_of :: "life_event list \<Rightarrow> bool list" where
  "flags_of [] = []"
| "flags_of (StartedSet b # es) = b # flags_of es"
| "flags_of (e # es) = flags_of es"

lemma closes_of_append [simp]: "closes_of (xs @ ys) = closes_of xs @ closes_of ys"
  by (induction xs rule: closes_of.induct) auto

lemma flags_of_append [simp]: "flags_of (xs @ ys) = flags_of xs @ flags_of ys"
  by (induction xs rule: flags_of.induct) auto

lemma closes_of_map_Closed [simp]: "closes_of (map Closed rs) = rs"
  by (induction rs) auto

lemma flags_of_map_Closed [simp]: "flags_of (map Closed rs) = []"
  by (induction rs) auto

lemma run_steps_prefix: "\<exists>rest. es = fst (run_steps fails es) @ rest"
proof (induction es)
  case (Cons e es)
  then show ?case by (cases "run_steps fails es") (auto split: option.splits)
qed simp

lemma run_steps_subset: "e \<in> set (fst (run_steps fails es)) \<Longrightarrow> e \<in> set es"
  using run_steps_prefix [of es fails] by (metis Un_iff set_append)

lemma run_steps_quiet: "(\<And>e. e \<in> set es \<Longrightarrow> raises fails e = None) \<Longrightarrow> run_steps fails es = (es, None)"
  by (induction es) auto

lemma closes_of_none: "(\<And>r. Closed r \<notin> set es) \<Longrightarrow> closes_of es = []"
  by (induction es rule: closes_of.induct) auto

lemma flags_of_none: "(\<And>b. StartedSet b \<notin> set es) \<Longrightarrow> flags_of es = []"
  by (induction es rule: flags_of.induct) auto

lemma closes_of_startup [simp]: "closes_of (fst (run_steps fails (startup_steps otel c))) = []"
  by (rule closes_of_none, rule notI, drule run_steps_subset) (auto simp: startup_steps_def split: if_splits)

lemma flags_of_startup: "flags_of (fst (run_steps fails (startup_steps otel c))) \<in> {[], [True]}"
proof -
  obtain rest where "startup_steps otel c = fst (run_steps fails (startup_steps otel c)) @ rest"
    using run_steps_prefix by blast
  then have "flags_of (startup_steps otel c) = flags_of (fst (run_steps fails (startup_steps otel c))) @ flags_of rest"
    by (metis flags_of_append)
  moreover have "flags_of (startup_steps otel c) = [True]" by (auto simp: startup_steps_def)
  ultimately show ?thesis by (auto simp: Cons_eq_append_conv)
qed

lemma shutdown_events:
  "closes_of (fst (shutdown_steps fails otel registered c)) = opened c
   \<and> flags_of (fst (shutdown_steps fails otel registered c)) = [False]"
proof -
  let ?tail = "(if registered then [MetricsStopped] else []) @ (if otel then [TelemetryShutDown] else [])"
  have "closes_of (fst (run_steps fails ?tail)) = []"
    by (rule closes_of_none, rule notI, drule run_steps_subset) (auto split: if_splits)
  moreover have "flags_of (fst (run_steps fails ?tail)) = []"
    by (rule flags_of_none, rule notI, drule run_steps_subset) (auto split: if_splits)
  ultimately show ?thesis
    using close_container_attempts [of "\<lambda>r. fails (Closed r)" c]
    by (cases "close_container (\<lambda>r. fails (Closed r)) c")
      (auto simp: shutdown_steps_def split: option.splits prod.splits)
qed

section \<open>Properties\<close>

lemma mk_breaker_valid:
  "1 \<le> threshold \<Longrightarrow> 0 < reset \<Longrightarrow> \<exists>b. mk_breaker threshold reset = Inr b"
  by (simp add: mk_breaker_def)

lemma valid_settings_container:
  assumes "settings_valid bracketed_ok s"
    and "\<And>d. database s = Some d \<Longrightarrow> \<exists>scheme rest. db_dsn d = scheme @ ''://'' @ rest \<and> CHR '':'' \<notin> set scheme"
  shows "\<exists>c. build_container bracketed_ok s = Inr c \<and> registry_ok (c_readiness c)
    \<and> map fst (gating (c_readiness c)) = (if database s = None then [] else [''database''])
    \<and> map fst (informational (c_readiness c))
        = (if cache s = None then [] else [''cache'']) @ (if storage s = None then [] else [''storage''])
    \<and> (\<exists>inner. select_orders bracketed_ok (database s) = Inr (inner, c_engine c)
        \<and> c_orders c = fst (wrap_cache (cache s) inner))
    \<and> opened c = (if database s = None then [] else [Engine]) @ (if payment s = None then [] else [HttpClient])
        @ (if cache s = None then [] else [Redis])"
proof -
  obtain payments http where pay: "select_payments (payment s) = Inr (payments, http)"
      and http: "http = None \<longleftrightarrow> payment s = None"
  proof (cases "payment s")
    case None
    then show ?thesis using that [of InMemoryPaymentGateway None] by (simp add: select_payments_def)
  next
    case (Some p)
    then have "1 \<le> pay_breaker_failure_threshold p" "0 < pay_breaker_reset_after_seconds p"
      using assms(1) by (simp_all add: settings_valid_def payment_settings_valid_def)
    then obtain b where "mk_breaker (pay_breaker_failure_threshold p) (pay_breaker_reset_after_seconds p) = Inr b"
      using mk_breaker_valid by blast
    then show ?thesis using Some that by (simp add: select_payments_def)
  qed
  obtain inner engine where ord: "select_orders bracketed_ok (database s) = Inr (inner, engine)"
      and engine: "engine = None \<longleftrightarrow> database s = None"
  proof (cases "database s")
    case None
    then show ?thesis using that [of InMemoryOrderRepository None] by (simp add: select_orders_def)
  next
    case (Some d)
    obtain scheme rest where dsn: "db_dsn d = scheme @ ''://'' @ rest" "CHR '':'' \<notin> set scheme"
      using assms(2) [OF Some] by blast
    have "dsn_must_not_carry_libpq_only_parameters bracketed_ok (db_dsn d) = None"
      using assms(1) Some by (simp add: settings_valid_def database_settings_valid_def)
    then obtain url where "async_dsn bracketed_ok (db_dsn d) = Inr url"
      using dsn(1) async_dsn_accepts [OF dsn(2)] by metis
    then show ?thesis
      using Some that [of "PostgresOrderRepository url" "Some url"] by (simp add: select_orders_def)
  qed
  obtain orders redis where cch: "wrap_cache (cache s) inner = (orders, redis)" by (metis prod.exhaust)
  have redis: "redis = None \<longleftrightarrow> cache s = None" using cch by (auto simp: wrap_cache_def split: option.splits)
  have regs: "registry_ok (readiness_of engine redis (storage s))"
    by (auto simp: readiness_of_def Let_def split: option.splits)
  have names: "map fst (gating (readiness_of engine redis (storage s))) = (if engine = None then [] else [''database''])"
    "map fst (informational (readiness_of engine redis (storage s)))
      = (if redis = None then [] else [''cache'']) @ (if storage s = None then [] else [''storage''])"
    by (auto simp: readiness_of_def Let_def register_def register_informational_def empty_registry_def dict_set_def
        split: option.splits)
  show ?thesis
    unfolding build_container_def pay ord try_then_simps prod.case cch Let_def
    using regs names cch by (simp add: http engine redis opened_def)
qed

lemma valid_settings_opened:
  assumes "settings_valid bracketed_ok s"
    and "\<And>d. database s = Some d \<Longrightarrow> \<exists>scheme rest. db_dsn d = scheme @ ''://'' @ rest \<and> CHR '':'' \<notin> set scheme"
  shows "opened (case build_container bracketed_ok s of Inr c \<Rightarrow> c)
    = (if database s = None then [] else [Engine]) @ (if payment s = None then [] else [HttpClient])
        @ (if cache s = None then [] else [Redis])"
  using valid_settings_container [OF assms] by auto


definition default_settings :: settings where
  "default_settings = \<lparr>environment = ''local'', service_name = ''pyfr-m8-verify'', http_port = 8000,
     log_conf = \<lparr>log_level = ''info'', log_level_overrides = [], log_redact_fields = []\<rparr>,
     otel_conf = \<lparr>otel_enabled = False, otel_logs_enabled = False, otel_endpoint = None, otel_sample_ratio = 1,
       otel_metric_export_interval_ms = 60000\<rparr>,
     database = None, payment = None, cache = None, storage = None\<rparr>"

definition full_settings :: settings where
  "full_settings = default_settings\<lparr>
     database := Some \<lparr>db_dsn = ''postgresql://app:pw@db/orders'', db_pool_size = 10, db_statement_timeout_ms = 5000\<rparr>,
     payment := Some \<lparr>pay_base_url = ''http://stub:8080/'', pay_api_key = Some ''key'',
       pay_http = \<lparr>http_connect_timeout_seconds = 2, http_read_timeout_seconds = 5, http_write_timeout_seconds = 5,
         http_pool_timeout_seconds = 1, http_max_connections = 20, http_max_keepalive_connections = 10\<rparr>,
       pay_retry_attempts = 3, pay_retry_initial_wait_seconds = 1 / 10, pay_retry_max_wait_seconds = 2,
       pay_breaker_failure_threshold = 5, pay_breaker_reset_after_seconds = 30\<rparr>,
     cache := Some \<lparr>cache_dsn = ''redis://cache:6379/0'', cache_ttl_seconds = 300, cache_pool_size = 10,
       cache_connect_timeout_seconds = 1 / 2, cache_operation_timeout_seconds = 1 / 2\<rparr>\<rparr>"

lemma full_dsn_accepted:
  "dsn_must_not_carry_libpq_only_parameters (\<lambda>n. True) ''postgresql://app:pw@db/orders'' = None"
proof -
  have "urlsplit (\<lambda>n. True) ''postgresql://app:pw@db/orders'' = Some \<lparr>u_scheme = ''postgresql'',
      u_netloc = ''app:pw@db'', u_path = ''/orders'', u_query = [], u_fragment = []\<rparr>"
    by code_simp
  moreover have "qs_names [] = []" by code_simp
  ultimately show ?thesis
    by (simp add: dsn_must_not_carry_libpq_only_parameters_def LIBPQ_ONLY_DSN_PARAMETERS_def)
qed

lemma full_dsn_shape:
  "database full_settings = Some d \<Longrightarrow> \<exists>scheme rest. db_dsn d = scheme @ ''://'' @ rest \<and> CHR '':'' \<notin> set scheme"
  by (intro exI [of _ "''postgresql''"] exI [of _ "''app:pw@db/orders''"]) (auto simp: full_settings_def)

lemma full_settings_valid: "settings_valid (\<lambda>n. True) full_settings"
  by (simp add: full_settings_def default_settings_def settings_valid_def log_settings_valid_def log_levels_def
      otel_settings_valid_def exporting_requires_somewhere_to_export_to_def database_settings_valid_def
      full_dsn_accepted payment_settings_valid_def http_client_settings_valid_def cache_settings_valid_def)


text \<open>
  C35: however starting or serving ends, and whatever fails while stopping, closing is attempted once
  for every resource the container opened, in the order engine, HTTP client, Redis, and the last
  thing said of the started flag is that it is off; if nothing fails while stopping, the exception
  that ended the application is the one that is raised.
\<close>

theorem lifespan_releases:
  assumes "lifespan fails otel c = (evs, r)"
  shows "closes_of evs = opened c \<and> last (flags_of evs) = False
    \<and> ((\<forall>e \<in> set (map Closed (opened c)) \<union> {MetricsStopped, TelemetryShutDown}. fails e = None) \<longrightarrow>
         r = snd (run_steps fails (startup_steps otel c)))"
proof -
  let ?body = "run_steps fails (startup_steps otel c)"
  let ?reg = "metrics_registered fails (fst ?body)"
  have run: "finally_do ?body (shutdown_steps fails otel ?reg c) = (evs, r)"
    using assms by (simp add: lifespan_def Let_def)
  then have evs: "evs = fst ?body @ fst (shutdown_steps fails otel ?reg c)"
    by (auto simp: finally_do_def)
  have "snd (shutdown_steps fails otel ?reg c) = None"
    if quiet: "\<forall>e \<in> set (map Closed (opened c)) \<union> {MetricsStopped, TelemetryShutDown}. fails e = None"
  proof -
    have "snd (close_container (\<lambda>r. fails (Closed r)) c) = None" using quiet by (simp add: close_container_raises)
    moreover have "run_steps fails ((if ?reg then [MetricsStopped] else []) @ (if otel then [TelemetryShutDown] else []))
        = ((if ?reg then [MetricsStopped] else []) @ (if otel then [TelemetryShutDown] else []), None)"
      using quiet by (intro run_steps_quiet) (auto split: if_splits)
    ultimately show ?thesis
      by (cases "close_container (\<lambda>r. fails (Closed r)) c") (simp only: shutdown_steps_def prod.case option.case snd_conv)
  qed
  then show ?thesis
    using run shutdown_events [of fails otel ?reg c] by (auto simp: evs finally_do_def)
qed

definition disposing_fails :: "life_event \<Rightarrow> exn option" where
  "disposing_fails e = (if e = Closed Engine then Some (Lib TimeoutError) else None)"

definition full_container :: container where
  "full_container = (case build_container (\<lambda>n. True) full_settings of Inr c \<Rightarrow> c)"

lemma opened_full: "opened full_container = [Engine, HttpClient, Redis]"
proof -
  from valid_settings_opened [OF full_settings_valid full_dsn_shape] show ?thesis
    by (simp add: full_container_def full_settings_def default_settings_def)
qed

theorem lifespan_releases_witness:
  "\<exists>evs r. lifespan disposing_fails True full_container = (evs, r)
    \<and> closes_of evs = [Engine, HttpClient, Redis] \<and> last (flags_of evs) = False"
  using lifespan_releases [of disposing_fails True full_container] opened_full by (metis prod.exhaust)

text \<open>
  C36: What the stop gives up: when closing a resource raises, the runtime metrics are never stopped and
  the telemetry is never shut down, so what is still batched is not flushed, on exactly the shutdown
  that had trouble.
\<close>

theorem failed_close_skips_telemetry:
  assumes "lifespan fails otel c = (evs, r)" and "res \<in> set (opened c)" and "fails (Closed res) \<noteq> None"
  shows "MetricsStopped \<notin> set evs \<and> TelemetryShutDown \<notin> set evs \<and> r \<noteq> None"
proof -
  let ?body = "run_steps fails (startup_steps otel c)"
  have "snd (close_container (\<lambda>r. fails (Closed r)) c) \<noteq> None"
    using assms(2,3) close_container_raises [of "\<lambda>r. fails (Closed r)" c] by auto
  then obtain x where x: "close_container (\<lambda>r. fails (Closed r)) c = (opened c, Some x)"
    using close_container_attempts [of "\<lambda>r. fails (Closed r)" c] by (metis option.exhaust prod.collapse)
  have "MetricsStopped \<notin> set (startup_steps otel c)" and "TelemetryShutDown \<notin> set (startup_steps otel c)"
    by (auto simp: startup_steps_def)
  then have "MetricsStopped \<notin> set (fst ?body)" and "TelemetryShutDown \<notin> set (fst ?body)"
    by (blast dest: run_steps_subset)+
  then show ?thesis using assms(1) by (auto simp: lifespan_def Let_def finally_do_def shutdown_steps_def x)
qed

theorem failed_close_skips_telemetry_witness:
  "\<exists>evs r. lifespan disposing_fails True full_container = (evs, r) \<and> TelemetryShutDown \<notin> set evs
    \<and> MetricsRegistered \<in> set evs"
proof -
  obtain evs r where run: "lifespan disposing_fails True full_container = (evs, r)" by (metis prod.exhaust)
  have "MetricsRegistered \<in> set (fst (run_steps disposing_fails (startup_steps True full_container)))"
    by (auto simp: startup_steps_def disposing_fails_def)
  then have "MetricsRegistered \<in> set evs" using run by (auto simp: lifespan_def Let_def finally_do_def)
  moreover have "TelemetryShutDown \<notin> set evs"
    using failed_close_skips_telemetry [OF run, of Engine] opened_full by (simp add: disposing_fails_def)
  ultimately show ?thesis using run by blast
qed

end
