(* ===== verification/DomainOrder.thy ===== *)
theory DomainOrder
  imports Errors
begin

text \<open>
  The Order aggregate (\<open>domain/order.py\<close>). A Pydantic model is a record with a validity
  predicate, which is the conjunction of the constraints its field annotations write, and a
  constructor that returns the record or raises. Constraints are read as Pydantic documents
  them: \<open>max_digits\<close> and \<open>decimal_places\<close> do not count leading or trailing zeros, \<open>pattern\<close>
  is anchored at both ends.

  The lemmas characterise \<open>total_of\<close> completely: it returns the exact sum of the lines when
  they share a currency and the sum fits, although every product and partial sum is rounded to
  28 digits on the way (\<open>total_of_Inr\<close>), and it raises otherwise. An order that was
  constructed has the invariant \<open>order_valid\<close>.
\<close>

section \<open>Field constraints\<close>

definition char_between :: "char \<Rightarrow> char \<Rightarrow> char \<Rightarrow> bool" where
  "char_between lo hi c \<longleftrightarrow>
     (of_char lo :: nat) \<le> of_char c \<and> (of_char c :: nat) \<le> of_char hi"

text \<open>\<open>pattern=r"^[A-Z]{3}$"\<close>.\<close>

definition currency_ok :: "string \<Rightarrow> bool" where
  "currency_ok s \<longleftrightarrow> length s = 3 \<and> list_all (char_between CHR ''A'' CHR ''Z'') s"

text \<open>\<open>min_length=1, max_length=64\<close>.\<close>

definition sku_ok :: "string \<Rightarrow> bool" where
  "sku_ok s \<longleftrightarrow> 1 \<le> length s \<and> length s \<le> 64"

text \<open>\<open>max_digits=m, decimal_places=p\<close>: a whole number of units of \<open>10 ^ - p\<close>, below \<open>10 ^ (m - p)\<close>.\<close>

definition fits_digits :: "nat \<Rightarrow> nat \<Rightarrow> decimal \<Rightarrow> bool" where
  "fits_digits m p d \<longleftrightarrow>
     of_int \<lfloor>dec_val d * 10 ^ p\<rfloor> = dec_val d * 10 ^ p \<and> \<bar>dec_val d\<bar> < 10 ^ (m - p)"

text \<open>\<open>Field(ge=0, max_digits=14, decimal_places=2)\<close>.\<close>

definition amount_ok :: "decimal \<Rightarrow> bool" where
  "amount_ok d \<longleftrightarrow> 0 \<le> dec_val d \<and> fits_digits 14 2 d"

text \<open>\<open>Field(gt=0, le=2_147_483_647, strict=True)\<close> on a value that is an \<open>int\<close>.\<close>

definition quantity_ok :: "int \<Rightarrow> bool" where
  "quantity_ok q \<longleftrightarrow> 0 < q \<and> q \<le> 2147483647"

section \<open>Money and order lines\<close>

record money =
  amount :: decimal
  currency :: string

definition money_valid :: "money \<Rightarrow> bool" where
  "money_valid m \<longleftrightarrow> amount_ok (amount m) \<and> currency_ok (currency m)"

definition mk_money :: "decimal \<Rightarrow> string \<Rightarrow> exn + money" where
  "mk_money a c =
     (let m = \<lparr>amount = a, currency = c\<rparr>
      in if money_valid m then Inr m else Inl (Lib PydanticValidationError))"

definition money_add :: "money \<Rightarrow> money \<Rightarrow> exn + money" where
  "money_add self other =
     (if currency other \<noteq> currency self
      then Inl (Lib (ValueError (''cannot add '' @ currency other @ '' to '' @ currency self
             @ '': currency mismatch'')))
      else mk_money (dec_add (amount self) (amount other)) (currency self))"

definition money_mul :: "money \<Rightarrow> int \<Rightarrow> exn + money" where
  "money_mul self factor = mk_money (dec_mul_int (amount self) factor) (currency self)"

text \<open>\<open>==\<close> on \<open>Money\<close>: field by field, the amounts by value.\<close>

definition money_eq :: "money \<Rightarrow> money \<Rightarrow> bool" where
  "money_eq a b \<longleftrightarrow> dec_eq (amount a) (amount b) \<and> currency a = currency b"

record order_line =
  sku :: string
  quantity :: int
  unit_price :: money

definition order_line_valid :: "order_line \<Rightarrow> bool" where
  "order_line_valid l \<longleftrightarrow> sku_ok (sku l) \<and> quantity_ok (quantity l) \<and> money_valid (unit_price l)"

definition mk_order_line :: "string \<Rightarrow> int \<Rightarrow> money \<Rightarrow> exn + order_line" where
  "mk_order_line s q p =
     (let l = \<lparr>sku = s, quantity = q, unit_price = p\<rparr>
      in if order_line_valid l then Inr l else Inl (Lib PydanticValidationError))"

definition subtotal :: "order_line \<Rightarrow> exn + money" where
  "subtotal l = money_mul (unit_price l) (quantity l)"

section \<open>Totals\<close>

text \<open>The loop of \<open>total_of\<close> over \<open>lines[1:]\<close>, with the running total.\<close>

fun total_loop :: "money \<Rightarrow> order_line list \<Rightarrow> exn + money" where
  "total_loop running [] = Inr running"
| "total_loop running (item # items) =
     try_then (subtotal item) (\<lambda>s.
       try_then (money_add running s) (\<lambda>running'. total_loop running' items))"

definition total_of :: "order_line list \<Rightarrow> exn + money" where
  "total_of ls =
     (case ls of
        [] \<Rightarrow> Inl (Lib (ValueError ''cannot total an empty list of lines''))
      | first # rest \<Rightarrow> try_then (subtotal first) (\<lambda>running. total_loop running rest))"

section \<open>Orders\<close>

record order =
  oid :: uuid
  customer_id :: uuid
  lines :: "order_line list"
  total :: money
  internal_note :: "string option"
  authorisation_id :: "string option"

text \<open>
  The validator \<open>total_must_match_lines\<close>; whatever \<open>total_of\<close> raises inside it is a
  \<open>ValueError\<close>, which Pydantic reports as its own \<open>ValidationError\<close>.
\<close>

definition total_must_match_lines :: "order_line list \<Rightarrow> money \<Rightarrow> bool" where
  "total_must_match_lines ls t =
     (case total_of ls of Inl e \<Rightarrow> False | Inr computed \<Rightarrow> money_eq computed t)"

definition order_valid :: "order \<Rightarrow> bool" where
  "order_valid ord \<longleftrightarrow>
     lines ord \<noteq> [] \<and> list_all order_line_valid (lines ord) \<and> money_valid (total ord)
     \<and> total_must_match_lines (lines ord) (total ord)"

definition mk_order ::
  "uuid \<Rightarrow> uuid \<Rightarrow> order_line list \<Rightarrow> money \<Rightarrow> string option \<Rightarrow> string option \<Rightarrow> exn + order" where
  "mk_order i c ls t note auth =
     (let ord = \<lparr>oid = i, customer_id = c, lines = ls, total = t,
                internal_note = note, authorisation_id = auth\<rparr>
      in if order_valid ord then Inr ord else Inl (Lib PydanticValidationError))"

section \<open>Construction keeps the invariants\<close>

named_theorems valid_defs \<open>validity predicates and constructors of the domain models\<close>

lemmas [valid_defs] =
  money_valid_def mk_money_def order_line_valid_def mk_order_line_def order_valid_def mk_order_def

lemma mk_money_Inr_iff: "mk_money a c = Inr m \<longleftrightarrow> m = \<lparr>amount = a, currency = c\<rparr> \<and> money_valid m"
  by (auto simp: mk_money_def Let_def)

lemma mk_order_line_Inr_iff:
  "mk_order_line s q p = Inr l \<longleftrightarrow> l = \<lparr>sku = s, quantity = q, unit_price = p\<rparr> \<and> order_line_valid l"
  by (auto simp: mk_order_line_def Let_def)

lemma mk_order_Inr_iff:
  "mk_order i c ls t note auth = Inr ord \<longleftrightarrow>
     ord = \<lparr>oid = i, customer_id = c, lines = ls, total = t,
            internal_note = note, authorisation_id = auth\<rparr> \<and> order_valid ord"
  by (auto simp: mk_order_def Let_def)

lemma money_mul_valid: "money_mul m q = Inr m' \<Longrightarrow> money_valid m' \<and> currency m' = currency m"
  by (auto simp: money_mul_def mk_money_Inr_iff)

lemma money_add_valid: "money_add a b = Inr m \<Longrightarrow> money_valid m \<and> currency m = currency a \<and> currency b = currency a"
  by (auto simp: money_add_def mk_money_Inr_iff split: if_splits)


section \<open>Amounts as whole cents\<close>

lemma amount_ok_cents: "amount_ok d \<longleftrightarrow> (\<exists>m. m < 10 ^ 14 \<and> dec_val d = of_nat m / 100)"
proof
  assume ok: "amount_ok d"
  define m where "m = nat \<lfloor>dec_val d * 100\<rfloor>"
  have "of_nat m = dec_val d * 100"
    using ok by (simp add: m_def amount_ok_def fits_digits_def of_nat_nat)
  moreover from this have "(of_nat m :: rat) < of_nat (10 ^ 14)"
    using ok by (simp add: amount_ok_def fits_digits_def)
  then have "m < 10 ^ 14" by (simp only: of_nat_less_iff)
  ultimately show "\<exists>m. m < 10 ^ 14 \<and> dec_val d = of_nat m / 100"
    by (intro exI [of _ m]) simp
next
  assume "\<exists>m. m < 10 ^ 14 \<and> dec_val d = of_nat m / 100"
  then obtain m where m: "m < 10 ^ 14" and val: "dec_val d = of_nat m / 100" by blast
  from m have "(of_nat m :: rat) < of_nat (10 ^ 14)" by (simp only: of_nat_less_iff)
  with val show "amount_ok d"
    by (simp add: amount_ok_def fits_digits_def)
qed

lemma amount_ok_of_cents:
  assumes "dec_val d = of_nat m / 100"
  shows "amount_ok d \<longleftrightarrow> m < 10 ^ 14"
proof -
  have "of_nat m / 100 = (of_nat n / 100 :: rat) \<longleftrightarrow> m = n" for n by simp
  with assms show ?thesis by (auto simp: amount_ok_cents)
qed

lemma cents_bound: "(of_nat m / 100 :: rat) < 10 ^ 12 \<longleftrightarrow> m < 10 ^ 14"
proof -
  have "(of_nat m / 100 :: rat) < 10 ^ 12 \<longleftrightarrow> (of_nat m :: rat) < of_nat (10 ^ 14)" by simp
  then show ?thesis by (simp only: of_nat_less_iff)
qed

lemma amount_ok_iff_below:
  assumes "dec_val d = x" and "x = of_nat m / 100"
  shows "amount_ok d \<longleftrightarrow> x < 10 ^ 12"
  using amount_ok_of_cents [of d m] assms cents_bound [of m] by (simp only:)

lemma quantity_ok_nat: "quantity_ok q \<Longrightarrow> \<exists>n. q = int n \<and> n < 10 ^ 10"
  by (intro exI [of _ "nat q"]) (auto simp: quantity_ok_def)

section \<open>The value of the lines\<close>

definition line_value :: "order_line \<Rightarrow> rat" where
  "line_value l = dec_val (amount (unit_price l)) * of_int (quantity l)"

definition lines_value :: "order_line list \<Rightarrow> rat" where
  "lines_value ls = sum_list (map line_value ls)"

lemma lines_value_simps [simp]:
  "lines_value [] = 0"
  "lines_value (l # ls) = line_value l + lines_value ls"
  by (simp_all add: lines_value_def)

lemma line_value_cents:
  assumes "order_line_valid l"
  shows "\<exists>m. m < 10 ^ 24 \<and> line_value l = of_nat m / 100"
proof -
  obtain k where k: "k < 10 ^ 14" "dec_val (amount (unit_price l)) = of_nat k / 100"
    using assms by (auto simp: order_line_valid_def money_valid_def amount_ok_cents)
  obtain n where n: "quantity l = int n" "n < 10 ^ 10"
    using assms quantity_ok_nat by (auto simp: order_line_valid_def)
  have "k * n < 10 ^ 14 * 10 ^ 10"
    using k(1) n(2) by (intro mult_strict_mono) auto
  then show ?thesis
    using k(2) n(1) by (intro exI [of _ "k * n"]) (simp add: line_value_def)
qed

lemma line_value_nonneg: "order_line_valid l \<Longrightarrow> 0 \<le> line_value l"
  using line_value_cents by fastforce

lemma lines_value_nonneg: "list_all order_line_valid ls \<Longrightarrow> 0 \<le> lines_value ls"
  by (induction ls) (auto simp: line_value_nonneg)

text \<open>A subtotal is exact, and fails only when it does not fit.\<close>

lemma subtotal_cases:
  assumes valid: "order_line_valid l"
  shows "if line_value l < 10 ^ 12
    then \<exists>s. subtotal l = Inr s \<and> money_valid s \<and> currency s = currency (unit_price l)
           \<and> dec_val (amount s) = line_value l
    else subtotal l = Inl (Lib PydanticValidationError)"
proof -
  let ?d = "dec_mul_int (amount (unit_price l)) (quantity l)"
  obtain m where m: "m < 10 ^ 24" "line_value l = of_nat m / 100"
    using line_value_cents [OF valid] by blast
  have q: "0 \<le> quantity l" and cur: "currency_ok (currency (unit_price l))"
    using valid by (auto simp: order_line_valid_def quantity_ok_def money_valid_def)
  have "m < 10 ^ PREC" using m(1) by (simp add: PREC_def)
  then have val: "dec_val ?d = line_value l"
    using dec_mul_int_exact [OF q, of "amount (unit_price l)" m] m(2) by (simp add: line_value_def)
  then have "amount_ok ?d \<longleftrightarrow> line_value l < 10 ^ 12"
    using m(2) by (rule amount_ok_iff_below)
  with val cur show ?thesis
    by (auto simp: subtotal_def money_mul_def mk_money_def money_valid_def)
qed

lemma money_add_cases:
  assumes "money_valid a" and "money_valid b" and "currency b = currency a"
  shows "if dec_val (amount a) + dec_val (amount b) < 10 ^ 12
    then \<exists>s. money_add a b = Inr s \<and> money_valid s \<and> currency s = currency a
           \<and> dec_val (amount s) = dec_val (amount a) + dec_val (amount b)
    else money_add a b = Inl (Lib PydanticValidationError)"
proof -
  obtain m n where m: "m < 10 ^ 14" "dec_val (amount a) = of_nat m / 100"
    and n: "n < 10 ^ 14" "dec_val (amount b) = of_nat n / 100"
    using assms(1,2) by (auto simp: money_valid_def amount_ok_cents)
  have sum: "dec_val (amount a) + dec_val (amount b) = of_nat (m + n) / 100"
    using m(2) n(2) by (simp add: add_divide_distrib)
  have "m + n < 10 ^ PREC" using m(1) n(1) by (simp add: PREC_def)
  with sum have val: "dec_val (dec_add (amount a) (amount b)) = dec_val (amount a) + dec_val (amount b)"
    by (rule dec_add_exact)
  then have "amount_ok (dec_add (amount a) (amount b)) \<longleftrightarrow>
      dec_val (amount a) + dec_val (amount b) < 10 ^ 12"
    using sum by (rule amount_ok_iff_below)
  with val assms show ?thesis
    by (auto simp: money_add_def mk_money_def money_valid_def)
qed

text \<open>The currencies the code sums over.\<close>

definition one_currency :: "string \<Rightarrow> order_line list \<Rightarrow> bool" where
  "one_currency c ls \<longleftrightarrow> list_all (\<lambda>l. currency (unit_price l) = c) ls"

lemma one_currency_simps [simp]:
  "one_currency c []"
  "one_currency c (l # ls) \<longleftrightarrow> currency (unit_price l) = c \<and> one_currency c ls"
  by (simp_all add: one_currency_def)

text \<open>The loop succeeds exactly when the currencies agree and the whole sum fits.\<close>

lemma total_loop_returns:
  assumes "money_valid running" and "list_all order_line_valid ls" and "one_currency (currency running) ls"
    and "dec_val (amount running) + lines_value ls < 10 ^ 12"
  shows "\<exists>t. total_loop running ls = Inr t \<and> money_valid t \<and> currency t = currency running
    \<and> dec_val (amount t) = dec_val (amount running) + lines_value ls"
  using assms
proof (induction ls arbitrary: running)
  case Nil
  then show ?case by simp
next
  case (Cons l ls)
  have run: "0 \<le> dec_val (amount running)"
    using Cons.prems(1) by (simp add: money_valid_def amount_ok_def)
  have rest: "0 \<le> lines_value ls" and pos: "0 \<le> line_value l"
    using Cons.prems(2) by (auto simp: lines_value_nonneg line_value_nonneg)
  then obtain s where s: "subtotal l = Inr s" "money_valid s" "currency s = currency running"
      "dec_val (amount s) = line_value l"
    using subtotal_cases [of l] Cons.prems run by (auto split: if_splits)
  then obtain r where r: "money_add running s = Inr r" "money_valid r" "currency r = currency running"
      "dec_val (amount r) = dec_val (amount running) + line_value l"
    using money_add_cases [of running s] Cons.prems rest by (auto split: if_splits)
  then obtain t where "total_loop r ls = Inr t" "money_valid t" "currency t = currency running"
      "dec_val (amount t) = dec_val (amount r) + lines_value ls"
    using Cons.IH [of r] Cons.prems by auto
  with s r show ?case by auto
qed

lemma total_loop_Inr:
  assumes "total_loop running ls = Inr t" and "money_valid running" and "list_all order_line_valid ls"
  shows "one_currency (currency running) ls \<and> dec_val (amount running) + lines_value ls < 10 ^ 12"
  using assms
proof (induction ls arbitrary: running)
  case Nil
  then show ?case by (auto simp: money_valid_def amount_ok_def fits_digits_def)
next
  case (Cons l ls)
  then obtain s r where s: "subtotal l = Inr s" and r: "money_add running s = Inr r"
    and t: "total_loop r ls = Inr t"
    by (auto simp: try_then_Inr_iff)
  have sv: "money_valid s" "currency s = currency (unit_price l)" "dec_val (amount s) = line_value l"
    using subtotal_cases [of l] s Cons.prems(3) by (auto split: if_splits)
  have same: "currency s = currency running" and rv: "money_valid r" "currency r = currency running"
    using money_add_valid [OF r] by auto
  then have "dec_val (amount r) = dec_val (amount running) + line_value l"
    using money_add_cases [of running s] Cons.prems(2) sv r by (auto split: if_splits)
  then show ?case
    using Cons.IH [OF t rv(1)] Cons.prems(3) rv(2) sv(2) same by auto
qed

lemma total_of_returns:
  assumes "ls \<noteq> []" and "list_all order_line_valid ls" and "one_currency c ls"
    and "lines_value ls < 10 ^ 12"
  shows "\<exists>t. total_of ls = Inr t \<and> money_valid t \<and> currency t = c \<and> dec_val (amount t) = lines_value ls"
proof -
  obtain l rest where ls: "ls = l # rest" using assms(1) by (cases ls) auto
  have "0 \<le> lines_value rest" using assms(2) ls by (simp add: lines_value_nonneg)
  then obtain s where "subtotal l = Inr s" "money_valid s" "currency s = c"
      "dec_val (amount s) = line_value l"
    using subtotal_cases [of l] assms ls by (auto split: if_splits)
  then show ?thesis
    using total_loop_returns [of s rest] assms ls by (auto simp: total_of_def)
qed

lemma total_of_Inr:
  assumes "total_of ls = Inr t" and "list_all order_line_valid ls"
  shows "ls \<noteq> [] \<and> one_currency (currency t) ls \<and> lines_value ls < 10 ^ 12
    \<and> money_valid t \<and> dec_val (amount t) = lines_value ls"
proof -
  obtain l rest s where ls: "ls = l # rest" and s: "subtotal l = Inr s"
    and loop: "total_loop s rest = Inr t"
    using assms(1) by (auto simp: total_of_def try_then_Inr_iff split: list.splits)
  have sv: "money_valid s" "currency s = currency (unit_price l)" "dec_val (amount s) = line_value l"
    using subtotal_cases [of l] s assms(2) ls by (auto split: if_splits)
  have fits: "one_currency (currency s) rest" "dec_val (amount s) + lines_value rest < 10 ^ 12"
    using total_loop_Inr [OF loop sv(1)] assms(2) ls by auto
  obtain t' where "total_loop s rest = Inr t'" "money_valid t'" "currency t' = currency s"
      "dec_val (amount t') = dec_val (amount s) + lines_value rest"
    using total_loop_returns [of s rest] fits sv(1) assms(2) ls by auto
  with loop fits sv ls show ?thesis by auto
qed


lemma total_must_match_iff:
  assumes lines: "ls \<noteq> []" "list_all order_line_valid ls" and t: "money_valid t"
  shows "total_must_match_lines ls t \<longleftrightarrow> one_currency (currency t) ls \<and> dec_val (amount t) = lines_value ls"
proof -
  have below: "dec_val (amount t) < 10 ^ 12"
    using t by (auto simp: money_valid_def amount_ok_def fits_digits_def)
  have "one_currency c' ls \<Longrightarrow> one_currency c'' ls \<Longrightarrow> c' = c''" for c' c''
    using lines(1) by (cases ls) auto
  then show ?thesis
    using total_of_Inr [OF _ lines(2)] total_of_returns [OF lines, of "currency t"] below
    by (fastforce simp: total_must_match_lines_def money_eq_def dec_eq_def split: sum.splits)
qed

lemma order_valid_iff:
  "order_valid ord \<longleftrightarrow> lines ord \<noteq> [] \<and> list_all order_line_valid (lines ord) \<and> money_valid (total ord)
     \<and> one_currency (currency (total ord)) (lines ord)
     \<and> dec_val (amount (total ord)) = lines_value (lines ord)"
  using total_must_match_iff [of "lines ord" "total ord"] by (auto simp: order_valid_def)

section \<open>Equality of orders\<close>

text \<open>\<open>==\<close> on orders, as Pydantic compares models: field by field, decimals by value.\<close>

definition order_line_eq :: "order_line \<Rightarrow> order_line \<Rightarrow> bool" where
  "order_line_eq a b \<longleftrightarrow>
     sku a = sku b \<and> quantity a = quantity b \<and> money_eq (unit_price a) (unit_price b)"

definition order_eq :: "order \<Rightarrow> order \<Rightarrow> bool" where
  "order_eq a b \<longleftrightarrow>
     oid a = oid b \<and> customer_id a = customer_id b
     \<and> list_all2 order_line_eq (lines a) (lines b) \<and> money_eq (total a) (total b)
     \<and> internal_note a = internal_note b \<and> authorisation_id a = authorisation_id b"

lemma order_line_eq_refl [simp]: "order_line_eq l l"
  by (simp add: order_line_eq_def money_eq_def)

lemma order_eq_refl [simp]: "order_eq ord ord"
  by (simp add: order_eq_def money_eq_def list_all2_refl)

lemma order_eq_oid: "order_eq a b \<Longrightarrow> oid a = oid b"
  by (simp add: order_eq_def)

lemma money_eq_valid: "money_eq a b \<Longrightarrow> money_valid b \<Longrightarrow> money_valid a"
  unfolding money_eq_def dec_eq_def money_valid_def amount_ok_def fits_digits_def by metis

lemma order_line_eq_valid: "order_line_eq a b \<Longrightarrow> order_line_valid b \<Longrightarrow> order_line_valid a"
  using money_eq_valid by (auto simp: order_line_eq_def order_line_valid_def)

lemma order_lines_eq:
  assumes "list_all2 order_line_eq as bs"
  shows "list_all order_line_valid bs \<Longrightarrow> list_all order_line_valid as"
    and "one_currency c bs \<Longrightarrow> one_currency c as"
    and "lines_value as = lines_value bs"
  using assms
  by (induction rule: list_all2_induct)
    (auto simp: order_line_eq_valid, auto simp: order_line_eq_def money_eq_def line_value_def dec_eq_def)

text \<open>Validity respects equality: an equal order is as valid.\<close>

lemma order_eq_valid:
  assumes "order_eq a b" and "order_valid b"
  shows "order_valid a"
proof -
  have eq: "list_all2 order_line_eq (lines a) (lines b)" "money_eq (total a) (total b)"
    using assms(1) by (auto simp: order_eq_def)
  have "lines a \<noteq> []" using eq(1) assms(2) by (auto simp: order_valid_def)
  then show ?thesis
    using assms(2) order_lines_eq [OF eq(1)] money_eq_valid [OF eq(2)] eq(2)
    by (auto simp: order_valid_iff money_eq_def dec_eq_def)
qed

section \<open>Evaluation on concrete orders\<close>

text \<open>What \<open>simp\<close> needs to run the model on an order whose amounts are written with two places.\<close>

named_theorems eval_simps \<open>evaluation of the domain model on concrete values\<close>

lemma dec_val_2 [eval_simps]: "dec_val (Dec False c (-2)) = of_nat c / 100"
  by (simp add: power_int_def power_divide)

lemma amount_ok_2 [eval_simps]: "amount_ok (Dec False c (-2)) \<longleftrightarrow> c < 10 ^ 14"
  by (rule amount_ok_of_cents) (rule dec_val_2)

lemma dec_mul_int_2 [eval_simps]:
  "c * nat q < 10 ^ 28 \<Longrightarrow> 0 < q \<Longrightarrow> dec_mul_int (Dec False c (-2)) q = Dec False (c * nat q) (-2)"
  by (simp add: dec_mul_int_def dec_fix_exact_small ndigits_le_iff PREC_def)

lemma dec_add_2 [eval_simps]:
  assumes "a + b < 10 ^ 28"
  shows "dec_add (Dec False a (-2)) (Dec False b (-2)) = Dec False (a + b) (-2)"
proof -
  have "nat (int a + int b) = a + b" by simp
  with assms show ?thesis
    by (auto simp: dec_add_def dec_coef_at_def Let_def dec_fix_exact_small ndigits_le_iff PREC_def)
qed

lemmas [eval_simps] =
  valid_defs sku_ok_def quantity_ok_def currency_ok_def char_between_def Let_def total_of_def
  subtotal_def money_mul_def money_add_def total_must_match_lines_def money_eq_def dec_eq_def
  line_value_def

text \<open>The two lines of the seeded order \<open>mixed-basket\<close>.\<close>

definition mug_line :: order_line where
  "mug_line = \<lparr>sku = ''mug-ceramic'', quantity = 4,
               unit_price = \<lparr>amount = Dec False 990 (-2), currency = ''EUR''\<rparr>\<rparr>"

definition spoon_line :: order_line where
  "spoon_line = \<lparr>sku = ''spoon-set'', quantity = 1,
                 unit_price = \<lparr>amount = Dec False 1240 (-2), currency = ''EUR''\<rparr>\<rparr>"

definition basket_order :: order where
  "basket_order = \<lparr>oid = 1, customer_id = 2, lines = [mug_line, spoon_line],
                   total = \<lparr>amount = Dec False 5200 (-2), currency = ''EUR''\<rparr>,
                   internal_note = Some ''fragile'', authorisation_id = Some ''auth_1''\<rparr>"

lemma basket_lines_valid: "list_all order_line_valid [mug_line, spoon_line]"
  by (simp add: mug_line_def spoon_line_def eval_simps)

lemma basket_total:
  "total_of [mug_line, spoon_line] = Inr \<lparr>amount = Dec False 5200 (-2), currency = ''EUR''\<rparr>"
  by (simp add: mug_line_def spoon_line_def eval_simps)

lemma basket_order_valid: "order_valid basket_order"
  using basket_lines_valid basket_total by (simp add: basket_order_def eval_simps)

section \<open>Properties\<close>

text \<open>
  C1: \<open>total_of\<close> sums exactly. On valid lines it returns a total just when there is a line, all
  lines share the first line's currency and the exact sum of price times quantity is below
  \<open>10 ^ 12\<close>; the total it returns is a valid \<open>Money\<close> with exactly that sum as its amount and that
  currency, although each product and partial sum goes through 28-digit rounding.
\<close>

theorem total_of_exact:
  assumes "list_all order_line_valid ls"
  shows "((\<exists>t. total_of ls = Inr t) \<longleftrightarrow>
      ls \<noteq> [] \<and> one_currency (currency (unit_price (hd ls))) ls \<and> lines_value ls < 10 ^ 12)
    \<and> (\<forall>t. total_of ls = Inr t \<longrightarrow>
      money_valid t \<and> dec_val (amount t) = lines_value ls \<and> one_currency (currency t) ls)"
proof (intro conjI allI impI)
  show "(\<exists>t. total_of ls = Inr t) \<longleftrightarrow>
      ls \<noteq> [] \<and> one_currency (currency (unit_price (hd ls))) ls \<and> lines_value ls < 10 ^ 12"
    using total_of_Inr [OF _ assms] total_of_returns [OF _ assms] by (cases ls) fastforce+
qed (use total_of_Inr [OF _ assms] in blast)+

theorem total_of_exact_witness:
  "list_all order_line_valid [mug_line, spoon_line]
   \<and> lines_value [mug_line, spoon_line] = 52
   \<and> total_of [mug_line, spoon_line] = Inr \<lparr>amount = Dec False 5200 (-2), currency = ''EUR''\<rparr>"
proof -
  have "dec_val (amount \<lparr>amount = Dec False 5200 (-2), currency = ''EUR''\<rparr>)
      = lines_value [mug_line, spoon_line]"
    using total_of_exact [OF basket_lines_valid] basket_total by blast
  then show ?thesis
    using basket_lines_valid basket_total by (simp add: eval_simps del: lines_value_simps)
qed

text \<open>
  C2: an \<open>Order\<close> that was constructed protects its invariants: it has a line, every line is valid,
  all lines and the total are in one currency, and the total's amount is exactly the sum of price
  times quantity over the lines. Anything else raises a validation error and constructs nothing.
\<close>

theorem mk_order_invariant:
  "mk_order i c ls t note auth =
     (if ls \<noteq> [] \<and> list_all order_line_valid ls \<and> money_valid t
         \<and> one_currency (currency t) ls \<and> dec_val (amount t) = lines_value ls
      then Inr \<lparr>oid = i, customer_id = c, lines = ls, total = t,
                internal_note = note, authorisation_id = auth\<rparr>
      else Inl (Lib PydanticValidationError))"
  by (auto simp: mk_order_def order_valid_iff Let_def)

end
