(* ===== verification/Ports.thy ===== *)
theory Ports
  imports DomainOrder
begin

text \<open>
  The ports of the domain as locales: what a use case calls (\<open>fixes\<close>) and what every adapter
  promises (\<open>assumes\<close>). The adapters interpret them in their own theories: the in-memory ones,
  PostgreSQL, the cache, the HTTP payment gateway and the S3 receipt store.

  A port may fail with any exception; a failed write may or may not have taken effect (a
  connection can be lost after the server has acted), but never in part.
\<close>

section \<open>The payment port (domain/payments.py)\<close>

record authorisation =
  auth_id :: string

text \<open>The white space Pydantic strips (the Unicode \<open>White_Space\<close> property below code point 256).\<close>

definition is_space :: "char \<Rightarrow> bool" where
  "is_space c \<longleftrightarrow>
     (let n = (of_char c :: nat) in (9 \<le> n \<and> n \<le> 13) \<or> n = 32 \<or> n = 133 \<or> n = 160)"

definition strip :: "string \<Rightarrow> string" where
  "strip s = rev (dropWhile is_space (rev (dropWhile is_space s)))"

text \<open>\<open>StringConstraints(strip_whitespace=True, min_length=1)\<close>: stripped, and not blank.\<close>

definition mk_authorisation :: "string \<Rightarrow> exn + authorisation" where
  "mk_authorisation raw =
     (let s = strip raw
      in if 1 \<le> length s then Inr \<lparr>auth_id = s\<rparr> else Inl (Lib PydanticValidationError))"

definition authorisation_ok :: "authorisation \<Rightarrow> bool" where
  "authorisation_ok a \<longleftrightarrow> auth_id a \<noteq> [] \<and> strip (auth_id a) = auth_id a"

lemma strip_ends: "strip s = [] \<or> \<not> is_space (hd (strip s)) \<and> \<not> is_space (last (strip s))"
proof (cases "strip s = []")
  case False
  define t where "t = dropWhile is_space s"
  have t: "strip s = rev (dropWhile is_space (rev t))" by (simp add: strip_def t_def)
  have last: "\<not> is_space (last (strip s))"
    using False hd_dropWhile [of is_space "rev t"] by (simp add: t last_rev)
  obtain ws where ws: "t = strip s @ ws"
    unfolding t by (metis rev_append rev_rev_ident takeWhile_dropWhile_id)
  then have "hd (strip s) = hd t" using False by simp
  moreover have "t \<noteq> []" using ws False by auto
  then have "\<not> is_space (hd t)" using hd_dropWhile [of is_space s] by (auto simp: t_def)
  ultimately show ?thesis using last by simp
qed simp

lemma strip_strip [simp]: "strip (strip s) = strip s"
proof (cases "strip s = []")
  case True
  show ?thesis unfolding True by (simp add: strip_def)
next
  case False
  then have "dropWhile is_space (strip s) = strip s"
    and "dropWhile is_space (rev (strip s)) = rev (strip s)"
    using strip_ends [of s] by (auto simp: dropWhile_eq_self_iff hd_rev)
  then show ?thesis unfolding strip_def [of "strip s"] by simp
qed

lemma mk_authorisation_ok: "mk_authorisation raw = Inr a \<Longrightarrow> authorisation_ok a"
  by (auto simp: mk_authorisation_def authorisation_ok_def Let_def split: if_splits)

text \<open>
  A gateway answers with an authorisation that can be used, declines this order, or is not
  available; it raises nothing else.
\<close>

locale payment_gateway =
  fixes authorise :: "uuid \<Rightarrow> money \<Rightarrow> ('p, exn, authorisation) io"
    and ready :: "'p \<Rightarrow> bool"
  assumes answer_ok: "ready p \<Longrightarrow> authorise i t p = (Inr a, p') \<Longrightarrow> authorisation_ok a"
    and refusal: "ready p \<Longrightarrow> authorise i t p = (Inl e, p') \<Longrightarrow>
      (\<exists>r. e = Domain (PaymentDeclinedError i r)) \<or> (\<exists>m. e = Infra (PaymentUnavailableError m))"
    and stays_ready: "ready p \<Longrightarrow> authorise i t p = (r, p') \<Longrightarrow> ready p'"

section \<open>The order repository port (domain/repositories.py)\<close>

text \<open>
  \<open>orders\<close> is the map the repository stands for. What a save stores equals what it was given
  in Python's sense (\<open>order_eq\<close>): a database may write \<open>10.5\<close> back as \<open>10.50\<close>.
\<close>

definition stores :: "(uuid \<rightharpoonup> order) \<Rightarrow> order \<Rightarrow> (uuid \<rightharpoonup> order) \<Rightarrow> bool" where
  "stores m ord m' \<longleftrightarrow> (\<exists>ord'. order_eq ord' ord \<and> order_valid ord' \<and> m' = m(oid ord \<mapsto> ord'))"

lemma storesI: "order_eq ord' ord \<Longrightarrow> order_valid ord' \<Longrightarrow> stores m ord (m(oid ord \<mapsto> ord'))"
  by (auto simp: stores_def)

lemma stores_self: "order_valid ord \<Longrightarrow> stores m ord (m(oid ord \<mapsto> ord))"
  by (rule storesI) simp

lemma stores_other: "stores m ord m' \<Longrightarrow> i \<noteq> oid ord \<Longrightarrow> m' i = m i"
  by (auto simp: stores_def)

lemma stores_this: "stores m ord m' \<Longrightarrow> \<exists>ord'. m' (oid ord) = Some ord' \<and> order_eq ord' ord"
  by (auto simp: stores_def)

locale order_repository =
  fixes get :: "uuid \<Rightarrow> ('w, exn, order option) io"
    and save :: "order \<Rightarrow> ('w, exn, unit) io"
    and orders :: "'w \<Rightarrow> uuid \<rightharpoonup> order"
    and consistent :: "'w \<Rightarrow> bool"
  assumes get_returns: "consistent w \<Longrightarrow> get i w = (Inr r, w') \<Longrightarrow> r = orders w i"
    and get_keeps: "consistent w \<Longrightarrow> get i w = (x, w') \<Longrightarrow> consistent w' \<and> orders w' = orders w"
    and save_stores: "consistent w \<Longrightarrow> order_valid ord \<Longrightarrow> orders w (oid ord) = None \<Longrightarrow>
      save ord w = (Inr u, w') \<Longrightarrow> consistent w' \<and> stores (orders w) ord (orders w')"
    and save_fails: "consistent w \<Longrightarrow> order_valid ord \<Longrightarrow> orders w (oid ord) = None \<Longrightarrow>
      save ord w = (Inl e, w') \<Longrightarrow>
      consistent w' \<and> (orders w' = orders w \<or> stores (orders w) ord (orders w'))"
    and keyed: "consistent w \<Longrightarrow> orders w i = Some ord \<Longrightarrow> oid ord = i \<and> order_valid ord"
begin

text \<open>A saved order is what a later read returns, and no other order changes.\<close>

lemma read_back:
  assumes "consistent w" and "order_valid ord" and "orders w (oid ord) = None"
    and "save ord w = (Inr u, w1)" and "get (oid ord) w1 = (Inr r, w2)"
  shows "\<exists>ord'. r = Some ord' \<and> order_eq ord' ord"
  using save_stores [OF assms(1-4)] get_returns [OF _ assms(5)] stores_this by fastforce

lemma read_other:
  assumes "consistent w" and "order_valid ord" and "orders w (oid ord) = None" and "i \<noteq> oid ord"
    and "save ord w = (x, w1)" and "get i w1 = (Inr r, w2)"
  shows "r = orders w i"
proof (cases x)
  case (Inl e)
  then show ?thesis
    using save_fails [OF assms(1-3)] assms(4-6) get_returns stores_other by metis
next
  case (Inr u)
  then show ?thesis
    using save_stores [OF assms(1-3)] assms(4-6) get_returns stores_other by metis
qed

end

text \<open>A repository in which a save may also replace an order that is there already.\<close>

locale replacing_repository = order_repository +
  assumes save_replaces: "consistent w \<Longrightarrow> order_valid ord \<Longrightarrow> save ord w = (Inr u, w') \<Longrightarrow>
      consistent w' \<and> stores (orders w) ord (orders w')"

section \<open>The receipt store port (domain/receipts.py)\<close>

locale receipt_store =
  fixes get :: "uuid \<Rightarrow> ('s, exn, string option) io"
    and put :: "uuid \<Rightarrow> string \<Rightarrow> ('s, exn, unit) io"
    and receipts :: "'s \<Rightarrow> uuid \<rightharpoonup> string"
  assumes get_returns: "get i s = (Inr r, s') \<Longrightarrow> r = receipts s i"
    and get_keeps: "get i s = (x, s') \<Longrightarrow> receipts s' = receipts s"
    and get_fails: "get i s = (Inl e, s') \<Longrightarrow> \<exists>m. e = Infra (StorageUnavailableError m)"
    and put_stores: "put i c s = (Inr u, s') \<Longrightarrow> receipts s' = (receipts s)(i \<mapsto> c)"
    and put_fails: "put i c s = (Inl e, s') \<Longrightarrow>
      (\<exists>m. e = Infra (StorageUnavailableError m))
      \<and> (receipts s' = receipts s \<or> receipts s' = (receipts s)(i \<mapsto> c))"

end
