(* ===== verification/MemoryAdapters.thy ===== *)
theory MemoryAdapters
  imports Ports
begin

text \<open>
  The adapters selected when nothing is configured (\<open>infrastructure/memory/\<close>): dictionaries for
  orders and receipts, and a payment gateway that authorises everything. Each interprets its
  port without any hypothesis.
\<close>

section \<open>InMemoryOrderRepository\<close>

record mem_orders =
  mem_order_map :: "uuid \<rightharpoonup> order"

definition mem_orders_init :: mem_orders where
  "mem_orders_init = \<lparr>mem_order_map = Map.empty\<rparr>"

definition mem_order_get :: "uuid \<Rightarrow> (mem_orders, exn, order option) io" where
  "mem_order_get i w = (Inr (mem_order_map w i), w)"

definition mem_order_save :: "order \<Rightarrow> (mem_orders, exn, unit) io" where
  "mem_order_save ord w = (Inr (), w\<lparr>mem_order_map := (mem_order_map w)(oid ord \<mapsto> ord)\<rparr>)"

definition mem_order_clear :: "mem_orders \<Rightarrow> mem_orders" where
  "mem_order_clear w = w\<lparr>mem_order_map := Map.empty\<rparr>"

text \<open>Every stored order is valid and sits under its own identifier.\<close>

definition mem_orders_ok :: "mem_orders \<Rightarrow> bool" where
  "mem_orders_ok w \<longleftrightarrow> (\<forall>i ord. mem_order_map w i = Some ord \<longrightarrow> oid ord = i \<and> order_valid ord)"

interpretation mem_repo: replacing_repository mem_order_get mem_order_save mem_order_map mem_orders_ok
  by unfold_locales
    (auto simp: mem_order_get_def mem_order_save_def mem_orders_ok_def stores_self split: if_splits)

lemma mem_orders_init_ok [simp]: "mem_orders_ok mem_orders_init"
  by (simp add: mem_orders_ok_def mem_orders_init_def)

lemma mem_order_clear_ok [simp]: "mem_orders_ok (mem_order_clear w)"
  by (simp add: mem_orders_ok_def mem_order_clear_def)

section \<open>InMemoryReceiptStore\<close>

record mem_receipts =
  mem_receipt_map :: "uuid \<rightharpoonup> string"

definition mem_receipt_get :: "uuid \<Rightarrow> (mem_receipts, exn, string option) io" where
  "mem_receipt_get i s = (Inr (mem_receipt_map s i), s)"

definition mem_receipt_put :: "uuid \<Rightarrow> string \<Rightarrow> (mem_receipts, exn, unit) io" where
  "mem_receipt_put i c s = (Inr (), s\<lparr>mem_receipt_map := (mem_receipt_map s)(i \<mapsto> c)\<rparr>)"

definition mem_receipt_clear :: "mem_receipts \<Rightarrow> mem_receipts" where
  "mem_receipt_clear s = s\<lparr>mem_receipt_map := Map.empty\<rparr>"

interpretation mem_store: receipt_store mem_receipt_get mem_receipt_put mem_receipt_map
  by unfold_locales (auto simp: mem_receipt_get_def mem_receipt_put_def)

section \<open>InMemoryPaymentGateway\<close>

text \<open>
  The state is the stream of UUIDs \<open>uuid4\<close> will return; the result goes through the
  \<open>Authorisation\<close> model, as in the code.
\<close>

definition mem_authorise :: "uuid \<Rightarrow> money \<Rightarrow> (uuid list, exn, authorisation) io" where
  "mem_authorise i t us =
     (case us of
        [] \<Rightarrow> (mk_authorisation (''auth_'' @ uuid_hex 0), [])
      | u # us' \<Rightarrow> (mk_authorisation (''auth_'' @ uuid_hex u), us'))"

lemma not_space_hex_char: "d < 16 \<Longrightarrow> \<not> is_space (hex_char d)"
  by (auto simp: is_space_def hex_char_def Let_def)

lemma hex_fixed_no_space: "c \<in> set (hex_fixed k n) \<Longrightarrow> \<not> is_space c"
  by (induction k arbitrary: n) (auto simp: not_space_hex_char)

lemma dropWhile_none: "(\<And>c. c \<in> set s \<Longrightarrow> \<not> P c) \<Longrightarrow> dropWhile P s = s"
  by (cases s) auto

lemma strip_no_space: "(\<And>c. c \<in> set s \<Longrightarrow> \<not> is_space c) \<Longrightarrow> strip s = s"
proof -
  assume "\<And>c. c \<in> set s \<Longrightarrow> \<not> is_space c"
  then have "dropWhile is_space s = s" and "dropWhile is_space (rev s) = rev s"
    by (auto intro: dropWhile_none)
  then show "strip s = s" by (simp add: strip_def)
qed

lemma strip_auth_hex: "strip (''auth_'' @ uuid_hex u) = ''auth_'' @ uuid_hex u"
  by (rule strip_no_space)
    (auto simp: uuid_hex_def is_space_def Let_def dest: hex_fixed_no_space)

lemma mem_authorise_eq:
  "mem_authorise i t us =
     (Inr \<lparr>auth_id = ''auth_'' @ uuid_hex (case us of [] \<Rightarrow> 0 | u # us' \<Rightarrow> u)\<rparr>, tl us)"
  by (cases us) (simp_all add: mem_authorise_def mk_authorisation_def strip_auth_hex [simplified] Let_def)

interpretation mem_gateway: payment_gateway mem_authorise "\<lambda>us. True"
  by unfold_locales
    (auto simp: mem_authorise_eq authorisation_ok_def strip_auth_hex [simplified])

end
