(* ===== verification/PyJson.thy ===== *)
theory PyJson
  imports PyText
begin

text \<open>
  JSON values as Python's \<open>json\<close> module sees them, and \<open>json.dumps\<close> with
  \<open>separators=(",", ":")\<close>, with and without \<open>sort_keys\<close>. A float is carried by its text.
\<close>

datatype json =
    JNull
  | JBool bool
  | JInt int
  | JFloat string
  | JStr string
  | JArr "json list"
  | JObj "(string \<times> json) list"

section \<open>Strings\<close>

text \<open>One character of a string literal under \<open>ensure_ascii\<close>, the default of \<open>json.dumps\<close>.\<close>

definition json_escape :: "char \<Rightarrow> string" where
  "json_escape c =
     (if c = CHR 0x22 then [CHR 0x5C, CHR 0x22]
      else if c = CHR 0x5C then [CHR 0x5C, CHR 0x5C]
      else if c = CHR 0x0A then [CHR 0x5C, CHR ''n'']
      else if c = CHR 0x0D then [CHR 0x5C, CHR ''r'']
      else if c = CHR 0x09 then [CHR 0x5C, CHR ''t'']
      else if c = CHR 0x0C then [CHR 0x5C, CHR ''f'']
      else if c = CHR 0x08 then [CHR 0x5C, CHR ''b'']
      else if 32 \<le> (of_char c :: nat) \<and> (of_char c :: nat) \<le> 126 then [c]
      else [CHR 0x5C, CHR ''u''] @ hex_fixed 4 (of_char c))"

definition json_string :: "string \<Rightarrow> string" where
  "json_string s = [CHR 0x22] @ concat (map json_escape s) @ [CHR 0x22]"

section \<open>Values\<close>

fun json_dumps :: "json \<Rightarrow> string" where
  "json_dumps JNull = ''null''"
| "json_dumps (JBool b) = (if b then ''true'' else ''false'')"
| "json_dumps (JInt i) = int_str i"
| "json_dumps (JFloat t) = t"
| "json_dumps (JStr s) = json_string s"
| "json_dumps (JArr xs) = ''['' @ join '','' (map json_dumps xs) @ '']''"
| "json_dumps (JObj kvs) =
     ''{'' @ join '','' (map (\<lambda>(k, v). json_string k @ '':'' @ json_dumps v) kvs) @ ''}''"

text \<open>\<open>sort_keys=True\<close>: the keys of every object in code point order.\<close>

fun json_sort :: "json \<Rightarrow> json" where
  "json_sort (JArr xs) = JArr (map json_sort xs)"
| "json_sort (JObj kvs) = JObj (sort_key fst (map (\<lambda>(k, v). (k, json_sort v)) kvs))"
| "json_sort v = v"

definition json_dumps_sorted :: "json \<Rightarrow> string" where
  "json_dumps_sorted v = json_dumps (json_sort v)"

text \<open>\<open>value.get(key)\<close> and \<open>value[key]\<close> on a parsed object: the last pair of a key wins.\<close>

definition json_field :: "(string \<times> json) list \<Rightarrow> string \<Rightarrow> json option" where
  "json_field kvs k = map_of (rev kvs) k"

section \<open>Plain ASCII\<close>

definition ascii_char :: "char \<Rightarrow> bool" where
  "ascii_char c \<longleftrightarrow> (of_char c :: nat) < 128"

abbreviation ascii :: "string \<Rightarrow> bool" where
  "ascii \<equiv> list_all ascii_char"

text \<open>The floats of a value print as ASCII (they are digits, signs, dots and \<open>e\<close>).\<close>

fun floats_ascii :: "json \<Rightarrow> bool" where
  "floats_ascii (JFloat t) = ascii t"
| "floats_ascii (JArr xs) = list_all floats_ascii xs"
| "floats_ascii (JObj kvs) = list_all (\<lambda>(k, v). floats_ascii v) kvs"
| "floats_ascii v = True"

lemma ascii_literals [simp]:
  "ascii_char CHR ''[''" "ascii_char CHR '']''" "ascii_char CHR ''{''" "ascii_char CHR ''}''"
  "ascii_char CHR '',''" "ascii_char CHR '':''" "ascii_char CHR ''-''" "ascii_char CHR 0x22"
  by (simp_all add: ascii_char_def)

lemma ascii_digit: "is_digit c \<Longrightarrow> ascii_char c"
  by (auto simp: is_digit_def ascii_char_def)

lemma ascii_nat_str [simp]: "ascii (nat_str n)"
  by (auto simp: list_all_iff intro: ascii_digit nat_str_digits)

lemma ascii_int_str [simp]: "ascii (int_str i)"
  by (auto simp: int_str_def)

lemma ascii_hex_char: "d < 16 \<Longrightarrow> ascii_char (hex_char d)"
  by (auto simp: ascii_char_def hex_char_def)

lemma ascii_hex_fixed [simp]: "ascii (hex_fixed k n)"
  by (induction k arbitrary: n) (auto simp: ascii_hex_char)

lemma ascii_escape [simp]: "ascii (json_escape c)"
  by (simp add: json_escape_def ascii_char_def)

lemma ascii_concat: "(\<And>x. x \<in> set xs \<Longrightarrow> ascii x) \<Longrightarrow> ascii (concat xs)"
  by (auto simp: list_all_iff)

lemma ascii_json_string [simp]: "ascii (json_string s)"
  by (auto simp: json_string_def intro!: ascii_concat)

lemma ascii_join: "ascii sep \<Longrightarrow> (\<And>x. x \<in> set xs \<Longrightarrow> ascii x) \<Longrightarrow> ascii (join sep xs)"
  by (induction sep xs rule: join.induct) auto

lemma json_dumps_ascii: "floats_ascii v \<Longrightarrow> ascii (json_dumps v)"
proof (induction v rule: json_dumps.induct)
  case (6 xs)
  then have "ascii (json_dumps x)" if "x \<in> set xs" for x
    using that by (simp add: list_all_iff [of _ xs])
  then show ?case by (auto intro!: ascii_join)
next
  case (7 kvs)
  then have "ascii (json_string k @ '':'' @ json_dumps v)" if "(k, v) \<in> set kvs" for k v
    using that by (fastforce simp: list_all_iff [of _ kvs])
  then show ?case by (auto intro!: ascii_join)
qed (auto simp: ascii_char_def)

lemma floats_ascii_sort [simp]: "floats_ascii (json_sort v) = floats_ascii v"
proof (induction v rule: json_sort.induct)
  case (2 kvs)
  then have "floats_ascii (json_sort v) = floats_ascii v" if "(k, v) \<in> set kvs" for k v
    using that by fastforce
  then show ?case by (fastforce simp: list_all_iff)
qed (auto simp: list_all_iff)

end
