(* ===== verification/ReceiptRender.thy ===== *)
theory ReceiptRender
  imports DomainOrder PyJson
begin

text \<open>
  The renderer of receipts (\<open>domain/receipt_render.py\<close>): the document built field by field from
  an order, and its bytes. The bytes are carried as the string of their code points; the
  document is ASCII, so UTF-8 encoding is the identity on it.
\<close>

definition RECEIPT_SCHEMA_VERSION :: int where
  "RECEIPT_SCHEMA_VERSION = 1"

definition json_opt :: "string option \<Rightarrow> json" where
  "json_opt v = (case v of None \<Rightarrow> JNull | Some s \<Rightarrow> JStr s)"

text \<open>One entry of \<open>"lines"\<close>; the \<open>subtotal\<close> property is computed, and may raise.\<close>

definition render_line :: "order_line \<Rightarrow> exn + json" where
  "render_line line =
     try_then (subtotal line) (\<lambda>s.
       Inr (JObj [(''sku'', JStr (sku line)),
                  (''quantity'', JInt (quantity line)),
                  (''unit_price'', JStr (dec_str (amount (unit_price line)))),
                  (''subtotal'', JStr (dec_str (amount s)))]))"

definition receipt_document :: "order \<Rightarrow> exn + json" where
  "receipt_document ord =
     try_then (map_sum_list render_line (lines ord)) (\<lambda>ls.
       Inr (JObj [(''schema_version'', JInt RECEIPT_SCHEMA_VERSION),
                  (''order_id'', JStr (uuid_str (oid ord))),
                  (''customer_id'', JStr (uuid_str (customer_id ord))),
                  (''authorisation_id'', json_opt (authorisation_id ord)),
                  (''currency'', JStr (currency (total ord))),
                  (''total'', JStr (dec_str (amount (total ord)))),
                  (''lines'', JArr ls)]))"

definition render_receipt :: "order \<Rightarrow> exn + string" where
  "render_receipt ord = try_then (receipt_document ord) (\<lambda>d. Inr (json_dumps_sorted d))"

section \<open>Rendering a valid order\<close>

text \<open>The lines of a valid order have subtotals: each is at most the total.\<close>

lemma line_value_le_lines:
  "list_all order_line_valid ls \<Longrightarrow> l \<in> set ls \<Longrightarrow> line_value l \<le> lines_value ls"
proof (induction ls)
  case (Cons a ls)
  then show ?case
    using lines_value_nonneg [of ls] line_value_nonneg [of a] by fastforce
qed simp

lemma order_valid_total:
  "order_valid ord \<Longrightarrow> \<exists>t. total_of (lines ord) = Inr t \<and> money_eq t (total ord)"
  by (auto simp: order_valid_def total_must_match_lines_def split: sum.splits)

lemma order_valid_subtotal:
  assumes "order_valid ord" and "l \<in> set (lines ord)"
  shows "\<exists>s. subtotal l = Inr s \<and> dec_val (amount s) = line_value l"
proof -
  obtain t where t: "total_of (lines ord) = Inr t" using order_valid_total [OF assms(1)] by blast
  have valid: "list_all order_line_valid (lines ord)" using assms(1) by (simp add: order_valid_def)
  have "line_value l < 10 ^ 12"
    using line_value_le_lines [OF valid assms(2)] total_of_Inr [OF t valid] by simp
  moreover have "order_line_valid l" using valid assms(2) by (simp add: list_all_iff)
  ultimately show ?thesis using subtotal_cases [of l] by auto
qed

lemma render_line_returns:
  "order_valid ord \<Longrightarrow> l \<in> set (lines ord) \<Longrightarrow> \<exists>d. render_line l = Inr d \<and> floats_ascii d"
  using order_valid_subtotal [of ord l] by (auto simp: render_line_def)

lemma receipt_document_returns:
  assumes "order_valid ord"
  shows "\<exists>d. receipt_document ord = Inr d \<and> floats_ascii d"
proof -
  have "map_sum_list render_line (lines ord) = Inr (map (\<lambda>l. projr (render_line l)) (lines ord))"
    using render_line_returns [OF assms] by (intro map_sum_list_total) fastforce
  then show ?thesis
    using render_line_returns [OF assms]
    by (fastforce simp: receipt_document_def list_all_iff json_opt_def split: option.splits)
qed

lemma render_receipt_returns:
  assumes "order_valid ord"
  shows "\<exists>b. render_receipt ord = Inr b \<and> ascii b"
proof -
  obtain d where "receipt_document ord = Inr d" "floats_ascii d"
    using receipt_document_returns [OF assms] by blast
  then show ?thesis
    using json_dumps_ascii [of "json_sort d"] by (simp add: render_receipt_def json_dumps_sorted_def)
qed

end
