(* ===== verification/Services.thy ===== *)
theory Services
  imports MemoryAdapters ReceiptRender
begin

text \<open>
  The application services: \<open>PlaceOrder\<close> and \<open>GetOrder\<close> (\<open>services/order.py\<close>) and
  \<open>GetReceipt\<close> (\<open>services/receipt.py\<close>). Each is an effectful call over the operations of its
  ports, which are arguments. The state of \<open>PlaceOrder\<close> is the repository's and the payment
  gateway's, that of \<open>GetReceipt\<close> the repository's and the receipt store's.

  The locale \<open>ordering\<close> proves once, for every pair of adapters that keep the contracts of their
  ports, what a placed order guarantees; \<open>receipting\<close> does the same for receipts.
\<close>

section \<open>Commands\<close>

definition MAX_ORDER_TOTAL :: decimal where
  "MAX_ORDER_TOTAL = Dec False 99999999999999 (-2)"

text \<open>\<open>sum((price * quantity for ...), Decimal(0))\<close>: every product and partial sum is rounded.\<close>

definition price_sum :: "(decimal \<times> int) list \<Rightarrow> decimal" where
  "price_sum ps = foldl (\<lambda>acc (a, q). dec_add acc (dec_mul_int a q)) (dec_of_int 0) ps"

record place_order_line =
  pl_sku :: string
  pl_quantity :: int
  pl_unit_amount :: decimal
  pl_currency :: string

definition place_order_line_valid :: "place_order_line \<Rightarrow> bool" where
  "place_order_line_valid l \<longleftrightarrow>
     sku_ok (pl_sku l) \<and> quantity_ok (pl_quantity l) \<and> amount_ok (pl_unit_amount l)
     \<and> currency_ok (pl_currency l)"

definition mk_place_order_line :: "string \<Rightarrow> int \<Rightarrow> decimal \<Rightarrow> string \<Rightarrow> exn + place_order_line" where
  "mk_place_order_line s q a c =
     (let l = \<lparr>pl_sku = s, pl_quantity = q, pl_unit_amount = a, pl_currency = c\<rparr>
      in if place_order_line_valid l then Inr l else Inl (Lib PydanticValidationError))"

record place_order_command =
  cmd_customer_id :: uuid
  cmd_lines :: "place_order_line list"

definition lines_must_share_one_currency :: "string list \<Rightarrow> bool" where
  "lines_must_share_one_currency currencies \<longleftrightarrow> \<not> length (remdups currencies) > 1"

definition total_must_fit_in_money :: "(decimal \<times> int) list \<Rightarrow> bool" where
  "total_must_fit_in_money ps \<longleftrightarrow> \<not> MAX_ORDER_TOTAL < price_sum ps"

definition place_order_command_valid :: "place_order_command \<Rightarrow> bool" where
  "place_order_command_valid c \<longleftrightarrow>
     list_all place_order_line_valid (cmd_lines c) \<and> length (cmd_lines c) \<ge> 1
     \<and> lines_must_share_one_currency (map pl_currency (cmd_lines c))
     \<and> total_must_fit_in_money (map (\<lambda>l. (pl_unit_amount l, pl_quantity l)) (cmd_lines c))"

definition mk_place_order_command :: "uuid \<Rightarrow> place_order_line list \<Rightarrow> exn + place_order_command" where
  "mk_place_order_command u ls =
     (let c = \<lparr>cmd_customer_id = u, cmd_lines = ls\<rparr>
      in if place_order_command_valid c then Inr c else Inl (Lib PydanticValidationError))"

section \<open>PlaceOrder\<close>

text \<open>\<open>except (PydanticValidationError, ValueError) as exc: raise ServiceDefectError(...)\<close>.\<close>

definition as_defect :: "exn + 'a \<Rightarrow> exn + 'a" where
  "as_defect r =
     (case r of
        Inl e \<Rightarrow>
          if is_value_error e
          then Inl (Service (ServiceDefectError
            ''failed to build a valid Order from a valid PlaceOrderCommand''))
          else Inl e
      | Inr x \<Rightarrow> Inr x)"

definition build_line :: "place_order_line \<Rightarrow> exn + order_line" where
  "build_line item =
     try_then (mk_money (pl_unit_amount item) (pl_currency item)) (\<lambda>price.
       mk_order_line (pl_sku item) (pl_quantity item) price)"

definition assemble :: "place_order_command \<Rightarrow> exn + order_line list \<times> money" where
  "assemble command =
     try_then (map_sum_list build_line (cmd_lines command)) (\<lambda>ls.
       try_then (total_of ls) (\<lambda>t. Inr (ls, t)))"

text \<open>
  The whole use case; the identifier that \<open>uuid4\<close> draws is the argument \<open>i\<close>. The payment is
  authorised before the order is saved, and neither call is inside a \<open>try\<close>.
\<close>

definition place_order ::
  "(uuid \<Rightarrow> money \<Rightarrow> ('p, exn, authorisation) io) \<Rightarrow> (order \<Rightarrow> ('w, exn, unit) io) \<Rightarrow>
   uuid \<Rightarrow> place_order_command \<Rightarrow> ('w \<times> 'p, exn, order) io" where
  "place_order authorise save i command =
     and_then (lift_sum (as_defect (assemble command))) (\<lambda>(ls, t).
     and_then (on_snd (authorise i t)) (\<lambda>authorisation.
     and_then (lift_sum (as_defect
       (mk_order i (cmd_customer_id command) ls t None (Some (auth_id authorisation))))) (\<lambda>ord.
     and_then (on_fst (save ord)) (\<lambda>_. ret ord))))"

section \<open>GetOrder and GetReceipt\<close>

definition get_order :: "(uuid \<Rightarrow> ('w, exn, order option) io) \<Rightarrow> uuid \<Rightarrow> ('w, exn, order) io" where
  "get_order get i =
     and_then (get i) (\<lambda>found.
       case found of None \<Rightarrow> raise (Domain (OrderNotFoundError i)) | Some ord \<Rightarrow> ret ord)"

definition get_receipt ::
  "(uuid \<Rightarrow> ('w, exn, order option) io) \<Rightarrow> (uuid \<Rightarrow> ('s, exn, string option) io) \<Rightarrow>
   (uuid \<Rightarrow> string \<Rightarrow> ('s, exn, unit) io) \<Rightarrow> uuid \<Rightarrow> ('w \<times> 's, exn, string) io" where
  "get_receipt get rget rput i =
     and_then (on_fst (get i)) (\<lambda>found.
       case found of
         None \<Rightarrow> raise (Domain (OrderNotFoundError i))
       | Some ord \<Rightarrow>
           and_then (on_snd (rget i)) (\<lambda>stored.
             case stored of
               Some content \<Rightarrow> ret content
             | None \<Rightarrow>
                 and_then (lift_sum (render_receipt ord)) (\<lambda>content.
                   and_then (on_snd (rput i content)) (\<lambda>_. ret content))))"

section \<open>The sum of a command\<close>

text \<open>
  The rounded sum the validators compute decides exactly whether the true sum fits: it is exact
  up to \<open>10 ^ 26\<close>, and a sum beyond that stays beyond.
\<close>

definition prices_ok :: "(decimal \<times> int) list \<Rightarrow> bool" where
  "prices_ok ps \<longleftrightarrow> list_all (\<lambda>(a, q). amount_ok a \<and> quantity_ok q) ps"

definition prices_value :: "(decimal \<times> int) list \<Rightarrow> rat" where
  "prices_value ps = sum_list (map (\<lambda>(a, q). dec_val a * of_int q) ps)"

lemma price_product:
  assumes "amount_ok a" and "quantity_ok q"
  obtains m where "m < 10 ^ 24" and "dec_val a * of_int q = of_nat m / 100"
    and "dec_val (dec_mul_int a q) = of_nat m / 100"
proof -
  define l where "l = \<lparr>sku = ''x'', quantity = q, unit_price = \<lparr>amount = a, currency = ''EUR''\<rparr>\<rparr>"
  have "order_line_valid l"
    using assms by (simp add: l_def eval_simps)
  then obtain m where m: "m < 10 ^ 24" "line_value l = of_nat m / 100"
    using line_value_cents by blast
  then have val: "dec_val a * of_int q = of_nat m / 100"
    by (simp add: line_value_def l_def)
  have "0 \<le> q" using assms(2) by (simp add: quantity_ok_def)
  moreover have "m < 10 ^ PREC" using m(1) by (simp add: PREC_def)
  ultimately have "dec_val (dec_mul_int a q) = of_nat m / 100"
    using dec_mul_int_exact [of q a m] val by simp
  with m(1) val show thesis by (rule that)
qed

text \<open>The running sum is exact, or it and the true sum are both at least \<open>10 ^ 26\<close>.\<close>

definition tracks :: "decimal \<Rightarrow> rat \<Rightarrow> bool" where
  "tracks acc x \<longleftrightarrow>
     (\<exists>n. n < 10 ^ 28 \<and> x = of_nat n / 100 \<and> dec_val acc = x) \<or> (10 ^ 26 \<le> x \<and> 10 ^ 26 \<le> dec_val acc)"

lemma tracks_step:
  assumes "tracks acc x" and "dec_val b = of_nat m / 100"
  shows "tracks (dec_add acc b) (x + of_nat m / 100)"
proof (cases "dec_val acc = x \<and> x + of_nat m / 100 < 10 ^ 26")
  case True
  then obtain n where n: "x = of_nat n / 100" using assms(1) by (auto simp: tracks_def)
  then have sum: "dec_val acc + dec_val b = of_nat (n + m) / 100"
    using True assms(2) by (simp add: add_divide_distrib)
  have "(of_nat (n + m) :: rat) < of_nat (10 ^ 28)"
    using True n by (simp add: add_divide_distrib)
  then have less: "n + m < 10 ^ 28" by (simp only: of_nat_less_iff)
  then have "dec_val (dec_add acc b) = dec_val acc + dec_val b"
    using dec_add_exact [OF sum] by (simp add: PREC_def)
  then show ?thesis
    using less sum True assms(2) unfolding tracks_def by auto
next
  case False
  have ge: "10 ^ 26 \<le> dec_val acc + dec_val b" and ge': "10 ^ 26 \<le> x + of_nat m / 100"
    using False assms by (auto simp: tracks_def)
  have "10 ^ 26 \<le> dec_val (dec_add acc b)"
    using dec_add_ge_pow10 [of 26 acc b] ge by simp
  with ge' show ?thesis by (simp add: tracks_def)
qed

lemma price_fold_tracks:
  assumes "prices_ok ps" and "tracks acc x"
  shows "tracks (foldl (\<lambda>acc (a, q). dec_add acc (dec_mul_int a q)) acc ps) (x + prices_value ps)"
  using assms
proof (induction ps arbitrary: acc x)
  case Nil
  then show ?case by (simp add: prices_value_def)
next
  case (Cons p ps)
  obtain a q where p: "p = (a, q)" by (cases p)
  then obtain m where m: "dec_val a * of_int q = of_nat m / 100"
      "dec_val (dec_mul_int a q) = of_nat m / 100"
    using price_product [of a q] Cons.prems(1) by (auto simp: prices_ok_def)
  have "tracks (dec_add acc (dec_mul_int a q)) (x + dec_val a * of_int q)"
    unfolding m(1) using Cons.prems(2) m(2) by (rule tracks_step)
  then show ?case
    using Cons.IH [of "dec_add acc (dec_mul_int a q)" "x + dec_val a * of_int q"] Cons.prems(1)
    by (simp add: p prices_ok_def prices_value_def add.assoc)
qed

lemma prices_value_cents: "prices_ok ps \<Longrightarrow> \<exists>m. prices_value ps = of_nat m / 100"
proof (induction ps)
  case Nil
  then show ?case by (intro exI [of _ 0]) (simp add: prices_value_def)
next
  case (Cons p ps)
  obtain a q where p: "p = (a, q)" by (cases p)
  obtain k where "prices_value ps = of_nat k / 100" using Cons by (auto simp: prices_ok_def)
  moreover obtain m where "dec_val a * of_int q = of_nat m / 100"
    using price_product [of a q] Cons.prems p by (auto simp: prices_ok_def)
  ultimately show ?case
    by (intro exI [of _ "m + k"]) (simp add: p prices_value_def add_divide_distrib)
qed

lemma total_must_fit_iff:
  assumes ok: "prices_ok ps"
  shows "total_must_fit_in_money ps \<longleftrightarrow> prices_value ps < 10 ^ 12"
proof -
  have max: "dec_val MAX_ORDER_TOTAL = of_nat 99999999999999 / 100"
    by (simp add: MAX_ORDER_TOTAL_def dec_val_2)
  have "tracks (dec_of_int 0) 0"
    by (simp add: tracks_def dec_of_int_def dec_val_def)
  then have t: "tracks (price_sum ps) (prices_value ps)"
    using price_fold_tracks [OF ok, of "dec_of_int 0" 0] by (simp add: price_sum_def)
  obtain m where m: "prices_value ps = of_nat m / 100" using prices_value_cents [OF ok] by blast
  have less: "MAX_ORDER_TOTAL < price_sum ps \<longleftrightarrow> dec_val MAX_ORDER_TOTAL < dec_val (price_sum ps)"
    by (simp add: less_decimal_def)
  show ?thesis
  proof (cases "dec_val (price_sum ps) = prices_value ps")
    case True
    have "(of_nat 99999999999999 / 100 :: rat) < of_nat m / 100 \<longleftrightarrow>
        (of_nat 99999999999999 :: rat) < of_nat m"
      by (simp add: divide_less_cancel)
    then have "MAX_ORDER_TOTAL < price_sum ps \<longleftrightarrow> 99999999999999 < m"
      unfolding less max True m by (simp only: of_nat_less_iff)
    moreover have "prices_value ps < 10 ^ 12 \<longleftrightarrow> m < 10 ^ 14"
      unfolding m by (rule cents_bound)
    ultimately show ?thesis by (auto simp: total_must_fit_in_money_def)
  next
    case False
    then have "10 ^ 26 \<le> prices_value ps" "10 ^ 26 \<le> dec_val (price_sum ps)"
      using t by (auto simp: tracks_def)
    then show ?thesis by (auto simp: total_must_fit_in_money_def less max)
  qed
qed

section \<open>A valid command always assembles\<close>

definition line_of :: "place_order_line \<Rightarrow> order_line" where
  "line_of item =
     \<lparr>sku = pl_sku item, quantity = pl_quantity item,
      unit_price = \<lparr>amount = pl_unit_amount item, currency = pl_currency item\<rparr>\<rparr>"

definition command_lines :: "place_order_command \<Rightarrow> order_line list" where
  "command_lines command = map line_of (cmd_lines command)"

definition command_total :: "place_order_command \<Rightarrow> money" where
  "command_total command = projr (total_of (command_lines command))"

text \<open>The order a command asks for, once it is paid.\<close>

definition order_for :: "uuid \<Rightarrow> place_order_command \<Rightarrow> authorisation \<Rightarrow> order" where
  "order_for i command a =
     \<lparr>oid = i, customer_id = cmd_customer_id command, lines = command_lines command,
      total = command_total command, internal_note = None, authorisation_id = Some (auth_id a)\<rparr>"

lemma oid_order_for [simp]: "oid (order_for i command a) = i"
  by (simp add: order_for_def)

lemma line_of_valid: "place_order_line_valid item \<Longrightarrow> order_line_valid (line_of item)"
  by (simp add: place_order_line_valid_def line_of_def valid_defs)

lemma build_line_returns: "place_order_line_valid item \<Longrightarrow> build_line item = Inr (line_of item)"
  using line_of_valid [of item]
  by (simp add: build_line_def mk_money_def mk_order_line_def line_of_def order_line_valid_def)

lemma command_lines_valid:
  assumes "place_order_command_valid command"
  shows "command_lines command \<noteq> []" and "list_all order_line_valid (command_lines command)"
  using assms line_of_valid
  by (auto simp: place_order_command_valid_def command_lines_def list_all_iff)

lemma remdups_at_most_one:
  assumes "\<not> length (remdups xs) > 1" and "x \<in> set xs" and "y \<in> set xs"
  shows "x = y"
proof -
  have "card (set xs) \<le> 1" using assms(1) by (simp add: length_remdups_card_conv)
  then show "x = y" using assms(2,3) card_le_Suc0_iff_eq [of "set xs"] by auto
qed

lemma command_one_currency:
  assumes "place_order_command_valid command"
  shows "\<exists>c. one_currency c (command_lines command)"
proof -
  let ?cs = "map pl_currency (cmd_lines command)"
  have few: "\<not> length (remdups ?cs) > 1"
    using assms unfolding place_order_command_valid_def lines_must_share_one_currency_def by blast
  have mem: "currency (unit_price l) \<in> set ?cs" if "l \<in> set (command_lines command)" for l
    using that by (auto simp: command_lines_def line_of_def)
  have same: "currency (unit_price l) = currency (unit_price l')"
    if "l \<in> set (command_lines command)" "l' \<in> set (command_lines command)" for l l'
    using few mem [OF that(1)] mem [OF that(2)] by (rule remdups_at_most_one)
  have "one_currency (currency (unit_price (hd (command_lines command)))) (command_lines command)"
    unfolding one_currency_def list_all_iff
    by (intro ballI same hd_in_set command_lines_valid(1) [OF assms])
  then show ?thesis by blast
qed

lemma command_total_fits:
  assumes "place_order_command_valid command"
  shows "lines_value (command_lines command) < 10 ^ 12"
proof -
  let ?ps = "map (\<lambda>l. (pl_unit_amount l, pl_quantity l)) (cmd_lines command)"
  have "prices_ok ?ps"
    using assms by (auto simp: place_order_command_valid_def prices_ok_def list_all_iff
        place_order_line_valid_def)
  then have "prices_value ?ps < 10 ^ 12"
    using assms total_must_fit_iff by (auto simp: place_order_command_valid_def)
  moreover have "prices_value ?ps = lines_value (command_lines command)"
    by (simp add: prices_value_def lines_value_def command_lines_def line_value_def line_of_def comp_def)
  ultimately show ?thesis by simp
qed

lemma assemble_returns:
  assumes "place_order_command_valid command"
  shows "assemble command = Inr (command_lines command, command_total command)"
    and "total_of (command_lines command) = Inr (command_total command)"
    and "money_valid (command_total command)"
proof -
  obtain t where t: "total_of (command_lines command) = Inr t" "money_valid t"
    using total_of_returns [OF command_lines_valid [OF assms]] command_one_currency [OF assms]
      command_total_fits [OF assms] by blast
  have "map_sum_list build_line (cmd_lines command) = Inr (command_lines command)"
    using assms unfolding command_lines_def place_order_command_valid_def
    by (intro map_sum_list_total) (auto simp: list_all_iff build_line_returns)
  then show "assemble command = Inr (command_lines command, command_total command)"
    and "total_of (command_lines command) = Inr (command_total command)"
    and "money_valid (command_total command)"
    using t by (simp_all add: assemble_def command_total_def)
qed

lemma order_for_valid: "place_order_command_valid command \<Longrightarrow> order_valid (order_for i command a)"
  using assemble_returns [of command] command_lines_valid [of command]
  by (simp add: order_for_def order_valid_def total_must_match_lines_def money_eq_def)

lemma mk_order_for:
  assumes "place_order_command_valid command"
  shows "mk_order i (cmd_customer_id command) (command_lines command) (command_total command) None
      (Some (auth_id a)) = Inr (order_for i command a)"
  using order_for_valid [OF assms, of i a] by (simp add: mk_order_Inr_iff order_for_def)

text \<open>
  What \<open>PlaceOrder\<close> does with a valid command, whatever the adapters are: authorise, then save,
  and nothing of its own ever fails.
\<close>

definition charge_and_save ::
  "(uuid \<Rightarrow> money \<Rightarrow> ('p, exn, authorisation) io) \<Rightarrow> (order \<Rightarrow> ('w, exn, unit) io) \<Rightarrow>
   uuid \<Rightarrow> place_order_command \<Rightarrow> ('w \<times> 'p, exn, order) io" where
  "charge_and_save authorise save i command = (\<lambda>(w, p).
     case authorise i (command_total command) p of
       (Inl e, p') \<Rightarrow> (Inl e, (w, p'))
     | (Inr a, p') \<Rightarrow>
         (case save (order_for i command a) w of
            (Inl e, w') \<Rightarrow> (Inl e, (w', p'))
          | (Inr _, w') \<Rightarrow> (Inr (order_for i command a), (w', p'))))"

lemma place_order_valid:
  assumes "place_order_command_valid command"
  shows "place_order authorise save i command = charge_and_save authorise save i command"
proof
  fix wp show "place_order authorise save i command wp = charge_and_save authorise save i command wp"
    by (cases wp)
      (simp add: place_order_def charge_and_save_def assemble_returns [OF assms] as_defect_def
        mk_order_for [OF assms] split: prod.splits sum.splits)
qed

section \<open>The contract of PlaceOrder and GetOrder\<close>

locale ordering = order_repository + payment_gateway
begin

text \<open>A refusal of the gateway is passed on as it is, and the repository has not been touched.\<close>

lemma place_order_refused:
  assumes "place_order_command_valid command" and "ready p"
    and "authorise i (command_total command) p = (Inl e, p')"
  shows "place_order authorise save i command (w, p) = (Inl e, (w, p'))
    \<and> ((\<exists>r. e = Domain (PaymentDeclinedError i r)) \<or> (\<exists>m. e = Infra (PaymentUnavailableError m)))"
  using refusal [OF assms(2,3)] assms(3) by (simp add: place_order_valid [OF assms(1)] charge_and_save_def)

text \<open>A placed order is valid, is the one the command asked for, and is what the repository holds.\<close>

lemma place_order_placed:
  assumes "place_order_command_valid command" and "ready p" and "consistent w" and "orders w i = None"
    and "place_order authorise save i command (w, p) = (Inr ord, (w', p'))"
  shows "\<exists>a. authorise i (command_total command) p = (Inr a, p') \<and> ord = order_for i command a
    \<and> authorisation_ok a \<and> order_valid ord \<and> consistent w' \<and> stores (orders w) ord (orders w')"
proof -
  obtain a u where a: "authorise i (command_total command) p = (Inr a, p')"
    and ord: "ord = order_for i command a" and u: "save ord w = (Inr u, w')"
    using assms(5) by (auto simp: place_order_valid [OF assms(1)] charge_and_save_def
        split: prod.splits sum.splits)
  have "order_valid ord" using order_for_valid [OF assms(1)] ord by simp
  then show ?thesis
    using save_stores [OF assms(3) _ _ u] assms(4) ord a answer_ok [OF assms(2) a] by auto
qed

text \<open>Whatever happens, the repository gains at most this one order, and stays consistent.\<close>

lemma place_order_state:
  assumes "place_order_command_valid command" and "consistent w" and "orders w i = None"
    and "place_order authorise save i command (w, p) = (r, (w', p'))"
  shows "consistent w' \<and> (orders w' = orders w \<or>
    (\<exists>a. order_valid (order_for i command a) \<and> stores (orders w) (order_for i command a) (orders w')))"
proof (cases "authorise i (command_total command) p")
  case (Pair x p1)
  show ?thesis
  proof (cases x)
    case (Inl e)
    then show ?thesis
      using Pair assms(2,4) by (auto simp: place_order_valid [OF assms(1)] charge_and_save_def)
  next
    case (Inr a)
    obtain y where y: "save (order_for i command a) w = (y, w')"
      using Inr Pair assms(4) by (auto simp: place_order_valid [OF assms(1)] charge_and_save_def
          split: prod.splits sum.splits)
    have v: "order_valid (order_for i command a)" by (rule order_for_valid [OF assms(1)])
    have free: "orders w (oid (order_for i command a)) = None" using assms(3) by simp
    show ?thesis
      using save_stores [OF assms(2) v free] save_fails [OF assms(2) v free] y v
      by (cases y) blast+
  qed
qed

lemma place_order_ready:
  "place_order_command_valid command \<Longrightarrow> ready p \<Longrightarrow>
    place_order authorise save i command (w, p) = (r, (w', p')) \<Longrightarrow> ready p'"
  using stays_ready [of p i "command_total command"]
  by (auto simp: place_order_valid charge_and_save_def split: prod.splits sum.splits)

lemma get_order_reads:
  assumes "consistent w" and "get_order get i w = (r, w')"
  shows "consistent w' \<and> orders w' = orders w"
    and "r = Inr ord \<Longrightarrow> orders w i = Some ord"
    and "get i w = (Inr x, w1) \<Longrightarrow> orders w i = None \<Longrightarrow> r = Inl (Domain (OrderNotFoundError i))"
proof -
  show "consistent w' \<and> orders w' = orders w"
    using assms get_keeps [OF assms(1), of i]
    by (auto simp: get_order_def and_then_def split: prod.splits sum.splits option.splits)
  show "orders w i = Some ord" if "r = Inr ord"
    using that assms get_returns [OF assms(1), of i]
    by (fastforce simp: get_order_def and_then_def split: prod.splits sum.splits option.splits)
  show "r = Inl (Domain (OrderNotFoundError i))" if "get i w = (Inr x, w1)" "orders w i = None"
    using that assms get_returns [OF assms(1), of i x w1] by (simp add: get_order_def and_then_def)
qed

lemma placed_order_reads_back:
  assumes "place_order_command_valid command" and "ready p" and "consistent w" and "orders w i = None"
    and "place_order authorise save i command (w, p) = (Inr ord, (w', p'))"
    and "get_order get i w' = (Inr found, w2)"
  shows "order_eq found ord"
proof -
  obtain a where "ord = order_for i command a" "consistent w'" "stores (orders w) ord (orders w')"
    using place_order_placed [OF assms(1-5)] by blast
  then show ?thesis
    using get_order_reads(2) [OF _ assms(6)] stores_this by fastforce
qed

end

section \<open>The contract of GetReceipt\<close>

locale receipting =
  order_repository get save orders consistent + store: receipt_store rget rput receipts
  for get :: "uuid \<Rightarrow> ('w, exn, order option) io"
    and save :: "order \<Rightarrow> ('w, exn, unit) io"
    and orders :: "'w \<Rightarrow> uuid \<rightharpoonup> order"
    and consistent :: "'w \<Rightarrow> bool"
    and rget :: "uuid \<Rightarrow> ('s, exn, string option) io"
    and rput :: "uuid \<Rightarrow> string \<Rightarrow> ('s, exn, unit) io"
    and receipts :: "'s \<Rightarrow> uuid \<rightharpoonup> string"
begin

text \<open>Every stored receipt is the rendering of the order that has its identifier.\<close>

definition receipts_faithful :: "'w \<Rightarrow> 's \<Rightarrow> bool" where
  "receipts_faithful w s \<longleftrightarrow>
     (\<forall>i c. receipts s i = Some c \<longrightarrow> (\<exists>ord. orders w i = Some ord \<and> render_receipt ord = Inr c))"

text \<open>An identifier no order has never reaches the store.\<close>

lemma get_receipt_unknown:
  assumes "consistent w" and "orders w i = None"
    and "get_receipt get rget rput i (w, s) = (r, (w', s'))"
  shows "s' = s \<and> (\<exists>e. r = Inl e)
    \<and> (\<forall>x w1. get i w = (Inr x, w1) \<longrightarrow> r = Inl (Domain (OrderNotFoundError i)))"
proof (cases "get i w")
  case (Pair x w1)
  then show ?thesis
    using assms get_returns [OF assms(1), of i _ w1]
    by (cases x) (auto simp: get_receipt_def)
qed

lemma get_receipt_repo:
  assumes "consistent w" and "get_receipt get rget rput i (w, s) = (r, (w', s'))"
  shows "consistent w' \<and> orders w' = orders w"
  using assms(2) get_keeps [OF assms(1), of i]
  by (auto simp: get_receipt_def split: prod.splits sum.splits option.splits)

text \<open>
  The three ways the store can end: as it was, or with the rendering of the order added under
  its own identifier where there was nothing.
\<close>

lemma get_receipt_store:
  assumes "consistent w" and "get_receipt get rget rput i (w, s) = (r, (w', s'))"
  shows "receipts s' = receipts s \<or>
    (\<exists>ord c. orders w i = Some ord \<and> render_receipt ord = Inr c \<and> receipts s i = None
      \<and> receipts s' = (receipts s)(i \<mapsto> c))"
  using assms(2)
proof (cases "get i w")
  case (Pair x w1)
  show ?thesis
  proof (cases "\<exists>ord. x = Inr (Some ord)")
    case False
    then show ?thesis
      using Pair assms(2) by (auto simp: get_receipt_def split: sum.splits option.splits)
  next
    case True
    then obtain ord where x: "x = Inr (Some ord)" by blast
    have ord: "orders w i = Some ord" using get_returns [OF assms(1), of i "Some ord" w1] Pair x by simp
    obtain y s1 where y: "rget i s = (y, s1)" by (cases "rget i s")
    have s1: "receipts s1 = receipts s" by (rule store.get_keeps [OF y])
    show ?thesis
    proof (cases "y = Inr None")
      case False
      then show ?thesis
        using Pair x y s1 assms(2)
        by (auto simp: get_receipt_def split: sum.splits option.splits)
    next
      case True
      then have none: "receipts s i = None" using store.get_returns y by metis
      show ?thesis
      proof (cases "render_receipt ord")
        case (Inl e)
        then show ?thesis using Pair x y True s1 assms(2) by (auto simp: get_receipt_def)
      next
        case (Inr c)
        then obtain z where "rput i c s1 = (z, s')"
          using Pair x y True assms(2)
          by (auto simp: get_receipt_def split: prod.splits sum.splits)
        then have "receipts s' = receipts s1 \<or> receipts s' = (receipts s1)(i \<mapsto> c)"
          using store.put_stores store.put_fails by (cases z) blast+
        then show ?thesis using s1 none ord Inr by auto
      qed
    qed
  qed
qed

text \<open>What is returned is what the store holds from then on.\<close>

lemma get_receipt_returns:
  assumes "consistent w" and "get_receipt get rget rput i (w, s) = (Inr c, (w', s'))"
  shows "receipts s' i = Some c
    \<and> (receipts s i = Some c \<or> receipts s i = None \<and> (\<exists>ord. orders w i = Some ord \<and> render_receipt ord = Inr c))"
proof -
  obtain ord w1 where g: "get i w = (Inr (Some ord), w1)"
    using assms(2) by (auto simp: get_receipt_def split: prod.splits sum.splits option.splits)
  then have ord: "orders w i = Some ord" using get_returns [OF assms(1)] by fastforce
  obtain y s1 where y: "rget i s = (Inr y, s1)"
    using assms(2) g by (auto simp: get_receipt_def split: prod.splits sum.splits)
  have s1: "receipts s1 = receipts s" and yv: "y = receipts s i"
    using store.get_keeps [OF y] store.get_returns [OF y] by auto
  show ?thesis
  proof (cases y)
    case (Some c0)
    then show ?thesis using assms(2) g y s1 yv by (auto simp: get_receipt_def)
  next
    case None
    obtain u where "rput i c s1 = (Inr u, s')" "render_receipt ord = Inr c"
      using assms(2) g y None
      by (auto simp: get_receipt_def split: prod.splits sum.splits)
    then show ?thesis using store.put_stores s1 ord yv None by fastforce
  qed
qed

lemma get_receipt_faithful:
  assumes "consistent w" and "receipts_faithful w s"
    and "get_receipt get rget rput i (w, s) = (r, (w', s'))"
  shows "receipts_faithful w' s'"
  using get_receipt_store [OF assms(1,3)] get_receipt_repo [OF assms(1,3)] assms(2)
  by (auto simp: receipts_faithful_def split: if_splits)

text \<open>A second read, while the store keeps the object, returns the same bytes.\<close>

lemma get_receipt_again:
  assumes "consistent w" and "get_receipt get rget rput i (w, s) = (Inr c, (w1, s1))"
    and "consistent w2" and "receipts s2 i = receipts s1 i"
    and "get_receipt get rget rput i (w2, s2) = (Inr c', (w3, s3))"
  shows "c' = c \<and> receipts s3 i = Some c"
  using get_receipt_returns [OF assms(1,2)] get_receipt_returns [OF assms(3,5)] assms(4) by auto

end

section \<open>The use cases over the in-memory adapters\<close>

interpretation mem_ordering: ordering
  mem_order_get mem_order_save mem_order_map mem_orders_ok mem_authorise "\<lambda>us. True"
  by unfold_locales

interpretation mem_receipting: receipting
  mem_order_get mem_order_save mem_order_map mem_orders_ok
  mem_receipt_get mem_receipt_put mem_receipt_map
  by unfold_locales

section \<open>A sample command\<close>

text \<open>What the seed sends for the order \<open>mixed-basket\<close>.\<close>

definition basket_command :: place_order_command where
  "basket_command =
     \<lparr>cmd_customer_id = 2,
      cmd_lines = [\<lparr>pl_sku = ''mug-ceramic'', pl_quantity = 4, pl_unit_amount = Dec False 990 (-2),
                    pl_currency = ''EUR''\<rparr>,
                   \<lparr>pl_sku = ''spoon-set'', pl_quantity = 1, pl_unit_amount = Dec False 1240 (-2),
                    pl_currency = ''EUR''\<rparr>]\<rparr>"

lemma command_lines_basket: "command_lines basket_command = [mug_line, spoon_line]"
  by (simp add: command_lines_def basket_command_def line_of_def mug_line_def spoon_line_def)

lemma command_valid_iff:
  "place_order_command_valid command \<longleftrightarrow>
     cmd_lines command \<noteq> [] \<and> list_all place_order_line_valid (cmd_lines command)
     \<and> one_currency (pl_currency (hd (cmd_lines command))) (command_lines command)
     \<and> lines_value (command_lines command) < 10 ^ 12"
  (is "?l \<longleftrightarrow> ?r")
proof
  assume valid: ?l
  obtain c where "one_currency c (command_lines command)" using command_one_currency [OF valid] by blast
  moreover have "cmd_lines command \<noteq> []" and "list_all place_order_line_valid (cmd_lines command)"
    using valid by (auto simp: place_order_command_valid_def)
  ultimately show ?r
    using command_total_fits [OF valid]
    by (cases "cmd_lines command") (auto simp: command_lines_def line_of_def)
next
  assume r: ?r
  let ?ps = "map (\<lambda>l. (pl_unit_amount l, pl_quantity l)) (cmd_lines command)"
  have "prices_ok ?ps"
    using r by (auto simp: prices_ok_def list_all_iff place_order_line_valid_def)
  moreover have "prices_value ?ps = lines_value (command_lines command)"
    by (simp add: prices_value_def lines_value_def command_lines_def line_value_def line_of_def comp_def)
  ultimately have fit: "total_must_fit_in_money ?ps" using r total_must_fit_iff by simp
  have "set (map pl_currency (cmd_lines command)) \<subseteq> {pl_currency (hd (cmd_lines command))}"
  proof
    fix c assume "c \<in> set (map pl_currency (cmd_lines command))"
    then obtain l where "l \<in> set (cmd_lines command)" and "c = pl_currency l" by auto
    moreover have "list_all (\<lambda>l. currency (unit_price l) = pl_currency (hd (cmd_lines command)))
        (command_lines command)"
      using r unfolding one_currency_def by blast
    ultimately show "c \<in> {pl_currency (hd (cmd_lines command))}"
      by (simp add: command_lines_def list_all_iff line_of_def)
  qed
  then have "card (set (map pl_currency (cmd_lines command))) \<le> 1"
    using card_mono [of "{pl_currency (hd (cmd_lines command))}"] by fastforce
  then have "\<not> length (remdups (map pl_currency (cmd_lines command))) > 1"
    unfolding length_remdups_card_conv by simp
  then show ?l
    using r fit unfolding place_order_command_valid_def lines_must_share_one_currency_def
    by (simp add: Suc_le_eq)
qed

lemma basket_command_valid: "place_order_command_valid basket_command"
proof -
  have "lines_value [mug_line, spoon_line] = 52"
    by (simp add: mug_line_def spoon_line_def eval_simps)
  then show ?thesis
    unfolding command_valid_iff command_lines_basket
    by (simp add: basket_command_def place_order_line_valid_def mug_line_def spoon_line_def eval_simps
        del: lines_value_simps)
qed

section \<open>Properties\<close>

text \<open>
  C3: the validators of \<open>PlaceOrderCommand\<close> are exact. A command is constructed just when it has a
  line, every line is valid, all share one currency and the exact sum of price times quantity is
  below \<open>10 ^ 12\<close>, although the sum they compare is rounded to 28 digits at every step.
\<close>

theorem place_order_command_exact:
  "mk_place_order_command u ls =
     (if ls \<noteq> [] \<and> list_all place_order_line_valid ls
         \<and> one_currency (pl_currency (hd ls)) (map line_of ls) \<and> lines_value (map line_of ls) < 10 ^ 12
      then Inr \<lparr>cmd_customer_id = u, cmd_lines = ls\<rparr>
      else Inl (Lib PydanticValidationError))"
  by (simp add: mk_place_order_command_def Let_def command_valid_iff command_lines_def)

text \<open>
  C4: on a valid command \<open>PlaceOrder\<close> never raises \<open>ServiceDefectError\<close> of its own. It authorises
  the exact total first; if that fails the error passes through and nothing is saved; otherwise it
  saves the order the command asks for, which is valid and carries the authorisation, and a
  failing save passes through as it is.
\<close>

theorem place_order_no_defect:
  assumes "place_order_command_valid command"
  shows "place_order authorise save i command = charge_and_save authorise save i command
    \<and> order_valid (order_for i command a)
    \<and> dec_val (amount (command_total command)) = lines_value (command_lines command)"
  using place_order_valid [OF assms] order_for_valid [OF assms]
    total_of_Inr [OF assemble_returns(2) [OF assms] command_lines_valid(2) [OF assms]]
  by blast

theorem place_order_no_defect_witness:
  "place_order mem_authorise mem_order_save 1 basket_command (mem_orders_init, [5]) =
     (Inr (order_for 1 basket_command \<lparr>auth_id = ''auth_'' @ uuid_hex 5\<rparr>),
      (\<lparr>mem_order_map = [1 \<mapsto> order_for 1 basket_command \<lparr>auth_id = ''auth_'' @ uuid_hex 5\<rparr>]\<rparr>, []))"
  using place_order_no_defect [OF basket_command_valid, of mem_authorise mem_order_save 1]
  by (simp add: charge_and_save_def mem_authorise_eq mem_order_save_def mem_orders_init_def)

text \<open>
  C5: over any repository and gateway that keep their contracts, an order that \<open>PlaceOrder\<close>
  returned is valid, is stored, and a later \<open>GetOrder\<close> that returns gives back an equal order; every
  other identifier still holds what it held.
\<close>

theorem placed_order_is_readable:
  assumes "ordering get save orders consistent authorise ready"
    and "place_order_command_valid command" and "ready p" and "consistent w" and "orders w i = None"
    and "place_order authorise save i command (w, p) = (Inr ord, (w', p'))"
  shows "order_valid ord \<and> oid ord = i \<and> consistent w' \<and> stores (orders w) ord (orders w')
    \<and> (\<forall>found w2. get_order get i w' = (Inr found, w2) \<longrightarrow> order_eq found ord)"
  using ordering.place_order_placed [OF assms] ordering.placed_order_reads_back [OF assms] by auto

theorem placed_order_is_readable_witness:
  "\<exists>ord w' p'. place_order mem_authorise mem_order_save 1 basket_command (mem_orders_init, [5]) =
      (Inr ord, (w', p'))
    \<and> get_order mem_order_get 1 w' = (Inr ord, w') \<and> order_valid ord \<and> oid ord = 1"
proof -
  let ?ord = "order_for 1 basket_command \<lparr>auth_id = ''auth_'' @ uuid_hex 5\<rparr>"
  have run: "place_order mem_authorise mem_order_save 1 basket_command (mem_orders_init, [5]) =
      (Inr ?ord, (\<lparr>mem_order_map = [1 \<mapsto> ?ord]\<rparr>, []))"
    by (simp add: place_order_valid [OF basket_command_valid] charge_and_save_def mem_authorise_eq
        mem_order_save_def mem_orders_init_def)
  have "order_valid ?ord"
    using placed_order_is_readable [OF mem_ordering.ordering_axioms basket_command_valid _ _ _ run]
    by (simp add: mem_orders_init_def mem_orders_ok_def)
  then show ?thesis
    using run by (simp add: get_order_def mem_order_get_def and_then_def)
qed

text \<open>
  A payment that is declined or unavailable leaves the order repository exactly as it was: the
  gateway's error reaches the caller unchanged, and it is one of those two.
\<close>

theorem refused_payment_saves_nothing:
  assumes "ordering get save orders consistent authorise ready"
    and "place_order_command_valid command" and "ready p"
    and "authorise i (command_total command) p = (Inl e, p')"
  shows "place_order authorise save i command (w, p) = (Inl e, (w, p'))
    \<and> ((\<exists>r. e = Domain (PaymentDeclinedError i r)) \<or> (\<exists>m. e = Infra (PaymentUnavailableError m)))"
  using ordering.place_order_refused [OF assms] .

text \<open>A gateway that declines everything.\<close>

definition declining :: "uuid \<Rightarrow> money \<Rightarrow> (unit, exn, authorisation) io" where
  "declining i t p = (Inl (Domain (PaymentDeclinedError i ''insufficient funds'')), p)"

lemma declining_ordering:
  "ordering mem_order_get mem_order_save mem_order_map mem_orders_ok declining (\<lambda>p. True)"
  by (intro ordering.intro payment_gateway.intro mem_repo.order_repository_axioms)
    (auto simp: declining_def)

theorem refused_payment_saves_nothing_witness:
  "place_order declining mem_order_save 1 basket_command (mem_orders_init, ()) =
     (Inl (Domain (PaymentDeclinedError 1 ''insufficient funds'')), (mem_orders_init, ()))"
  using refused_payment_saves_nothing
    [OF declining_ordering basket_command_valid, where i = 1 and p = "()" and w = mem_orders_init]
  by (simp add: declining_def)

text \<open>
  C13: rendering a valid order always succeeds, gives plain ASCII bytes, and the internal note has no
  influence on them: whatever it says, the receipt is the same.
\<close>

theorem receipt_ignores_internal_note:
  assumes "order_valid ord"
  shows "\<exists>b. render_receipt ord = Inr b \<and> ascii b
    \<and> (\<forall>note. render_receipt (ord\<lparr>internal_note := note\<rparr>) = Inr b)"
proof -
  have "render_receipt (ord\<lparr>internal_note := n\<rparr>) = render_receipt ord" for n
    by (simp add: render_receipt_def receipt_document_def)
  then show ?thesis using render_receipt_returns [OF assms] by auto
qed

theorem receipt_ignores_internal_note_witness:
  "internal_note basket_order = Some ''fragile''
   \<and> (\<exists>b. render_receipt basket_order = Inr b \<and> ascii b
        \<and> render_receipt (basket_order\<lparr>internal_note := None\<rparr>) = Inr b)"
  using receipt_ignores_internal_note [OF basket_order_valid] by (auto simp: basket_order_def)

text \<open>
  Over any repository and store that keep their contracts, a receipt that was returned is
  returned again, byte for byte, by every later read while the store keeps the object, and what was
  returned first is what the store holds.
\<close>

theorem receipt_is_stable:
  assumes "receipting get save orders consistent rget rput receipts"
    and "consistent w" and "get_receipt get rget rput i (w, s) = (Inr c, (w1, s1))"
    and "consistent w2" and "receipts s2 i = receipts s1 i"
    and "get_receipt get rget rput i (w2, s2) = (Inr c', (w3, s3))"
  shows "c' = c \<and> receipts s1 i = Some c \<and> receipts s3 i = Some c"
  using receipting.get_receipt_again [OF assms] receipting.get_receipt_returns [OF assms(1-3)] by blast

definition basket_world :: mem_orders where
  "basket_world = \<lparr>mem_order_map = [1 \<mapsto> basket_order]\<rparr>"

lemma basket_world_ok: "mem_orders_ok basket_world"
  using basket_order_valid by (auto simp: mem_orders_ok_def basket_world_def basket_order_def)

lemma basket_receipt_run:
  "\<exists>c. render_receipt basket_order = Inr c
    \<and> get_receipt mem_order_get mem_receipt_get mem_receipt_put 1 (basket_world, \<lparr>mem_receipt_map = Map.empty\<rparr>)
        = (Inr c, (basket_world, \<lparr>mem_receipt_map = [1 \<mapsto> c]\<rparr>))
    \<and> get_receipt mem_order_get mem_receipt_get mem_receipt_put 1 (basket_world, \<lparr>mem_receipt_map = [1 \<mapsto> c]\<rparr>)
        = (Inr c, (basket_world, \<lparr>mem_receipt_map = [1 \<mapsto> c]\<rparr>))"
  using render_receipt_returns [OF basket_order_valid]
  by (auto simp: get_receipt_def mem_order_get_def mem_receipt_get_def mem_receipt_put_def basket_world_def)

theorem receipt_is_stable_witness:
  "\<exists>c s1. get_receipt mem_order_get mem_receipt_get mem_receipt_put 1 (basket_world, \<lparr>mem_receipt_map = Map.empty\<rparr>)
      = (Inr c, (basket_world, s1))
    \<and> get_receipt mem_order_get mem_receipt_get mem_receipt_put 1 (basket_world, s1) = (Inr c, (basket_world, s1))
    \<and> mem_receipt_map s1 1 = Some c"
proof -
  obtain c where c: "get_receipt mem_order_get mem_receipt_get mem_receipt_put 1
        (basket_world, \<lparr>mem_receipt_map = Map.empty\<rparr>) = (Inr c, (basket_world, \<lparr>mem_receipt_map = [1 \<mapsto> c]\<rparr>))"
      "get_receipt mem_order_get mem_receipt_get mem_receipt_put 1
        (basket_world, \<lparr>mem_receipt_map = [1 \<mapsto> c]\<rparr>) = (Inr c, (basket_world, \<lparr>mem_receipt_map = [1 \<mapsto> c]\<rparr>))"
    using basket_receipt_run by blast
  then show ?thesis
    using receipt_is_stable [OF mem_receipting.receipting_axioms basket_world_ok c(1) basket_world_ok _ c(2)]
    by auto
qed

text \<open>
  Asking for the receipt of an identifier without an order never reaches the receipt store and
  never returns bytes; when the repository answers, the error is \<open>OrderNotFoundError\<close> for it.
\<close>

theorem unknown_receipt_skips_store:
  assumes "receipting get save orders consistent rget rput receipts"
    and "consistent w" and "orders w i = None"
    and "get_receipt get rget rput i (w, s) = (r, (w', s'))"
  shows "s' = s \<and> (\<exists>e. r = Inl e)
    \<and> (\<forall>x w1. get i w = (Inr x, w1) \<longrightarrow> r = Inl (Domain (OrderNotFoundError i)))"
  using receipting.get_receipt_unknown [OF assms] .

theorem unknown_receipt_skips_store_witness:
  "get_receipt mem_order_get mem_receipt_get mem_receipt_put 7 (basket_world, \<lparr>mem_receipt_map = Map.empty\<rparr>)
     = (Inl (Domain (OrderNotFoundError 7)), (basket_world, \<lparr>mem_receipt_map = Map.empty\<rparr>))"
proof -
  have free: "mem_order_map basket_world 7 = None" by (simp add: basket_world_def)
  obtain r w' s' where run: "get_receipt mem_order_get mem_receipt_get mem_receipt_put 7
      (basket_world, \<lparr>mem_receipt_map = Map.empty\<rparr>) = (r, (w', s'))" by (metis prod.exhaust)
  then have "w' = basket_world"
    by (auto simp: get_receipt_def mem_order_get_def free)
  then show ?thesis
    using run unknown_receipt_skips_store [OF mem_receipting.receipting_axioms basket_world_ok free run]
    by (simp add: mem_order_get_def)
qed

end
