(* ===== verification/CacheRepo.thy ===== *)
theory CacheRepo
  imports Services "HOL-Library.Countable"
begin

text \<open>
  The caching decorator over the order repository (\<open>infrastructure/cache/order_repository.py\<close>).
  Its state is the wrapped repository's, the Redis server's and the log. redis-py and Pydantic's
  JSON codec are arguments; the locale \<open>caching\<close> states what the code relies on: a read returns
  what some write under that key stored or nothing (entries may expire or be evicted at any
  time), a successful delete removes the key, and a dumped order parses back.

  Inside the locale: every failure of Redis is absorbed (\<open>cached_get_fails_open\<close>), the cache
  never serves anything the repository would not (\<open>coherent\<close>, kept by every operation on fresh
  orders), so the decorated repository keeps the contract of the port (\<open>sublocale\<close>). The
  interleaved system \<open>cstep\<close> shows the same with any number of readers between the steps of a
  writer, as long as an order is written once.
\<close>

section \<open>The decorator\<close>

definition CACHE_KEY_PREFIX :: string where
  "CACHE_KEY_PREFIX = ''order:v1:''"

definition cache_key :: "uuid \<Rightarrow> string" where
  "cache_key i = CACHE_KEY_PREFIX @ uuid_str i"

lemma cache_key_inject [simp]: "cache_key i = cache_key j \<longleftrightarrow> i = j"
  by (simp add: cache_key_def uuid_str_inject)

definition cache_read ::
  "(string \<Rightarrow> ('c, exn, string option) io) \<Rightarrow> (string \<Rightarrow> exn + order) \<Rightarrow> string \<Rightarrow>
   ('c \<times> log_line list, exn, order option) io" where
  "cache_read rget model_validate_json key =
     and_then
       (catch (and_then (on_fst (rget key)) (\<lambda>raw. ret (Some raw))) (\<lambda>e.
          and_then (warn ''cache.read_failed'' [(''key'', key)]) (\<lambda>_. ret None)))
       (\<lambda>raw.
          case raw of
            None \<Rightarrow> ret None
          | Some None \<Rightarrow> ret None
          | Some (Some payload) \<Rightarrow>
              catch (lift_sum (map_sum id Some (model_validate_json payload))) (\<lambda>e.
                if e = Lib PydanticValidationError
                then and_then (warn ''cache.payload_rejected'' [(''key'', key)]) (\<lambda>_. ret None)
                else raise e))"

definition cache_write ::
  "(string \<Rightarrow> string \<Rightarrow> int \<Rightarrow> ('c, exn, unit) io) \<Rightarrow> (order \<Rightarrow> string) \<Rightarrow> int \<Rightarrow> string \<Rightarrow> order \<Rightarrow>
   ('c \<times> log_line list, exn, unit) io" where
  "cache_write rset model_dump_json ttl key ord =
     catch (on_fst (rset key (model_dump_json ord) ttl)) (\<lambda>e.
       warn ''cache.write_failed'' [(''key'', key)])"

definition cache_invalidate ::
  "(string \<Rightarrow> ('c, exn, unit) io) \<Rightarrow> string \<Rightarrow> ('c \<times> log_line list, exn, unit) io" where
  "cache_invalidate rdel key =
     catch (on_fst (rdel key)) (\<lambda>e. warn ''cache.invalidate_failed'' [(''key'', key)])"

definition cached_get ::
  "(uuid \<Rightarrow> ('w, exn, order option) io) \<Rightarrow> (string \<Rightarrow> ('c, exn, string option) io) \<Rightarrow>
   (string \<Rightarrow> string \<Rightarrow> int \<Rightarrow> ('c, exn, unit) io) \<Rightarrow> (string \<Rightarrow> exn + order) \<Rightarrow> (order \<Rightarrow> string) \<Rightarrow> int \<Rightarrow>
   uuid \<Rightarrow> ('w \<times> 'c \<times> log_line list, exn, order option) io" where
  "cached_get get rget rset model_validate_json model_dump_json ttl i =
     and_then (on_snd (cache_read rget model_validate_json (cache_key i))) (\<lambda>cached.
       case cached of
         Some ord \<Rightarrow> ret (Some ord)
       | None \<Rightarrow>
           and_then (on_fst (get i)) (\<lambda>found.
             case found of
               None \<Rightarrow> ret None
             | Some ord \<Rightarrow>
                 and_then (on_snd (cache_write rset model_dump_json ttl (cache_key i) ord)) (\<lambda>_.
                   ret (Some ord))))"

definition cached_save ::
  "(order \<Rightarrow> ('w, exn, unit) io) \<Rightarrow> (string \<Rightarrow> ('c, exn, unit) io) \<Rightarrow> order \<Rightarrow>
   ('w \<times> 'c \<times> log_line list, exn, unit) io" where
  "cached_save save rdel ord =
     and_then (on_fst (save ord)) (\<lambda>_. on_snd (cache_invalidate rdel (cache_key (oid ord))))"

section \<open>What the decorator relies on\<close>

text \<open>Whatever is under the key of an order parses to the order the repository has, or not at all.\<close>

definition cache_coherent :: "(string \<Rightarrow> exn + order) \<Rightarrow> (uuid \<rightharpoonup> order) \<Rightarrow> (string \<rightharpoonup> string) \<Rightarrow> bool" where
  "cache_coherent model_validate_json m es \<longleftrightarrow>
     (\<forall>i v ord. es (cache_key i) = Some v \<longrightarrow> model_validate_json v = Inr ord \<longrightarrow> m i = Some ord)"

text \<open>\<open>entries c\<close>: the unexpired keys and values of the server.\<close>

locale caching =
  order_repository get save orders consistent
  for get :: "uuid \<Rightarrow> ('w, exn, order option) io"
    and save :: "order \<Rightarrow> ('w, exn, unit) io"
    and orders :: "'w \<Rightarrow> uuid \<rightharpoonup> order"
    and consistent :: "'w \<Rightarrow> bool" +
  fixes rget :: "string \<Rightarrow> ('c, exn, string option) io"
    and rset :: "string \<Rightarrow> string \<Rightarrow> int \<Rightarrow> ('c, exn, unit) io"
    and rdel :: "string \<Rightarrow> ('c, exn, unit) io"
    and entries :: "'c \<Rightarrow> string \<rightharpoonup> string"
    and model_validate_json :: "string \<Rightarrow> exn + order"
    and model_dump_json :: "order \<Rightarrow> string"
  assumes rget_returns: "rget k c = (Inr (Some v), c') \<Longrightarrow> entries c k = Some v"
    and rget_keeps: "rget k c = (x, c') \<Longrightarrow> entries c' \<subseteq>\<^sub>m entries c"
    and rset_stores: "rset k v t c = (y, c') \<Longrightarrow> entries c' \<subseteq>\<^sub>m (entries c)(k \<mapsto> v) \<or> entries c' \<subseteq>\<^sub>m entries c"
    and rdel_keeps: "rdel k c = (y, c') \<Longrightarrow> entries c' \<subseteq>\<^sub>m entries c"
    and rdel_deletes: "rdel k c = (Inr u, c') \<Longrightarrow> entries c' k = None"
    and validates: "order_valid ord \<Longrightarrow> model_validate_json (model_dump_json ord) = Inr ord"
    and rejects: "model_validate_json v = Inl e \<Longrightarrow> e = Lib PydanticValidationError"
begin

abbreviation "coherent \<equiv> cache_coherent model_validate_json"
abbreviation "read_cache \<equiv> cache_read rget model_validate_json"
abbreviation "write_cache \<equiv> cache_write rset model_dump_json"

lemma coherent_mono: "coherent m es \<Longrightarrow> es' \<subseteq>\<^sub>m es \<Longrightarrow> coherent m es'"
  unfolding cache_coherent_def by (blast dest: map_leD)

lemma coherent_write:
  "coherent m es \<Longrightarrow> order_valid ord \<Longrightarrow> m i = Some ord \<Longrightarrow>
     es' \<subseteq>\<^sub>m es(cache_key i \<mapsto> model_dump_json ord) \<Longrightarrow> coherent m es'"
  by (rule coherent_mono [of m "es(cache_key i \<mapsto> model_dump_json ord)"])
    (auto simp: cache_coherent_def validates split: if_splits)

text \<open>A new identifier has nothing in a coherent cache that could be served.\<close>

lemma coherent_new: "coherent m es \<Longrightarrow> m i = None \<Longrightarrow> coherent (m(i \<mapsto> ord)) es"
  by (fastforce simp: cache_coherent_def)

lemma read_cache_returns:
  assumes "read_cache k (c, lg) = (r, (c', lg'))"
  shows "entries c' \<subseteq>\<^sub>m entries c \<and> (\<exists>found. r = Inr found
    \<and> (\<forall>ord. found = Some ord \<longrightarrow> (\<exists>v. entries c k = Some v \<and> model_validate_json v = Inr ord)))"
proof -
  obtain x c1 where x: "rget k c = (x, c1)" by (metis prod.exhaust)
  have keeps: "entries c1 \<subseteq>\<^sub>m entries c" by (rule rget_keeps [OF x])
  show ?thesis
  proof (cases "\<exists>v. x = Inr (Some v)")
    case True
    then obtain v where v: "x = Inr (Some v)" by blast
    then have "entries c k = Some v" using rget_returns x by simp
    then show ?thesis
      using assms x v keeps rejects
      by (cases "model_validate_json v") (auto simp: cache_read_def and_then_def catch_def warn_def)
  next
    case False
    then show ?thesis
      using assms x keeps
      by (auto simp: cache_read_def and_then_def catch_def warn_def split: sum.splits option.splits)
  qed
qed

lemma write_cache_returns:
  assumes "write_cache t k ord (c, lg) = (r, (c', lg'))"
  shows "r = Inr () \<and> (entries c' \<subseteq>\<^sub>m (entries c)(k \<mapsto> model_dump_json ord) \<or> entries c' \<subseteq>\<^sub>m entries c)"
proof -
  obtain x c1 where "rset k (model_dump_json ord) t c = (x, c1)" by (metis prod.exhaust)
  then show ?thesis
    using assms rset_stores [of k "model_dump_json ord" t c x c1]
    by (cases x) (auto simp: cache_write_def catch_def warn_def)
qed

lemma invalidate_returns:
  assumes "cache_invalidate rdel k (c, lg) = (r, (c', lg'))"
  shows "r = Inr () \<and> entries c' \<subseteq>\<^sub>m entries c"
proof -
  obtain x c1 where "rdel k c = (x, c1)" by (metis prod.exhaust)
  then show ?thesis
    using assms rdel_keeps [of k c x c1] by (cases x) (auto simp: cache_invalidate_def catch_def warn_def)
qed

section \<open>Reads\<close>

abbreviation "read_order \<equiv> cached_get get rget rset model_validate_json model_dump_json"
abbreviation "save_order \<equiv> cached_save save rdel"

lemma read_order_cases:
  assumes "read_order t i (w, (c, lg)) = (r, (w', (c', lg')))"
  obtains (hit) ord v where "r = Inr (Some ord)" "w' = w" "entries c (cache_key i) = Some v"
      "model_validate_json v = Inr ord" "entries c' \<subseteq>\<^sub>m entries c"
    | (failed) e where "get i w = (Inl e, w')" "r = Inl e" "entries c' \<subseteq>\<^sub>m entries c"
    | (missing) "get i w = (Inr None, w')" "r = Inr None" "entries c' \<subseteq>\<^sub>m entries c"
    | (loaded) ord where "get i w = (Inr (Some ord), w')" "r = Inr (Some ord)"
        "entries c' \<subseteq>\<^sub>m (entries c)(cache_key i \<mapsto> model_dump_json ord) \<or> entries c' \<subseteq>\<^sub>m entries c"
proof -
  obtain rr c1 lg1 where rd0: "read_cache (cache_key i) (c, lg) = (rr, (c1, lg1))"
    by (metis prod.exhaust)
  then obtain found where rd: "read_cache (cache_key i) (c, lg) = (Inr found, (c1, lg1))"
      "entries c1 \<subseteq>\<^sub>m entries c"
      "\<And>ord. found = Some ord \<Longrightarrow> \<exists>v. entries c (cache_key i) = Some v \<and> model_validate_json v = Inr ord"
    using read_cache_returns [OF rd0] by auto
  show thesis
  proof (cases found)
    case (Some ord)
    then show thesis using assms rd hit by (auto simp: cached_get_def)
  next
    case None
    obtain y w1 where y: "get i w = (y, w1)" by (metis prod.exhaust)
    show thesis
    proof (cases "\<exists>ord. y = Inr (Some ord)")
      case False
      then show thesis
        using assms rd(1,2) None y failed missing by (auto simp: cached_get_def split: sum.splits option.splits)
    next
      case True
      then obtain ord where ord: "y = Inr (Some ord)" by blast
      obtain z c2 lg2 where wr: "write_cache t (cache_key i) ord (c1, lg1) = (z, (c2, lg2))"
        by (metis prod.exhaust)
      have z: "z = Inr ()" and "entries c2 \<subseteq>\<^sub>m (entries c1)(cache_key i \<mapsto> model_dump_json ord) \<or> entries c2 \<subseteq>\<^sub>m entries c1"
        using write_cache_returns [OF wr] by auto
      then have "entries c2 \<subseteq>\<^sub>m (entries c)(cache_key i \<mapsto> model_dump_json ord) \<or> entries c2 \<subseteq>\<^sub>m entries c"
        using map_le_trans [OF _ map_le_upd [OF rd(2)]] map_le_trans [OF _ rd(2)] by blast
      then show thesis using assms rd(1) None y ord wr z loaded by (auto simp: cached_get_def)
    qed
  qed
qed

text \<open>An error of a read is the repository's own: Redis adds none and hides none.\<close>

lemma cached_get_fails_open:
  "read_order t i (w, (c, lg)) = (Inl e, (w', (c', lg'))) \<Longrightarrow> get i w = (Inl e, w')"
  by (erule read_order_cases) auto

lemma read_order_coherent:
  assumes "consistent w" and "coherent (orders w) (entries c)"
    and "read_order t i (w, (c, lg)) = (r, (w', (c', lg')))"
  shows "consistent w' \<and> orders w' = orders w \<and> coherent (orders w') (entries c')
    \<and> (\<forall>found. r = Inr found \<longrightarrow> found = orders w i)"
  using assms(3)
proof (cases rule: read_order_cases)
  case (hit ord v)
  have "orders w i = Some ord" using assms(2) hit(3,4) unfolding cache_coherent_def by blast
  then show ?thesis using assms(1) coherent_mono [OF assms(2) hit(5)] hit(1,2) by simp
next
  case (failed e)
  then show ?thesis using coherent_mono [OF assms(2) failed(3)] get_keeps [OF assms(1) failed(1)] by simp
next
  case missing
  then show ?thesis
    using coherent_mono [OF assms(2) missing(3)] get_keeps [OF assms(1) missing(1)]
      get_returns [OF assms(1) missing(1)] by simp
next
  case (loaded ord)
  have w': "consistent w'" "orders w' = orders w" and ord: "orders w i = Some ord"
    using get_keeps [OF assms(1) loaded(1)] get_returns [OF assms(1) loaded(1)] by auto
  then have "order_valid ord" using keyed [OF assms(1)] by blast
  then have "coherent (orders w) (entries c')"
    using loaded(3) coherent_mono [OF assms(2)] coherent_write [OF assms(2) _ ord] by blast
  then show ?thesis using w' ord loaded(2) by simp
qed

section \<open>Writes of new orders\<close>

lemma save_order_new:
  assumes "consistent w" and "coherent (orders w) (entries c)" and "order_valid ord"
    and "orders w (oid ord) = None" and "save_order ord (w, (c, lg)) = (r, (w', (c', lg')))"
  shows "consistent w' \<and> coherent (orders w') (entries c')
    \<and> (\<forall>u. r = Inr u \<longrightarrow> stores (orders w) ord (orders w'))
    \<and> (orders w' = orders w \<or> stores (orders w) ord (orders w'))"
proof -
  obtain y w1 where y: "save ord w = (y, w1)" by (metis prod.exhaust)
  have kept: "stores (orders w) ord m \<Longrightarrow> es \<subseteq>\<^sub>m entries c \<Longrightarrow> coherent m es" for m es
    using coherent_new [OF assms(2,4)] coherent_mono by (auto simp: stores_def)
  show ?thesis
  proof (cases y)
    case (Inl e)
    then have "r = Inl e" "w' = w1" "c' = c" using assms(5) y by (auto simp: cached_save_def)
    then show ?thesis
      using save_fails [OF assms(1,3,4)] y Inl kept [of "orders w1" "entries c"] assms(2) by auto
  next
    case (Inr u)
    then have "w' = w1" and inv: "cache_invalidate rdel (cache_key (oid ord)) (c, lg) = (r, (c', lg'))"
      using assms(5) y by (auto simp: cached_save_def split: prod.splits)
    then show ?thesis
      using save_stores [OF assms(1,3,4)] y Inr kept invalidate_returns [OF inv] by auto
  qed
qed

end

sublocale caching \<subseteq> cached: order_repository
  "cached_get get rget rset model_validate_json model_dump_json t" "cached_save save rdel"
  "\<lambda>(w, c, lg). orders w" "\<lambda>(w, c, lg). consistent w \<and> coherent (orders w) (entries c)"
  for t
proof
  fix s i r s' assume ok: "case s of (w, c, lg) \<Rightarrow> consistent w \<and> coherent (orders w) (entries c)"
    and run: "cached_get get rget rset model_validate_json model_dump_json t i s = (Inr r, s')"
  obtain w c lg w' c' lg' where s: "s = (w, c, lg)" "s' = (w', c', lg')" by (metis prod.exhaust)
  have "consistent w" "coherent (orders w) (entries c)" using ok s by auto
  from read_order_coherent [OF this run [unfolded s]]
  show "r = (case s of (w, c, lg) \<Rightarrow> orders w) i" using s by simp
next
  fix s i x s' assume ok: "case s of (w, c, lg) \<Rightarrow> consistent w \<and> coherent (orders w) (entries c)"
    and run: "cached_get get rget rset model_validate_json model_dump_json t i s = (x, s')"
  obtain w c lg w' c' lg' where s: "s = (w, c, lg)" "s' = (w', c', lg')" by (metis prod.exhaust)
  have "consistent w" "coherent (orders w) (entries c)" using ok s by auto
  from read_order_coherent [OF this run [unfolded s]]
  show "(case s' of (w, c, lg) \<Rightarrow> consistent w \<and> coherent (orders w) (entries c))
      \<and> (case s' of (w, c, lg) \<Rightarrow> orders w) = (case s of (w, c, lg) \<Rightarrow> orders w)" using s by auto
next
  fix s ord u s' assume ok: "case s of (w, c, lg) \<Rightarrow> consistent w \<and> coherent (orders w) (entries c)"
    and ord: "order_valid ord" "(case s of (w, c, lg) \<Rightarrow> orders w) (oid ord) = None"
    and run: "cached_save save rdel ord s = (Inr u, s')"
  obtain w c lg w' c' lg' where s: "s = (w, c, lg)" "s' = (w', c', lg')" by (metis prod.exhaust)
  have "consistent w" "coherent (orders w) (entries c)" "orders w (oid ord) = None" using ok ord s by auto
  from save_order_new [OF this(1,2) ord(1) this(3) run [unfolded s]]
  show "(case s' of (w, c, lg) \<Rightarrow> consistent w \<and> coherent (orders w) (entries c))
      \<and> stores (case s of (w, c, lg) \<Rightarrow> orders w) ord (case s' of (w, c, lg) \<Rightarrow> orders w)" using s by simp
next
  fix s ord e s' assume ok: "case s of (w, c, lg) \<Rightarrow> consistent w \<and> coherent (orders w) (entries c)"
    and ord: "order_valid ord" "(case s of (w, c, lg) \<Rightarrow> orders w) (oid ord) = None"
    and run: "cached_save save rdel ord s = (Inl e, s')"
  obtain w c lg w' c' lg' where s: "s = (w, c, lg)" "s' = (w', c', lg')" by (metis prod.exhaust)
  have "consistent w" "coherent (orders w) (entries c)" "orders w (oid ord) = None" using ok ord s by auto
  from save_order_new [OF this(1,2) ord(1) this(3) run [unfolded s]]
  show "(case s' of (w, c, lg) \<Rightarrow> consistent w \<and> coherent (orders w) (entries c))
      \<and> ((case s' of (w, c, lg) \<Rightarrow> orders w) = (case s of (w, c, lg) \<Rightarrow> orders w)
        \<or> stores (case s of (w, c, lg) \<Rightarrow> orders w) ord (case s' of (w, c, lg) \<Rightarrow> orders w))" using s by simp
next
  fix s i ord assume "case s of (w, c, lg) \<Rightarrow> consistent w \<and> coherent (orders w) (entries c)"
    and "(case s of (w, c, lg) \<Rightarrow> orders w) i = Some ord"
  then show "oid ord = i \<and> order_valid ord" using keyed by (cases s) auto
qed

section \<open>A simulated Redis and a codec\<close>

record rds =
  rds_entries :: "string \<rightharpoonup> string \<times> int"
  rds_now :: int
  rds_up :: "bool list"

definition rds_live :: "rds \<Rightarrow> string \<rightharpoonup> string" where
  "rds_live c k =
     (case rds_entries c k of None \<Rightarrow> None | Some (v, t) \<Rightarrow> if rds_now c < t then Some v else None)"

text \<open>One second passes per command; the script says which commands reach the server.\<close>

definition rds_tick :: "rds \<Rightarrow> rds" where
  "rds_tick c = c\<lparr>rds_now := rds_now c + 1, rds_up := tl (rds_up c)\<rparr>"

definition rds_answers :: "rds \<Rightarrow> bool" where
  "rds_answers c = (case rds_up c of [] \<Rightarrow> True | up # ups \<Rightarrow> up)"

definition redis_down :: exn where
  "redis_down = Lib (OtherException ''ConnectionError'' [])"

definition rds_get :: "string \<Rightarrow> (rds, exn, string option) io" where
  "rds_get k c = (if rds_answers c then Inr (rds_live c k) else Inl redis_down, rds_tick c)"

definition rds_set :: "string \<Rightarrow> string \<Rightarrow> int \<Rightarrow> (rds, exn, unit) io" where
  "rds_set k v ttl c =
     (if rds_answers c
      then (Inr (), rds_tick (c\<lparr>rds_entries := (rds_entries c)(k \<mapsto> (v, rds_now c + ttl))\<rparr>))
      else (Inl redis_down, rds_tick c))"

definition rds_del :: "string \<Rightarrow> (rds, exn, unit) io" where
  "rds_del k c =
     (if rds_answers c then (Inr (), rds_tick (c\<lparr>rds_entries := (rds_entries c)(k := None)\<rparr>))
      else (Inl redis_down, rds_tick c))"

lemma rds_live_tick: "rds_live (rds_tick c) \<subseteq>\<^sub>m rds_live c"
  by (auto simp: map_le_def rds_live_def rds_tick_def split: option.splits)

lemma rds_live_set: "rds_live (c\<lparr>rds_entries := (rds_entries c)(k \<mapsto> x)\<rparr>) \<subseteq>\<^sub>m (rds_live c)(k \<mapsto> fst x)"
  by (auto simp: map_le_def rds_live_def split: option.splits prod.splits if_splits)

lemma rds_live_del: "rds_live (c\<lparr>rds_entries := (rds_entries c)(k := None)\<rparr>) \<subseteq>\<^sub>m rds_live c"
  by (auto simp: map_le_def rds_live_def split: option.splits if_splits)

text \<open>A codec over a numbering of all orders, which accepts nothing but valid orders.\<close>

instance decimal :: countable
  by countable_datatype

definition line_tuple :: "order_line \<Rightarrow> string \<times> int \<times> decimal \<times> string" where
  "line_tuple l = (sku l, quantity l, amount (unit_price l), currency (unit_price l))"

definition tuple_line :: "string \<times> int \<times> decimal \<times> string \<Rightarrow> order_line" where
  "tuple_line = (\<lambda>(s, q, a, c). \<lparr>sku = s, quantity = q, unit_price = \<lparr>amount = a, currency = c\<rparr>\<rparr>)"

type_synonym order_tuple =
  "uuid \<times> uuid \<times> (string \<times> int \<times> decimal \<times> string) list \<times> decimal \<times> string \<times> string option \<times> string option"

definition order_tuple :: "order \<Rightarrow> order_tuple" where
  "order_tuple ord =
     (oid ord, customer_id ord, map line_tuple (lines ord), amount (total ord), currency (total ord),
      internal_note ord, authorisation_id ord)"

definition tuple_order :: "order_tuple \<Rightarrow> order" where
  "tuple_order = (\<lambda>(i, c, ls, a, cur, note, auth).
     \<lparr>oid = i, customer_id = c, lines = map tuple_line ls, total = \<lparr>amount = a, currency = cur\<rparr>,
      internal_note = note, authorisation_id = auth\<rparr>)"

lemma tuple_order_order_tuple [simp]: "tuple_order (order_tuple ord) = ord"
proof -
  have "tuple_line (line_tuple l) = l" for l by (simp add: tuple_line_def line_tuple_def)
  then have "map tuple_line (map line_tuple ls) = ls" for ls by (simp add: map_idI)
  then show ?thesis by (simp add: tuple_order_def order_tuple_def del: map_map)
qed

definition codec_dump :: "order \<Rightarrow> string" where
  "codec_dump ord = nat_str (to_nat (order_tuple ord))"

definition codec_load :: "string \<Rightarrow> exn + order" where
  "codec_load s =
     (let ord = tuple_order (from_nat (nat_val s))
      in if order_valid ord then Inr ord else Inl (Lib PydanticValidationError))"

lemma codec_roundtrip: "order_valid ord \<Longrightarrow> codec_load (codec_dump ord) = Inr ord"
  by (simp add: codec_load_def codec_dump_def)

interpretation mem_cache: caching mem_order_get mem_order_save mem_order_map mem_orders_ok
  rds_get rds_set rds_del rds_live codec_load codec_dump
proof
  show "rds_live c k = Some v" if "rds_get k c = (Inr (Some v), c')" for k c v c'
    using that by (auto simp: rds_get_def split: if_splits)
  show "rds_live c' \<subseteq>\<^sub>m rds_live c" if "rds_get k c = (x, c')" for k c x c'
    using that rds_live_tick by (auto simp: rds_get_def split: if_splits)
  show "rds_live c' \<subseteq>\<^sub>m (rds_live c)(k \<mapsto> v) \<or> rds_live c' \<subseteq>\<^sub>m rds_live c"
    if "rds_set k v t c = (y, c')" for k v t c y c'
    using that rds_live_tick map_le_trans [OF rds_live_tick rds_live_set]
    by (fastforce simp: rds_set_def split: if_splits)
  show "rds_live c' \<subseteq>\<^sub>m rds_live c" if "rds_del k c = (y, c')" for k c y c'
    using that rds_live_tick map_le_trans [OF rds_live_tick rds_live_del]
    by (auto simp: rds_del_def split: if_splits)
  show "rds_live c' k = None" if "rds_del k c = (Inr u, c')" for k c u c'
    using that by (auto simp: rds_del_def rds_live_def rds_tick_def split: if_splits)
  show "codec_load (codec_dump ord) = Inr ord" if "order_valid ord" for ord
    using that by (rule codec_roundtrip)
  show "e = Lib PydanticValidationError" if "codec_load v = Inl e" for v e
    using that by (auto simp: codec_load_def Let_def split: if_splits)
qed

section \<open>Readers and writers interleaved\<close>

text \<open>
  A call in flight between two of its awaits: a reader that has missed the cache and loaded the
  order, before it writes the cache; a writer that has saved, before it invalidates. Other calls
  run in between. \<open>save\<close> is the one call site of the service: the identifier is new.
\<close>

datatype cache_call = Loaded uuid order | SavedNotInvalidated uuid

record cache_sys =
  cs_orders :: "uuid \<rightharpoonup> order"
  cs_entries :: "string \<rightharpoonup> string"
  cs_calls :: "nat \<rightharpoonup> cache_call"

inductive cstep :: "(order \<Rightarrow> string) \<Rightarrow> cache_sys \<Rightarrow> cache_sys \<Rightarrow> bool" for model_dump_json where
  reader_loads: "cs_orders s i = Some ord \<Longrightarrow>
    cstep model_dump_json s (s\<lparr>cs_calls := (cs_calls s)(k \<mapsto> Loaded i ord)\<rparr>)"
| reader_writes: "cs_calls s k = Some (Loaded i ord) \<Longrightarrow>
    es \<subseteq>\<^sub>m (cs_entries s)(cache_key i \<mapsto> model_dump_json ord) \<Longrightarrow>
    cstep model_dump_json s (s\<lparr>cs_entries := es, cs_calls := (cs_calls s)(k := None)\<rparr>)"
| writer_saves: "order_valid ord \<Longrightarrow> cs_orders s (oid ord) = None \<Longrightarrow> stores (cs_orders s) ord m \<Longrightarrow>
    cstep model_dump_json s (s\<lparr>cs_orders := m, cs_calls := (cs_calls s)(k \<mapsto> SavedNotInvalidated (oid ord))\<rparr>)"
| writer_invalidates: "cs_calls s k = Some (SavedNotInvalidated i) \<Longrightarrow> es \<subseteq>\<^sub>m cs_entries s \<Longrightarrow>
    cstep model_dump_json s (s\<lparr>cs_entries := es, cs_calls := (cs_calls s)(k := None)\<rparr>)"
| entry_expires: "es \<subseteq>\<^sub>m cs_entries s \<Longrightarrow> cstep model_dump_json s (s\<lparr>cs_entries := es\<rparr>)"

inductive cache_reaches :: "(order \<Rightarrow> string) \<Rightarrow> cache_sys \<Rightarrow> cache_sys \<Rightarrow> bool" for model_dump_json where
  refl: "cache_reaches model_dump_json s s"
| step: "cache_reaches model_dump_json s t \<Longrightarrow> cstep model_dump_json t u \<Longrightarrow> cache_reaches model_dump_json s u"

definition cache_sys_ok :: "(string \<Rightarrow> exn + order) \<Rightarrow> cache_sys \<Rightarrow> bool" where
  "cache_sys_ok model_validate_json s \<longleftrightarrow>
     cache_coherent model_validate_json (cs_orders s) (cs_entries s)
     \<and> (\<forall>i ord. cs_orders s i = Some ord \<longrightarrow> order_valid ord)
     \<and> (\<forall>k i ord. cs_calls s k = Some (Loaded i ord) \<longrightarrow> cs_orders s i = Some ord)"

lemma cache_coherent_mono:
  "cache_coherent f m es \<Longrightarrow> es' \<subseteq>\<^sub>m es \<Longrightarrow> cache_coherent f m es'"
  unfolding cache_coherent_def by (blast dest: map_leD)

lemma cstep_ok:
  assumes "cstep model_dump_json s s'" and ok: "cache_sys_ok model_validate_json s"
    and codec: "\<And>ord. order_valid ord \<Longrightarrow> model_validate_json (model_dump_json ord) = Inr ord"
  shows "cache_sys_ok model_validate_json s'"
  using assms(1)
proof cases
  case (reader_loads i ord k)
  then show ?thesis using ok by (auto simp: cache_sys_ok_def)
next
  case (reader_writes k i ord es)
  have ord: "cs_orders s i = Some ord" using ok reader_writes(2) unfolding cache_sys_ok_def by blast
  then have "order_valid ord" using ok unfolding cache_sys_ok_def by blast
  then have "cache_coherent model_validate_json (cs_orders s) ((cs_entries s)(cache_key i \<mapsto> model_dump_json ord))"
    using ok ord codec by (auto simp: cache_sys_ok_def cache_coherent_def)
  then have "cache_coherent model_validate_json (cs_orders s) es" using reader_writes(3) by (rule cache_coherent_mono)
  then show ?thesis using ok reader_writes(1) by (auto simp: cache_sys_ok_def split: if_splits)
next
  case (writer_saves ord m k)
  then obtain ord' where m: "order_valid ord'" "m = (cs_orders s)(oid ord \<mapsto> ord')"
    by (auto simp: stores_def)
  have "cache_coherent model_validate_json m (cs_entries s)"
    using ok writer_saves(3) m(2) by (fastforce simp: cache_sys_ok_def cache_coherent_def)
  moreover have "cs_calls s k' = Some (Loaded i ord0) \<Longrightarrow> m i = Some ord0" for k' i ord0
    using ok writer_saves(3) m(2) by (fastforce simp: cache_sys_ok_def)
  ultimately show ?thesis using ok writer_saves(1) m by (auto simp: cache_sys_ok_def split: if_splits)
next
  case (writer_invalidates k i es)
  then show ?thesis using ok cache_coherent_mono by (auto simp: cache_sys_ok_def split: if_splits)
next
  case (entry_expires es)
  then show ?thesis using ok cache_coherent_mono by (auto simp: cache_sys_ok_def)
qed

lemma cache_reaches_ok:
  assumes "cache_reaches model_dump_json s s'" and "cache_sys_ok model_validate_json s"
    and "\<And>ord. order_valid ord \<Longrightarrow> model_validate_json (model_dump_json ord) = Inr ord"
  shows "cache_sys_ok model_validate_json s'"
  using assms(1,2) by induction (auto intro: cstep_ok assms(3))

section \<open>Properties\<close>


definition down_redis :: rds where
  "down_redis = \<lparr>rds_entries = Map.empty, rds_now = 0, rds_up = replicate 10 False\<rparr>"


text \<open>
  The database is the truth. With a coherent cache in front of it, a read that returns gives
  exactly what the repository holds, and the cache stays coherent, whether Redis answers, expires,
  evicts or fails at any command.
\<close>

theorem cached_read_is_current:
  assumes "caching get save orders consistent rget rset rdel entries model_validate_json model_dump_json"
    and "consistent w" and "cache_coherent model_validate_json (orders w) (entries c)"
    and "cached_get get rget rset model_validate_json model_dump_json ttl i (w, (c, lg)) = (r, (w', (c', lg')))"
  shows "consistent w' \<and> orders w' = orders w
    \<and> cache_coherent model_validate_json (orders w') (entries c')
    \<and> (\<forall>found. r = Inr found \<longrightarrow> found = orders w i)"
  using caching.read_order_coherent [OF assms] .

text \<open>The second read is a hit: the repository behind it is now unavailable.\<close>

definition failing_get :: "uuid \<Rightarrow> (mem_orders, exn, order option) io" where
  "failing_get i w = (Inl (Lib (OtherException ''OperationalError'' [])), w)"

definition warm_redis :: rds where
  "warm_redis = \<lparr>rds_entries = [cache_key 1 \<mapsto> (codec_dump basket_order, 300)], rds_now = 5, rds_up = []\<rparr>"

lemma warm_redis_coherent: "cache_coherent codec_load (mem_order_map basket_world) (rds_live warm_redis)"
  by (auto simp: cache_coherent_def rds_live_def warm_redis_def basket_world_def codec_roundtrip
      basket_order_valid split: if_splits)

lemma failing_cache: "caching failing_get mem_order_save mem_order_map mem_orders_ok
    rds_get rds_set rds_del rds_live codec_load codec_dump"
proof -
  have "order_repository failing_get mem_order_save mem_order_map mem_orders_ok"
    by unfold_locales
      (auto simp: failing_get_def mem_order_save_def mem_orders_ok_def stores_self split: if_splits)
  then show ?thesis
    using mem_cache.caching_axioms by (simp add: caching_def)
qed

theorem cached_read_is_current_witness:
  "\<exists>s'. cached_get failing_get rds_get rds_set codec_load codec_dump 300 1 (basket_world, (warm_redis, [])) =
     (Inr (mem_order_map basket_world 1), s')"
proof -
  obtain r w' c' lg' where run: "cached_get failing_get rds_get rds_set codec_load codec_dump 300 1
      (basket_world, (warm_redis, [])) = (r, (w', (c', lg')))" by (metis prod.exhaust)
  have "\<exists>found. r = Inr found"
    using run by (auto simp: cached_get_def cache_read_def and_then_def catch_def rds_get_def rds_answers_def
        rds_live_def warm_redis_def codec_roundtrip basket_order_valid)
  then show ?thesis
    using cached_read_is_current [OF failing_cache basket_world_ok warm_redis_coherent run] run by auto
qed

text \<open>
  Saving a new order through the cache keeps the contract of the port: the order is stored, the
  cache stays coherent even if the invalidation fails, and a save that raised has stored this order
  or nothing.
\<close>

theorem cached_save_keeps_coherence:
  assumes "caching get save orders consistent rget rset rdel entries model_validate_json model_dump_json"
    and "consistent w" and "cache_coherent model_validate_json (orders w) (entries c)"
    and "order_valid ord" and "orders w (oid ord) = None"
    and "cached_save save rdel ord (w, (c, lg)) = (r, (w', (c', lg')))"
  shows "consistent w' \<and> cache_coherent model_validate_json (orders w') (entries c')
    \<and> (\<forall>u. r = Inr u \<longrightarrow> stores (orders w) ord (orders w'))
    \<and> (orders w' = orders w \<or> stores (orders w) ord (orders w'))"
  using caching.save_order_new [OF assms] .

theorem cached_save_keeps_coherence_witness:
  "\<exists>c' lg'. cached_save mem_order_save rds_del basket_order (mem_orders_init, (down_redis, [])) =
      (Inr (), (basket_world, (c', lg')))
    \<and> cache_coherent codec_load (mem_order_map basket_world) (rds_live c')"
proof -
  have coherent: "cache_coherent codec_load (mem_order_map mem_orders_init) (rds_live down_redis)"
    by (simp add: cache_coherent_def rds_live_def down_redis_def)
  have free: "mem_order_map mem_orders_init (oid basket_order) = None"
    by (simp add: mem_orders_init_def)
  obtain r w' c' lg' where run: "cached_save mem_order_save rds_del basket_order (mem_orders_init, (down_redis, [])) =
      (r, (w', (c', lg')))" by (metis prod.exhaust)
  then have "r = Inr ()" "w' = basket_world"
    by (auto simp: cached_save_def cache_invalidate_def catch_def warn_def rds_del_def rds_answers_def
        down_redis_def mem_order_save_def mem_orders_init_def basket_world_def basket_order_def numeral_eq_Suc)
  then show ?thesis
    using cached_save_keeps_coherence [OF mem_cache.caching_axioms mem_orders_init_ok coherent
        basket_order_valid free run] run by auto
qed

text \<open>
  C26: with any number of readers and writers in flight, interleaved between their awaits, and Redis
  free to drop writes, expire keys and ignore deletes, a cache entry never parses to anything but
  the order the repository holds, as long as an identifier is saved once.
\<close>

theorem interleaved_cache_is_coherent:
  assumes "cache_reaches model_dump_json s s'" and "cache_sys_ok model_validate_json s"
    and "\<And>ord. order_valid ord \<Longrightarrow> model_validate_json (model_dump_json ord) = Inr ord"
  shows "cache_coherent model_validate_json (cs_orders s') (cs_entries s')"
  using cache_reaches_ok [OF assms] by (simp add: cache_sys_ok_def)

definition empty_cache_sys :: cache_sys where
  "empty_cache_sys = \<lparr>cs_orders = Map.empty, cs_entries = Map.empty, cs_calls = Map.empty\<rparr>"

text \<open>A writer saves, a reader loads and fills the cache, and only then the writer invalidates, in vain.\<close>

theorem interleaved_cache_is_coherent_witness:
  "\<exists>s'. cache_reaches codec_dump empty_cache_sys s'
    \<and> cs_entries s' (cache_key 1) = Some (codec_dump basket_order)
    \<and> cache_coherent codec_load (cs_orders s') (cs_entries s')"
proof -
  let ?m = "[1 \<mapsto> basket_order]" and ?es = "[cache_key 1 \<mapsto> codec_dump basket_order]"
  let ?s1 = "empty_cache_sys\<lparr>cs_orders := ?m, cs_calls := [0 \<mapsto> SavedNotInvalidated 1]\<rparr>"
  let ?s2 = "?s1\<lparr>cs_calls := [0 \<mapsto> SavedNotInvalidated 1, 5 \<mapsto> Loaded 1 basket_order]\<rparr>"
  let ?s3 = "?s2\<lparr>cs_entries := ?es, cs_calls := [0 \<mapsto> SavedNotInvalidated 1]\<rparr>"
  let ?s4 = "?s3\<lparr>cs_entries := ?es, cs_calls := Map.empty\<rparr>"
  have o: "oid basket_order = 1" by (simp add: basket_order_def)
  have st: "stores (cs_orders empty_cache_sys) basket_order ?m"
    using stores_self [OF basket_order_valid, of Map.empty] o by (simp add: empty_cache_sys_def)
  have "cstep codec_dump empty_cache_sys ?s1"
    using cstep.writer_saves [OF basket_order_valid _ st, of codec_dump 0] o by (simp add: empty_cache_sys_def)
  moreover have "cstep codec_dump ?s1 ?s2"
    using cstep.reader_loads [of ?s1 1 basket_order codec_dump 5] by (simp add: empty_cache_sys_def)
  moreover have "cstep codec_dump ?s2 ?s3"
    using cstep.reader_writes [of ?s2 5 1 basket_order ?es codec_dump] by (simp add: empty_cache_sys_def)
  moreover have "cstep codec_dump ?s3 ?s4"
    using cstep.writer_invalidates [of ?s3 0 1 ?es codec_dump] by (simp add: empty_cache_sys_def)
  ultimately have reach: "cache_reaches codec_dump empty_cache_sys ?s4"
    by (rule cache_reaches.step [OF cache_reaches.step [OF cache_reaches.step [OF cache_reaches.step
        [OF cache_reaches.refl]]]])
  have ok: "cache_sys_ok codec_load empty_cache_sys"
    by (simp add: cache_sys_ok_def cache_coherent_def empty_cache_sys_def)
  have "cache_coherent codec_load (cs_orders ?s4) (cs_entries ?s4)"
    by (rule interleaved_cache_is_coherent [OF reach ok codec_roundtrip])
  moreover have "cs_entries ?s4 (cache_key 1) = Some (codec_dump basket_order)" by simp
  ultimately show ?thesis using reach by blast
qed

end
