(* ===== verification/S3Store.thy ===== *)
theory S3Store
  imports Services
begin

text \<open>
  The S3 receipt store (\<open>infrastructure/storage/receipt_store.py\<close>). aioboto3's \<open>get_object\<close> (with
  the reading of the body) and \<open>put_object\<close> are arguments; the locale \<open>s3_bucket\<close> states what the
  code relies on: they fail with \<open>ClientError\<close> or \<open>BotoCoreError\<close> only, a \<open>NoSuchKey\<close> or \<open>404\<close>
  means that the object is not there, and a put replaces exactly one object. The store then keeps
  the contract of its port (\<open>sublocale\<close>): distinct orders never share a key.
\<close>

section \<open>The adapter\<close>

definition KEY_PREFIX :: string where
  "KEY_PREFIX = ''receipts/v1/''"

definition receipt_key :: "uuid \<Rightarrow> string" where
  "receipt_key i = KEY_PREFIX @ uuid_str i @ ''.json''"

text \<open>\<open>isinstance(exc, (BotoCoreError, ClientError))\<close>.\<close>

fun is_s3_error :: "exn \<Rightarrow> bool" where
  "is_s3_error (Lib BotoCoreError) = True"
| "is_s3_error (Lib (ClientError c)) = True"
| "is_s3_error e = False"

definition s3_get ::
  "(string \<Rightarrow> string \<Rightarrow> ('s, exn, string) io) \<Rightarrow> string \<Rightarrow> uuid \<Rightarrow>
   ('s \<times> log_line list, exn, string option) io" where
  "s3_get get_object bucket i =
     (let key = receipt_key i
      in catch (and_then (on_fst (get_object bucket key)) (\<lambda>body. ret (Some body))) (\<lambda>e.
           case e of
             Lib (ClientError c) \<Rightarrow>
               (let code = (case c of None \<Rightarrow> '''' | Some s \<Rightarrow> s)
                in if code \<in> {''NoSuchKey'', ''404''} then ret None
                   else and_then (warn ''storage.get_failed'' [(''key'', key), (''code'', code)]) (\<lambda>_.
                          raise (Infra (StorageUnavailableError (''could not read receipt '' @ key)))))
           | Lib BotoCoreError \<Rightarrow>
               and_then (warn ''storage.get_failed'' [(''key'', key)]) (\<lambda>_.
                 raise (Infra (StorageUnavailableError (''could not read receipt '' @ key))))
           | _ \<Rightarrow> raise e))"

definition s3_put ::
  "(string \<Rightarrow> string \<Rightarrow> string \<Rightarrow> ('s, exn, unit) io) \<Rightarrow> string \<Rightarrow> uuid \<Rightarrow> string \<Rightarrow>
   ('s \<times> log_line list, exn, unit) io" where
  "s3_put put_object bucket i content =
     (let key = receipt_key i
      in catch (on_fst (put_object bucket key content)) (\<lambda>e.
           if is_s3_error e
           then and_then (warn ''storage.put_failed'' [(''key'', key)]) (\<lambda>_.
                  raise (Infra (StorageUnavailableError (''could not write receipt '' @ key))))
           else raise e))"

lemma receipt_key_inject [simp]: "receipt_key i = receipt_key j \<longleftrightarrow> i = j"
  by (simp add: receipt_key_def uuid_str_inject)

section \<open>What the adapter relies on\<close>

definition says_missing :: "exn \<Rightarrow> bool" where
  "says_missing e \<longleftrightarrow> e = Lib (ClientError (Some ''NoSuchKey'')) \<or> e = Lib (ClientError (Some ''404''))"

locale s3_bucket =
  fixes get_object :: "string \<Rightarrow> string \<Rightarrow> ('s, exn, string) io"
    and put_object :: "string \<Rightarrow> string \<Rightarrow> string \<Rightarrow> ('s, exn, unit) io"
    and bucket :: string
    and objects :: "'s \<Rightarrow> string \<rightharpoonup> string"
  assumes gets: "get_object bucket k s = (Inr b, s') \<Longrightarrow> objects s k = Some b"
    and get_raises: "get_object bucket k s = (Inl e, s') \<Longrightarrow>
      is_s3_error e \<and> (says_missing e \<longrightarrow> objects s k = None)"
    and get_keeps: "get_object bucket k s = (x, s') \<Longrightarrow> objects s' = objects s"
    and puts: "put_object bucket k b s = (Inr u, s') \<Longrightarrow> objects s' = (objects s)(k \<mapsto> b)"
    and put_raises: "put_object bucket k b s = (Inl e, s') \<Longrightarrow>
      is_s3_error e \<and> (objects s' = objects s \<or> objects s' = (objects s)(k \<mapsto> b))"
begin

text \<open>The store as the port sees it.\<close>

definition stored :: "'s \<times> log_line list \<Rightarrow> uuid \<rightharpoonup> string" where
  "stored s i = objects (fst s) (receipt_key i)"

lemma get_outcome:
  assumes "s3_get get_object bucket i (s, lg) = (r, (s', lg'))"
  shows "objects s' = objects s
    \<and> (r = Inr (objects s (receipt_key i)) \<or> (\<exists>m. r = Inl (Infra (StorageUnavailableError m))))"
proof -
  obtain x s1 where x: "get_object bucket (receipt_key i) s = (x, s1)" by (metis prod.exhaust)
  show ?thesis
  proof (cases x)
    case (Inr b)
    then show ?thesis
      using assms x gets [of "receipt_key i" s b s1] get_keeps [OF x]
      by (auto simp: s3_get_def and_then_def catch_def Let_def)
  next
    case (Inl e)
    then show ?thesis
      using assms x get_raises [of "receipt_key i" s e s1] get_keeps [OF x]
      by (cases e rule: is_s3_error.cases)
        (auto simp: s3_get_def and_then_def catch_def warn_def says_missing_def Let_def
          split: option.splits if_splits)
  qed
qed

lemma put_outcome:
  assumes "s3_put put_object bucket i c (s, lg) = (r, (s', lg'))"
  shows "(r = Inr () \<and> objects s' = (objects s)(receipt_key i \<mapsto> c))
    \<or> (\<exists>m. r = Inl (Infra (StorageUnavailableError m))
        \<and> (objects s' = objects s \<or> objects s' = (objects s)(receipt_key i \<mapsto> c)))"
proof -
  obtain x s1 where x: "put_object bucket (receipt_key i) c s = (x, s1)" by (metis prod.exhaust)
  show ?thesis
  proof (cases x)
    case (Inr u)
    then show ?thesis
      using assms x puts [of "receipt_key i" c s u s1] by (auto simp: s3_put_def catch_def Let_def)
  next
    case (Inl e)
    then show ?thesis
      using assms x put_raises [of "receipt_key i" c s e s1]
      by (auto simp: s3_put_def and_then_def catch_def warn_def Let_def)
  qed
qed

lemma stored_upd: "objects s' = (objects s)(receipt_key i \<mapsto> c) \<Longrightarrow> stored (s', lg') = (stored (s, lg))(i \<mapsto> c)"
  by (auto simp: stored_def fun_eq_iff)

lemma stored_same: "objects s' = objects s \<Longrightarrow> stored (s', lg') = stored (s, lg)"
  by (auto simp: stored_def fun_eq_iff)

end

sublocale s3_bucket \<subseteq> port: receipt_store "s3_get get_object bucket" "s3_put put_object bucket" stored
proof
  fix i s r s' assume "s3_get get_object bucket i s = (Inr r, s')"
  then show "r = stored s i"
    using get_outcome [of i "fst s" "snd s" "Inr r" "fst s'" "snd s'"] by (auto simp: stored_def)
next
  fix i s x s' assume "s3_get get_object bucket i s = (x, s')"
  then show "stored s' = stored s"
    using get_outcome [of i "fst s" "snd s" x "fst s'" "snd s'"] by (auto simp: stored_def fun_eq_iff)
next
  fix i s e s' assume "s3_get get_object bucket i s = (Inl e, s')"
  then show "\<exists>m. e = Infra (StorageUnavailableError m)"
    using get_outcome [of i "fst s" "snd s" "Inl e" "fst s'" "snd s'"] by auto
next
  fix i c s u s' assume "s3_put put_object bucket i c s = (Inr u, s')"
  then show "stored s' = (stored s)(i \<mapsto> c)"
    using put_outcome [of i c "fst s" "snd s" "Inr u" "fst s'" "snd s'"]
      stored_upd [of "fst s'" "fst s" i c "snd s'" "snd s"] by auto
next
  fix i c s e s' assume "s3_put put_object bucket i c s = (Inl e, s')"
  then show "(\<exists>m. e = Infra (StorageUnavailableError m)) \<and> (stored s' = stored s \<or> stored s' = (stored s)(i \<mapsto> c))"
    using put_outcome [of i c "fst s" "snd s" "Inl e" "fst s'" "snd s'"]
      stored_upd [of "fst s'" "fst s" i c "snd s'" "snd s"] stored_same [of "fst s'" "fst s" "snd s'" "snd s"] by auto
qed

section \<open>A simulated bucket\<close>

record s3_sim =
  s3_objects :: "string \<rightharpoonup> string"
  s3_faults :: "lib_error option list"

text \<open>The script gives the next command's fault, if any; only S3's own two errors are faults.\<close>

definition sim_fault :: "s3_sim \<Rightarrow> exn option" where
  "sim_fault s =
     (case s3_faults s of
        Some BotoCoreError # fs \<Rightarrow> Some (Lib BotoCoreError)
      | Some (ClientError (Some c)) # fs \<Rightarrow>
          if c \<in> {''NoSuchKey'', ''404''} then None else Some (Lib (ClientError (Some c)))
      | _ \<Rightarrow> None)"

definition sim_get_object :: "string \<Rightarrow> string \<Rightarrow> (s3_sim, exn, string) io" where
  "sim_get_object b k s =
     (case sim_fault s of
        Some e \<Rightarrow> Inl e
      | None \<Rightarrow> (case s3_objects s k of
                   None \<Rightarrow> Inl (Lib (ClientError (Some ''NoSuchKey''))) | Some v \<Rightarrow> Inr v),
      s\<lparr>s3_faults := tl (s3_faults s)\<rparr>)"

definition sim_put_object :: "string \<Rightarrow> string \<Rightarrow> string \<Rightarrow> (s3_sim, exn, unit) io" where
  "sim_put_object b k v s =
     (case sim_fault s of
        Some e \<Rightarrow> (Inl e, s\<lparr>s3_faults := tl (s3_faults s)\<rparr>)
      | None \<Rightarrow> (Inr (), s\<lparr>s3_objects := (s3_objects s)(k \<mapsto> v), s3_faults := tl (s3_faults s)\<rparr>))"

lemma sim_fault_error: "sim_fault s = Some e \<Longrightarrow> is_s3_error e \<and> \<not> says_missing e"
  by (auto simp: sim_fault_def says_missing_def
      split: list.splits option.splits lib_error.splits if_splits)

interpretation sim_s3: s3_bucket sim_get_object sim_put_object bucket s3_objects for bucket
  by unfold_locales
    (auto simp: sim_get_object_def sim_put_object_def says_missing_def
      dest!: sim_fault_error split: option.splits)

section \<open>Properties\<close>

text \<open>
  Reading a receipt from S3 tells absence from outage. It returns exactly what is stored for this
  order, \<open>None\<close> only when nothing is, and every failure, a missing bucket included, is
  \<open>StorageUnavailableError\<close>; reading changes nothing.
\<close>

theorem s3_get_exact_or_unavailable:
  assumes "s3_bucket get_object put_object bucket objects"
    and "s3_get get_object bucket i (s, lg) = (r, (s', lg'))"
  shows "objects s' = objects s
    \<and> (r = Inr (objects s (receipt_key i)) \<or> (\<exists>m. r = Inl (Infra (StorageUnavailableError m))))"
  using s3_bucket.get_outcome [OF assms] .

theorem s3_get_exact_or_unavailable_witness:
  "\<exists>m s'. s3_get sim_get_object ''b'' 1
     (\<lparr>s3_objects = Map.empty, s3_faults = [Some (ClientError (Some ''NoSuchBucket''))]\<rparr>, []) =
     (Inl (Infra (StorageUnavailableError m)), s')"
proof -
  let ?s = "\<lparr>s3_objects = Map.empty, s3_faults = [Some (ClientError (Some ''NoSuchBucket''))]\<rparr>"
  obtain r s' lg' where run: "s3_get sim_get_object ''b'' 1 (?s, []) = (r, (s', lg'))" by (metis prod.exhaust)
  moreover have "r \<noteq> Inr None"
    using run by (auto simp: s3_get_def and_then_def catch_def warn_def sim_get_object_def sim_fault_def Let_def)
  ultimately show ?thesis
    using s3_get_exact_or_unavailable [OF sim_s3.s3_bucket_axioms run] by auto
qed

text \<open>
  Storing a receipt replaces exactly the object of its order: after a put that returns, the store
  maps this order to the content and every other order to what it had, and a put that raises is
  \<open>StorageUnavailableError\<close> and did all of that or nothing.
\<close>

theorem s3_put_replaces_one:
  assumes "s3_bucket get_object put_object bucket objects"
    and "s3_put put_object bucket i c (s, lg) = (r, (s', lg'))"
  shows "((\<lambda>j. objects s' (receipt_key j)) = (\<lambda>j. objects s (receipt_key j))(i \<mapsto> c)
      \<or> (\<lambda>j. objects s' (receipt_key j)) = (\<lambda>j. objects s (receipt_key j)) \<and> r \<noteq> Inr ())
    \<and> (r = Inr () \<or> (\<exists>m. r = Inl (Infra (StorageUnavailableError m))))"
proof -
  have "objects s' = (objects s)(receipt_key i \<mapsto> c) \<Longrightarrow>
      (\<lambda>j. objects s' (receipt_key j)) = (\<lambda>j. objects s (receipt_key j))(i \<mapsto> c)"
    by (auto simp: fun_eq_iff)
  then show ?thesis using s3_bucket.put_outcome [OF assms] by auto
qed

theorem s3_put_replaces_one_witness:
  "\<exists>s'. s3_put sim_put_object ''b'' 1 ''r'' (\<lparr>s3_objects = [receipt_key 2 \<mapsto> ''q''], s3_faults = []\<rparr>, []) =
      (Inr (), (s', []))
    \<and> s3_objects s' (receipt_key 1) = Some ''r'' \<and> s3_objects s' (receipt_key 2) = Some ''q''"
proof -
  let ?s = "\<lparr>s3_objects = [receipt_key 2 \<mapsto> ''q''], s3_faults = []\<rparr>"
  obtain r s' lg' where run: "s3_put sim_put_object ''b'' 1 ''r'' (?s, []) = (r, (s', lg'))" by (metis prod.exhaust)
  then have r: "r = Inr ()" "lg' = []"
    by (auto simp: s3_put_def catch_def sim_put_object_def sim_fault_def Let_def)
  then have eq: "(\<lambda>j. s3_objects s' (receipt_key j)) = (\<lambda>j. s3_objects ?s (receipt_key j))(1 \<mapsto> ''r'')"
    using s3_put_replaces_one [OF sim_s3.s3_bucket_axioms run] by auto
  have "s3_objects s' (receipt_key 1) = Some ''r''" "s3_objects s' (receipt_key 2) = Some ''q''"
    using fun_cong [OF eq, of 1] fun_cong [OF eq, of 2] by simp_all
  then show ?thesis using run r by auto
qed

end
