(* ===== verification/PaymentGatewayHttp.thy ===== *)
theory PaymentGatewayHttp
  imports Breaker Services
begin

text \<open>
  The HTTP payment adapter (\<open>infrastructure/http/payment_gateway.py\<close>) with the retry predicate of
  \<open>infrastructure/http/client.py\<close>: \<open>breaker( retry( one HTTP request ) )\<close>, then the reading of the
  answer. \<open>httpx\<close>'s \<open>client.post\<close> and \<open>stamina\<close>'s retrying caller are arguments; what the code
  relies on in them is the locale \<open>http_gateway\<close>: the documented meaning of httpx's exceptions
  and of the statuses 429 and 503 (nothing was processed), and the documented loop of a retrying
  caller (\<open>retried\<close>).

  Inside the locale: a request is processed at most once however many attempts are made
  (\<open>authorise_at_most_once\<close>), and the adapter keeps the contract of the payment port
  (\<open>sublocale payment_gateway\<close>), for every answer the provider may send.
\<close>

section \<open>Statuses and the retry predicate\<close>

definition RETRYABLE_STATUS :: "nat list" where
  "RETRYABLE_STATUS = [429, 503]"

fun is_retryable :: "exn \<Rightarrow> bool" where
  "is_retryable (Lib ConnectError) = True"
| "is_retryable (Lib ConnectTimeout) = True"
| "is_retryable (Lib PoolTimeout) = True"
| "is_retryable (Lib (HTTPStatusError c)) = (c \<in> set RETRYABLE_STATUS)"
| "is_retryable e = False"

definition ANSWER_STATUSES :: "nat list" where
  "ANSWER_STATUSES = [200, 201, 402]"

section \<open>Requests, responses and Python's view of the body\<close>

record payment_request =
  pr_path :: string
  pr_order_id :: string
  pr_amount :: string
  pr_currency :: string
  pr_idempotency_key :: string

text \<open>\<open>body\<close> is what \<open>response.json()\<close> parses to, \<open>None\<close> where the bytes are not JSON.\<close>

record http_response =
  status_code :: nat
  body :: "json option"

definition response_json :: "http_response \<Rightarrow> exn + json" where
  "response_json r =
     (case body r of None \<Rightarrow> Inl (Lib (ValueError ''JSONDecodeError'')) | Some v \<Rightarrow> Inr v)"

text \<open>\<open>value.get(key, default)\<close>: only a dict has \<open>get\<close>.\<close>

fun json_get :: "json \<Rightarrow> string \<Rightarrow> json \<Rightarrow> exn + json" where
  "json_get (JObj kvs) k d = Inr (case json_field kvs k of None \<Rightarrow> d | Some v \<Rightarrow> v)"
| "json_get v k d = Inl (Lib AttributeError)"

text \<open>\<open>value[key]\<close> with a string key: a dict raises \<open>KeyError\<close>, everything else \<open>TypeError\<close>.\<close>

fun json_index :: "json \<Rightarrow> string \<Rightarrow> exn + json" where
  "json_index (JObj kvs) k =
     (case json_field kvs k of None \<Rightarrow> Inl (Lib KeyError) | Some v \<Rightarrow> Inr v)"
| "json_index v k = Inl (Lib TypeError)"

text \<open>\<open>repr\<close> of a string, and \<open>str\<close> of a parsed value (a float is carried by its text).\<close>

definition repr_char :: "char \<Rightarrow> char \<Rightarrow> string" where
  "repr_char q c =
     (let n = (of_char c :: nat)
      in if c = q \<or> n = 92 then [CHR 0x5C, c]
         else if n = 10 then [CHR 0x5C, CHR ''n'']
         else if n = 13 then [CHR 0x5C, CHR ''r'']
         else if n = 9 then [CHR 0x5C, CHR ''t'']
         else if (32 \<le> n \<and> n \<le> 126) \<or> (161 \<le> n \<and> n \<noteq> 173) then [c]
         else [CHR 0x5C, CHR ''x''] @ hex_fixed 2 n)"

definition repr_string :: "string \<Rightarrow> string" where
  "repr_string s =
     (let q = (if CHR 0x27 \<in> set s \<and> CHR 0x22 \<notin> set s then CHR 0x22 else CHR 0x27)
      in [q] @ concat (map (repr_char q) s) @ [q])"

fun py_repr :: "json \<Rightarrow> string" where
  "py_repr JNull = ''None''"
| "py_repr (JBool b) = (if b then ''True'' else ''False'')"
| "py_repr (JInt i) = int_str i"
| "py_repr (JFloat t) = t"
| "py_repr (JStr s) = repr_string s"
| "py_repr (JArr xs) = ''['' @ join '', '' (map py_repr xs) @ '']''"
| "py_repr (JObj kvs) =
     ''{'' @ join '', '' (map (\<lambda>(k, v). repr_string k @ '': '' @ py_repr v) kvs) @ ''}''"

fun py_str :: "json \<Rightarrow> string" where
  "py_str (JStr s) = s"
| "py_str v = py_repr v"

text \<open>\<open>Authorisation(id=value)\<close>: Pydantic does not coerce other JSON types to \<open>str\<close>.\<close>

fun mk_authorisation_json :: "json \<Rightarrow> exn + authorisation" where
  "mk_authorisation_json (JStr s) = mk_authorisation s"
| "mk_authorisation_json v = Inl (Lib PydanticValidationError)"

section \<open>The adapter\<close>

definition payment_request_of :: "uuid \<Rightarrow> money \<Rightarrow> payment_request" where
  "payment_request_of i t =
     \<lparr>pr_path = ''/authorisations'', pr_order_id = uuid_str i, pr_amount = dec_str (amount t),
      pr_currency = currency t, pr_idempotency_key = uuid_str i\<rparr>"

definition send ::
  "(payment_request \<Rightarrow> ('p, exn, http_response) io) \<Rightarrow> uuid \<Rightarrow> money \<Rightarrow> ('p, exn, http_response) io" where
  "send post i t =
     and_then (post (payment_request_of i t)) (\<lambda>response.
       if status_code response \<in> set ANSWER_STATUSES then ret response
       else raise (Lib (HTTPStatusError (status_code response))))"

text \<open>The body of the second \<open>try\<close>.\<close>

definition read_answer :: "uuid \<Rightarrow> http_response \<Rightarrow> exn + authorisation" where
  "read_answer i response =
     (if status_code response = 402
      then try_then (response_json response) (\<lambda>v.
             try_then (json_get v ''reason'' (JStr ''unknown'')) (\<lambda>raw_reason.
               Inl (Domain (PaymentDeclinedError i (take 200 (py_str raw_reason))))))
      else try_then (response_json response) (\<lambda>v.
             try_then (json_index v ''id'') mk_authorisation_json))"

text \<open>The adapter's state: the network, its breaker and the log it has written, newest first.\<close>

type_synonym 'p gateway_state = "('p \<times> breaker) \<times> log_line list"

fun is_circuit_open :: "exn \<Rightarrow> bool" where
  "is_circuit_open (Lib (CircuitOpenError r)) = True"
| "is_circuit_open e = False"

definition http_authorise ::
  "('p \<Rightarrow> rat) \<Rightarrow> ((exn \<Rightarrow> bool) \<Rightarrow> ('p, exn, http_response) io \<Rightarrow> ('p, exn, http_response) io) \<Rightarrow>
   (payment_request \<Rightarrow> ('p, exn, http_response) io) \<Rightarrow>
   uuid \<Rightarrow> money \<Rightarrow> ('p gateway_state, exn, authorisation) io" where
  "http_authorise clock retrying post i t =
     and_then
       (catch (on_fst (breaker_call clock (retrying is_retryable (send post i t)))) (\<lambda>e.
          if is_circuit_open e
          then and_then (warn ''payment.circuit_open'' [(''order_id'', uuid_str i)]) (\<lambda>_.
                 raise (Infra (PaymentUnavailableError ''payment provider circuit is open'')))
          else if is_httpx_error e
          then and_then (warn ''payment.unreachable''
                   [(''order_id'', uuid_str i), (''error_type'', exn_name e)]) (\<lambda>_.
                 raise (Infra (PaymentUnavailableError
                   (''payment provider did not answer: '' @ exn_name e))))
          else raise e))
       (\<lambda>response.
          catch (lift_sum (read_answer i response)) (\<lambda>e.
            if is_shape_error e
            then and_then (warn ''payment.unreadable_response''
                     [(''order_id'', uuid_str i), (''status_code'', nat_str (status_code response)),
                      (''error_type'', exn_name e)]) (\<lambda>_.
                   raise (Infra (PaymentUnavailableError
                     ''payment provider returned an unreadable answer'')))
            else raise e))"

section \<open>What a retrying caller does\<close>

text \<open>
  \<open>retried op on wait n p r p'\<close>: at most \<open>n\<close> attempts of \<open>op\<close> from \<open>p\<close>, each further one only
  after an error that \<open>on\<close> accepts and a wait; the loop may also stop early on such an error (its
  wall-clock limit), and it ends with what its last attempt ended with.
\<close>

inductive retried ::
  "('p, exn, 'a) io \<Rightarrow> (exn \<Rightarrow> bool) \<Rightarrow> ('p \<Rightarrow> 'p \<Rightarrow> bool) \<Rightarrow> nat \<Rightarrow> 'p \<Rightarrow> exn + 'a \<Rightarrow> 'p \<Rightarrow> bool"
  for operation on wait where
  last_attempt: "operation p = (r, p') \<Longrightarrow> retried operation on wait (Suc n) p r p'"
| again: "operation p = (Inl e, p1) \<Longrightarrow> on e \<Longrightarrow> wait p1 p2 \<Longrightarrow> retried operation on wait n p2 r p' \<Longrightarrow>
    retried operation on wait (Suc n) p r p'"

lemma retried_ends_with:
  assumes "retried operation on wait n p r p'"
  shows "\<exists>q. operation q = (r, p')"
  using assms by induction auto

section \<open>The contract of the network\<close>

text \<open>
  \<open>processed p\<close>: the requests the provider has acted on, oldest first. An error that proves
  non-delivery, and an answer that says the request was turned away, mean it was not processed;
  any other outcome may or may not have processed it once.
\<close>

definition proves_unprocessed :: "exn + http_response \<Rightarrow> bool" where
  "proves_unprocessed r =
     (case r of
        Inl e \<Rightarrow> e = Lib ConnectError \<or> e = Lib ConnectTimeout \<or> e = Lib PoolTimeout
      | Inr response \<Rightarrow> status_code response = 429 \<or> status_code response = 503)"

locale http_gateway =
  fixes post :: "payment_request \<Rightarrow> ('p, exn, http_response) io"
    and retrying :: "(exn \<Rightarrow> bool) \<Rightarrow> ('p, exn, http_response) io \<Rightarrow> ('p, exn, http_response) io"
    and wait :: "'p \<Rightarrow> 'p \<Rightarrow> bool"
    and attempts :: nat
    and clock :: "'p \<Rightarrow> rat"
    and processed :: "'p \<Rightarrow> payment_request list"
  assumes post_raises: "post q p = (Inl e, p') \<Longrightarrow> is_httpx_error e \<and> (\<forall>c. e \<noteq> Lib (HTTPStatusError c))"
    and post_processes: "post q p = (r, p') \<Longrightarrow>
      processed p' = processed p \<or> \<not> proves_unprocessed r \<and> processed p' = processed p @ [q]"
    and retries: "retrying on op p = (r, p') \<Longrightarrow> retried op on wait attempts p r p'"
    and waiting: "wait p p' \<Longrightarrow> processed p' = processed p"
begin

lemma send_raises: "send post i t p = (Inl e, p') \<Longrightarrow> is_httpx_error e"
  using post_raises [of "payment_request_of i t" p e p']
  by (auto simp: send_def and_then_def split: prod.splits sum.splits if_splits)

lemma send_processes:
  assumes "send post i t p = (r, p')"
  shows "processed p' = processed p
    \<or> processed p' = processed p @ [payment_request_of i t] \<and> (\<forall>e. r = Inl e \<longrightarrow> \<not> is_retryable e)"
proof -
  obtain x where x: "post (payment_request_of i t) p = (x, p')"
    and r: "r = (case x of Inl e \<Rightarrow> Inl e | Inr response \<Rightarrow>
        if status_code response \<in> set ANSWER_STATUSES then Inr response
        else Inl (Lib (HTTPStatusError (status_code response))))"
    using assms by (auto simp: send_def and_then_def split: prod.splits sum.splits if_splits)
  have "\<not> proves_unprocessed x \<Longrightarrow> r = Inl e \<Longrightarrow> \<not> is_retryable e" for e
    using r post_raises [of "payment_request_of i t" p e p'] x
    by (cases e rule: is_retryable.cases)
      (auto simp: proves_unprocessed_def RETRYABLE_STATUS_def split: sum.splits if_splits)
  then show ?thesis using post_processes [OF x] by auto
qed

lemma retried_send_processes:
  assumes "retried (send post i t) is_retryable wait n p r p'"
  shows "processed p' = processed p \<or> processed p' = processed p @ [payment_request_of i t]"
  using assms
proof induction
  case (last_attempt p r p' n)
  then show ?case using send_processes by blast
next
  case (again p e p1 p2 n r p')
  then have "processed p1 = processed p" using send_processes by blast
  then show ?case using again waiting by simp
qed

lemma breaker_call_processes:
  assumes "breaker_call clock (retrying is_retryable (send post i t)) (p, b) = (r, (p', b'))"
  shows "(processed p' = processed p \<or> processed p' = processed p @ [payment_request_of i t])
    \<and> (\<forall>e. r = Inl e \<longrightarrow> is_circuit_open e \<or> is_httpx_error e)"
proof (cases "fst (breaker_enter (clock p) (clock p) b)")
  case (Inl refusal)
  then show ?thesis using assms by (auto simp: breaker_call_def split: prod.splits)
next
  case (Inr probe)
  then obtain b1 where "retrying is_retryable (send post i t) p = (r, p')"
    using assms by (auto simp: breaker_call_def split: prod.splits sum.splits)
  then have run: "retried (send post i t) is_retryable wait attempts p r p'" by (rule retries)
  then obtain q where "send post i t q = (r, p')" using retried_ends_with [OF run] by blast
  then show ?thesis using retried_send_processes [OF run] send_raises by blast
qed

end

text \<open>What \<open>http_authorise\<close> does after the call through the breaker.\<close>

lemma mk_authorisation_json_cases:
  "mk_authorisation_json v = Inl (Lib PydanticValidationError)
   \<or> (\<exists>a. mk_authorisation_json v = Inr a \<and> authorisation_ok a)"
  by (cases v) (auto simp: mk_authorisation_def authorisation_ok_def Let_def)

lemma read_answer_cases:
  "(\<exists>a. read_answer i response = Inr a \<and> authorisation_ok a \<and> status_code response \<noteq> 402)
   \<or> (\<exists>r. read_answer i response = Inl (Domain (PaymentDeclinedError i r)) \<and> length r \<le> 200
        \<and> status_code response = 402)
   \<or> (\<exists>e. read_answer i response = Inl e \<and> is_shape_error e)"
proof (cases "body response")
  case None
  then show ?thesis by (simp add: read_answer_def response_json_def)
next
  case (Some v)
  show ?thesis
  proof (cases "status_code response = 402")
    case True
    then show ?thesis
      using Some by (cases v) (auto simp: read_answer_def response_json_def)
  next
    case False
    show ?thesis
    proof (cases "json_index v ''id''")
      case (Inl e)
      then show ?thesis
        using Some False
        by (cases v) (auto simp: read_answer_def response_json_def split: option.splits)
    next
      case (Inr x)
      then have "read_answer i response = mk_authorisation_json x"
        using Some False by (simp add: read_answer_def response_json_def)
      then show ?thesis using mk_authorisation_json_cases [of x] False by auto
    qed
  qed
qed

text \<open>The whole call in terms of the call through the breaker.\<close>

definition interpret_call ::
  "uuid \<Rightarrow> log_line list \<Rightarrow> exn + http_response \<Rightarrow> (exn + authorisation) \<times> log_line list" where
  "interpret_call i lg r =
     (case r of
        Inl e \<Rightarrow>
          if is_circuit_open e
          then (Inl (Infra (PaymentUnavailableError ''payment provider circuit is open'')),
                (''payment.circuit_open'', [(''order_id'', uuid_str i)]) # lg)
          else if is_httpx_error e
          then (Inl (Infra (PaymentUnavailableError (''payment provider did not answer: '' @ exn_name e))),
                (''payment.unreachable'', [(''order_id'', uuid_str i), (''error_type'', exn_name e)]) # lg)
          else (Inl e, lg)
      | Inr response \<Rightarrow>
          (case read_answer i response of
             Inl e \<Rightarrow>
               if is_shape_error e
               then (Inl (Infra (PaymentUnavailableError ''payment provider returned an unreadable answer'')),
                     (''payment.unreadable_response'',
                        [(''order_id'', uuid_str i), (''status_code'', nat_str (status_code response)),
                         (''error_type'', exn_name e)]) # lg)
               else (Inl e, lg)
           | Inr a \<Rightarrow> (Inr a, lg)))"

lemma http_authorise_interprets:
  "http_authorise clock retrying post i t (pb, lg) =
     (case breaker_call clock (retrying is_retryable (send post i t)) pb of
        (r, pb') \<Rightarrow> (case interpret_call i lg r of (x, lg') \<Rightarrow> (x, (pb', lg'))))"
  by (auto simp: http_authorise_def interpret_call_def and_then_def catch_def warn_def
      split: prod.splits sum.splits)

lemma interpret_call_refusal:
  assumes "\<And>e. r = Inl e \<Longrightarrow> is_circuit_open e \<or> is_httpx_error e"
    and "interpret_call i lg r = (Inl e, lg')"
  shows "(\<exists>m. e = Infra (PaymentUnavailableError m))
    \<or> (\<exists>reason. e = Domain (PaymentDeclinedError i reason) \<and> length reason \<le> 200)"
proof (cases r)
  case (Inl e')
  then show ?thesis using assms by (auto simp: interpret_call_def split: if_splits)
next
  case (Inr response)
  then show ?thesis
    using read_answer_cases [of i response] assms(2)
    by (auto simp: interpret_call_def split: if_splits sum.splits)
qed

lemma interpret_call_answer:
  assumes "interpret_call i lg r = (Inr a, lg')"
  shows "authorisation_ok a \<and> (\<exists>response. r = Inr response \<and> read_answer i response = Inr a)"
proof (cases r)
  case (Inl e)
  then show ?thesis using assms by (auto simp: interpret_call_def split: if_splits)
next
  case (Inr response)
  then show ?thesis
    using assms read_answer_cases [of i response]
    by (auto simp: interpret_call_def split: if_splits sum.splits)
qed

context http_gateway
begin

lemma authorise_at_most_once:
  assumes "http_authorise clock retrying post i t ((p, b), lg) = (r, ((p', b'), lg'))"
  shows "processed p' = processed p \<or> processed p' = processed p @ [payment_request_of i t]"
proof -
  obtain x where "breaker_call clock (retrying is_retryable (send post i t)) (p, b) = (x, (p', b'))"
    using assms by (auto simp: http_authorise_interprets split: prod.splits)
  then show ?thesis using breaker_call_processes by blast
qed

lemma authorise_refusal:
  assumes "http_authorise clock retrying post i t g = (Inl e, g')"
  shows "(\<exists>m. e = Infra (PaymentUnavailableError m))
    \<or> (\<exists>reason. e = Domain (PaymentDeclinedError i reason) \<and> length reason \<le> 200)"
proof -
  obtain p b lg where g: "g = ((p, b), lg)" by (metis prod.exhaust)
  obtain x p' b' where x: "breaker_call clock (retrying is_retryable (send post i t)) (p, b) = (x, (p', b'))"
    by (metis prod.exhaust)
  then obtain lg' where "interpret_call i lg x = (Inl e, lg')"
    using assms g by (auto simp: http_authorise_interprets split: prod.splits)
  then show ?thesis
    using interpret_call_refusal breaker_call_processes [OF x] by blast
qed

lemma authorise_answer:
  "http_authorise clock retrying post i t g = (Inr a, g') \<Longrightarrow> authorisation_ok a"
  using interpret_call_answer
  by (cases g) (auto simp: http_authorise_interprets split: prod.splits)

end

sublocale http_gateway \<subseteq> port: payment_gateway "http_authorise clock retrying post" "\<lambda>g. True"
  by unfold_locales (use authorise_answer authorise_refusal in blast)+

section \<open>A simulated network\<close>

text \<open>
  A provider that acts on what reaches it, behind a network that may refuse a connection or lose
  an answer; the script says what happens next. It keeps the contract, so the contract can hold.
\<close>

datatype net_event =
    NoConnection
  | AnswerLost bool
  | Answer http_response

record net =
  net_script :: "net_event list"
  net_processed :: "payment_request list"
  net_clock :: rat

definition sim_post :: "payment_request \<Rightarrow> (net, exn, http_response) io" where
  "sim_post q p =
     (let p' = p\<lparr>net_script := tl (net_script p), net_clock := net_clock p + 1\<rparr>;
          p_done = p'\<lparr>net_processed := net_processed p @ [q]\<rparr>
      in case net_script p of
           [] \<Rightarrow> (Inl (Lib ConnectError), p')
         | NoConnection # evs \<Rightarrow> (Inl (Lib ConnectError), p')
         | AnswerLost acted # evs \<Rightarrow> (Inl (Lib ReadTimeout), if acted then p_done else p')
         | Answer r # evs \<Rightarrow> (Inr r, if status_code r \<in> set RETRYABLE_STATUS then p' else p_done))"

definition sim_wait :: "net \<Rightarrow> net \<Rightarrow> bool" where
  "sim_wait p p' \<longleftrightarrow> p' = p\<lparr>net_clock := net_clock p + 1\<rparr>"

fun retry_n :: "nat \<Rightarrow> (exn \<Rightarrow> bool) \<Rightarrow> (net, exn, 'a) io \<Rightarrow> (net, exn, 'a) io" where
  "retry_n n on operation p =
     (case operation p of
        (Inl e, p1) \<Rightarrow>
          (case n of
             Suc (Suc k) \<Rightarrow>
               if on e then retry_n (Suc k) on operation (p1\<lparr>net_clock := net_clock p1 + 1\<rparr>)
               else (Inl e, p1)
           | _ \<Rightarrow> (Inl e, p1))
      | (Inr x, p1) \<Rightarrow> (Inr x, p1))"

declare retry_n.simps [simp del]

lemma retry_n_retried: "retry_n (Suc n) on operation p = (r, p') \<Longrightarrow> retried operation on sim_wait (Suc n) p r p'"
proof (induction n arbitrary: p)
  case 0
  then show ?case
    by (auto simp: retry_n.simps [of "Suc 0"] intro: retried.last_attempt split: prod.splits sum.splits)
next
  case (Suc n)
  obtain x p1 where op: "operation p = (x, p1)" by (metis prod.exhaust)
  show ?case
  proof (cases "\<exists>e. x = Inl e \<and> on e")
    case True
    then obtain e where e: "x = Inl e" "on e" by blast
    then have "retry_n (Suc n) on operation (p1\<lparr>net_clock := net_clock p1 + 1\<rparr>) = (r, p')"
      using Suc.prems op by (simp add: retry_n.simps [of "Suc (Suc n)"])
    then have "retried operation on sim_wait (Suc n) (p1\<lparr>net_clock := net_clock p1 + 1\<rparr>) r p'"
      by (rule Suc.IH)
    then show ?thesis
      using op e by (intro retried.again [of operation p e p1 on sim_wait "p1\<lparr>net_clock := net_clock p1 + 1\<rparr>"])
        (simp_all add: sim_wait_def)
  next
    case False
    then have "operation p = (r, p')"
      using Suc.prems op by (auto simp: retry_n.simps [of "Suc (Suc n)"] split: sum.splits if_splits)
    then show ?thesis by (rule retried.last_attempt)
  qed
qed

interpretation sim: http_gateway sim_post "retry_n 3" sim_wait 3 net_clock net_processed
proof
  fix q p e p' assume "sim_post q p = (Inl e, p')"
  then show "is_httpx_error e \<and> (\<forall>c. e \<noteq> Lib (HTTPStatusError c))"
    by (auto simp: sim_post_def Let_def split: list.splits net_event.splits if_splits)
next
  fix q p r p' assume "sim_post q p = (r, p')"
  then show "net_processed p' = net_processed p
      \<or> \<not> proves_unprocessed r \<and> net_processed p' = net_processed p @ [q]"
    by (auto simp: sim_post_def proves_unprocessed_def RETRYABLE_STATUS_def Let_def
        split: list.splits net_event.splits if_splits)
next
  fix on op p r p' assume "retry_n 3 on op p = (r, p')"
  then show "retried op on sim_wait 3 p r p'"
    using retry_n_retried [of 2 on op p r p'] by (simp add: numeral_3_eq_3)
qed (simp add: sim_wait_def)

section \<open>Properties\<close>

text \<open>
  C19: one call of \<open>authorise\<close> is processed by the provider at most once, however many attempts the
  retry loop makes: what is retried proves that the attempt was not processed. The request, with
  its idempotency key, is the one for this order.
\<close>

theorem authorise_processed_at_most_once:
  assumes "http_gateway post retrying wait attempts processed"
    and "http_authorise clock retrying post i t ((p, b), lg) = (r, ((p', b'), lg'))"
  shows "processed p' = processed p \<or> processed p' = processed p @ [payment_request_of i t]"
  using http_gateway.authorise_at_most_once [OF assms] .

definition flaky_net :: net where
  "flaky_net = \<lparr>net_script = [NoConnection, Answer \<lparr>status_code = 503, body = None\<rparr>, AnswerLost True],
                net_processed = [], net_clock = 0\<rparr>"

definition eur5 :: money where
  "eur5 = \<lparr>amount = Dec False 500 (-2), currency = ''EUR''\<rparr>"

text \<open>Two attempts that did not get through, and one whose answer was lost.\<close>

theorem authorise_processed_at_most_once_witness:
  "\<exists>p' b' lg'. http_authorise net_clock (retry_n 3) sim_post 1 eur5 ((flaky_net, sample_breaker), []) =
      (Inl (Infra (PaymentUnavailableError ''payment provider did not answer: ReadTimeout'')), ((p', b'), lg'))
    \<and> net_processed p' = [payment_request_of 1 eur5]"
proof -
  obtain r p' b' lg' where run: "http_authorise net_clock (retry_n 3) sim_post 1 eur5
      ((flaky_net, sample_breaker), []) = (r, ((p', b'), lg'))"
    by (metis prod.exhaust)
  have "net_processed p' = net_processed flaky_net
      \<or> net_processed p' = net_processed flaky_net @ [payment_request_of 1 eur5]"
    by (rule authorise_processed_at_most_once [OF sim.http_gateway_axioms run])
  moreover have "r = Inl (Infra (PaymentUnavailableError ''payment provider did not answer: ReadTimeout''))"
      "net_processed p' \<noteq> []"
    using run by (auto simp: http_authorise_interprets interpret_call_def breaker_call_def breaker_defs
        sample_breaker_def flaky_net_def retry_n.simps numeral_3_eq_3 numeral_2_eq_2 send_def and_then_def sim_post_def
        RETRYABLE_STATUS_def ANSWER_STATUSES_def)
  ultimately show ?thesis using run by (auto simp: flaky_net_def)
qed

text \<open>
  C20: whatever the provider answers or does not answer, the adapter ends in one of three ways: an
  authorisation with a non-blank reference; \<open>PaymentDeclinedError\<close> for this order with a reason of at
  most 200 characters; or \<open>PaymentUnavailableError\<close>. No exception of a library and no validation
  error escapes.
\<close>

theorem authorise_outcomes:
  assumes "http_gateway post retrying wait attempts processed"
    and "http_authorise clock retrying post i t g = (r, g')"
  shows "(\<exists>a. r = Inr a \<and> authorisation_ok a)
    \<or> (\<exists>reason. r = Inl (Domain (PaymentDeclinedError i reason)) \<and> length reason \<le> 200)
    \<or> (\<exists>m. r = Inl (Infra (PaymentUnavailableError m)))"
  using http_gateway.authorise_refusal [OF assms(1)] http_gateway.authorise_answer [OF assms(1)] assms(2)
  by (cases r) blast+

definition answering_net :: "http_response \<Rightarrow> net" where
  "answering_net response = \<lparr>net_script = [Answer response], net_processed = [], net_clock = 0\<rparr>"

lemmas run_net =
  http_authorise_interprets interpret_call_def breaker_call_def breaker_defs sample_breaker_def
  flaky_net_def answering_net_def retry_n.simps numeral_3_eq_3 numeral_2_eq_2 send_def and_then_def sim_post_def
  RETRYABLE_STATUS_def ANSWER_STATUSES_def read_answer_def response_json_def json_field_def
  mk_authorisation_def

text \<open>An answer 201 without the field \<open>id\<close>.\<close>

theorem authorise_outcomes_witness:
  "\<exists>g'. http_authorise net_clock (retry_n 3) sim_post 1 eur5
      ((answering_net \<lparr>status_code = 201, body = Some (JObj [(''ok'', JBool True)])\<rparr>, sample_breaker), []) =
      (Inl (Infra (PaymentUnavailableError ''payment provider returned an unreadable answer'')), g')"
proof -
  obtain r g' where run: "http_authorise net_clock (retry_n 3) sim_post 1 eur5
      ((answering_net \<lparr>status_code = 201, body = Some (JObj [(''ok'', JBool True)])\<rparr>, sample_breaker), []) = (r, g')"
    by (metis prod.exhaust)
  have "\<not> (\<exists>a. r = Inr a)" using run by (auto simp: run_net)
  moreover have "\<not> (\<exists>reason. r = Inl (Domain (PaymentDeclinedError 1 reason)))"
    using run by (auto simp: run_net)
  ultimately obtain m where "r = Inl (Infra (PaymentUnavailableError m))"
    using authorise_outcomes [OF sim.http_gateway_axioms run] by blast
  then show ?thesis using run by (auto simp: run_net)
qed

text \<open>
  A payment counts once for the breaker, whatever the number of attempts. On a closed breaker an
  authorisation and a decline both clear the failure count and leave it closed; a call that ends in
  \<open>PaymentUnavailableError\<close> adds at most one failure.
\<close>

theorem authorise_counts_once:
  assumes "http_gateway post retrying wait attempts processed"
    and "opened_at b = None" and "0 \<le> consecutive_failures b"
    and "http_authorise clock retrying post i t ((p, b), lg) = (r, ((p', b'), lg'))"
  shows "(case r of
      Inl (Infra e) \<Rightarrow> consecutive_failures b' = 0 \<or> consecutive_failures b' = consecutive_failures b + 1
    | _ \<Rightarrow> consecutive_failures b' = 0 \<and> opened_at b' = None)"
proof -
  obtain x where x: "breaker_call clock (retrying is_retryable (send post i t)) (p, b) = (x, (p', b'))"
    and r: "fst (interpret_call i lg x) = r"
    using assms(4) by (auto simp: http_authorise_interprets split: prod.splits)
  have raised: "is_circuit_open e \<or> is_httpx_error e" if "x = Inl e" for e
    using http_gateway.breaker_call_processes [OF assms(1) x] that by blast
  show ?thesis
  proof (cases x)
    case (Inl e)
    then have "\<exists>m. r = Inl (Infra m)" using r raised by (auto simp: interpret_call_def)
    then show ?thesis
      using x Inl assms(2) by (auto simp: breaker_call_def breaker_defs split: prod.splits sum.splits if_splits)
  next
    case (Inr response)
    then have "consecutive_failures b' = 0 \<and> opened_at b' = None"
      using x assms(2) by (auto simp: breaker_call_def breaker_defs split: prod.splits sum.splits)
    then show ?thesis by (auto split: sum.splits exn.splits)
  qed
qed

theorem authorise_counts_once_witness:
  "\<exists>p' b' lg'. http_authorise net_clock (retry_n 3) sim_post 1 eur5
      ((answering_net \<lparr>status_code = 402, body = Some (JObj [(''reason'', JStr ''insufficient funds'')])\<rparr>,
        sample_breaker\<lparr>consecutive_failures := 1\<rparr>), []) =
      (Inl (Domain (PaymentDeclinedError 1 ''insufficient funds'')), ((p', b'), lg'))
    \<and> consecutive_failures b' = 0"
proof -
  obtain r p' b' lg' where run: "http_authorise net_clock (retry_n 3) sim_post 1 eur5
      ((answering_net \<lparr>status_code = 402, body = Some (JObj [(''reason'', JStr ''insufficient funds'')])\<rparr>,
        sample_breaker\<lparr>consecutive_failures := 1\<rparr>), []) = (r, ((p', b'), lg'))"
    by (metis prod.exhaust)
  then have r: "r = Inl (Domain (PaymentDeclinedError 1 ''insufficient funds''))" by (simp add: run_net)
  have "consecutive_failures b' = 0"
    using authorise_counts_once [OF sim.http_gateway_axioms _ _ run] r by (simp add: sample_breaker_def)
  then show ?thesis using run r by blast
qed

end
