(* ===== verification/PostgresRepo.thy ===== *)
theory PostgresRepo
  imports Services
begin

text \<open>
  The PostgreSQL repository (\<open>infrastructure/db/models.py\<close>, \<open>mappers.py\<close>,
  \<open>order_repository.py\<close>). The tables are lists of rows with the columns of \<open>models.py\<close>; the
  statements the code issues are values of \<open>sql_write\<close> and two reading operations.

  SQLAlchemy and PostgreSQL are arguments. What the code relies on in them is the locale
  \<open>postgres\<close>: a transaction applies all its statements or none, in a state in which all its
  constraints hold; a session at \<open>REPEATABLE READ\<close> answers from one committed version of the
  tables, a session at another level from a version per statement. Other transactions may commit
  at every await (\<open>interferes\<close>). The lemmas show that \<open>get\<close> is never torn, that \<open>save\<close> is
  atomic, that the mappers round-trip, and, with no other writer (\<open>quiet_postgres\<close>), that the
  repository keeps the contract of its port.
\<close>

section \<open>Rows (models.py)\<close>

record order_row =
  row_id :: uuid
  row_customer_id :: uuid
  row_total_amount :: decimal
  row_total_currency :: string
  row_internal_note :: "string option"
  row_authorisation_id :: "string option"

record line_row =
  line_order_id :: uuid
  line_number :: int
  line_sku :: string
  line_quantity :: int
  line_unit_amount :: decimal
  line_unit_currency :: string

record db =
  db_orders :: "order_row list"
  db_lines :: "line_row list"

section \<open>Mappers (mappers.py)\<close>

definition order_values :: "order \<Rightarrow> order_row" where
  "order_values ord =
     \<lparr>row_id = oid ord, row_customer_id = customer_id ord,
      row_total_amount = amount (total ord), row_total_currency = currency (total ord),
      row_internal_note = internal_note ord, row_authorisation_id = authorisation_id ord\<rparr>"

fun number_lines :: "uuid \<Rightarrow> int \<Rightarrow> order_line list \<Rightarrow> line_row list" where
  "number_lines i n [] = []"
| "number_lines i n (line # ls) =
     \<lparr>line_order_id = i, line_number = n, line_sku = sku line, line_quantity = quantity line,
      line_unit_amount = amount (unit_price line), line_unit_currency = currency (unit_price line)\<rparr>
     # number_lines i (n + 1) ls"

definition line_values :: "order \<Rightarrow> line_row list" where
  "line_values ord = number_lines (oid ord) 0 (lines ord)"

definition line_to_domain :: "line_row \<Rightarrow> exn + order_line" where
  "line_to_domain line =
     try_then (mk_money (line_unit_amount line) (line_unit_currency line)) (\<lambda>price.
       mk_order_line (line_sku line) (line_quantity line) price)"

definition to_domain :: "order_row \<Rightarrow> line_row list \<Rightarrow> exn + order" where
  "to_domain row ls =
     try_then (map_sum_list line_to_domain ls) (\<lambda>order_lines.
     try_then (mk_money (row_total_amount row) (row_total_currency row)) (\<lambda>t.
       mk_order (row_id row) (row_customer_id row) order_lines t (row_internal_note row)
         (row_authorisation_id row)))"

section \<open>The repository (order_repository.py)\<close>

datatype sql_write =
    UpsertOrder order_row
  | DeleteLines uuid
  | InsertLines "line_row list"

definition READ_ISOLATION_LEVEL :: string where
  "READ_ISOLATION_LEVEL = ''REPEATABLE READ''"

text \<open>\<open>getattr(driver_error, field, None)\<close> for the three fields of \<open>_SAFE_ERROR_FIELDS\<close>, in order.\<close>

definition safe_error_fields :: "driver_error option \<Rightarrow> (string \<times> string option) list" where
  "safe_error_fields d =
     [(''sqlstate'', Option.bind d sqlstate), (''table_name'', Option.bind d table_name),
      (''constraint_name'', Option.bind d constraint_name)]"

definition constraint_summary :: "driver_error option \<Rightarrow> string" where
  "constraint_summary d =
     (let described =
        concat (map (\<lambda>(field, v).
          case v of None \<Rightarrow> [] | Some s \<Rightarrow> if s = [] then [] else [field @ ''='' @ s]) (safe_error_fields d));
        text = join '', '' described
      in if text = [] then ''no constraint metadata available'' else text)"

text \<open>
  \<open>get\<close>: a session pinned to the isolation level, the header, then its lines in order, and the
  \<open>try\<close> around \<open>to_domain\<close>. The session is passed on, since a statement may fix its snapshot.
\<close>

definition read_aggregate :: "uuid \<Rightarrow> order_row \<Rightarrow> line_row list \<Rightarrow> exn + order option" where
  "read_aggregate i row ls =
     (case to_domain row ls of
        Inr ord \<Rightarrow> Inr (Some ord)
      | Inl e \<Rightarrow>
          if e = Lib PydanticValidationError
          then Inl (Infra (CorruptPersistedDataError
            (''order '' @ uuid_str i @ '' failed domain validation on load'')))
          else Inl e)"

definition pg_get ::
  "(string \<Rightarrow> ('d, exn, 's) io) \<Rightarrow> ('s \<Rightarrow> uuid \<Rightarrow> ('d, exn, order_row option \<times> 's) io) \<Rightarrow>
   ('s \<Rightarrow> uuid \<Rightarrow> ('d, exn, line_row list \<times> 's) io) \<Rightarrow> uuid \<Rightarrow> ('d, exn, order option) io" where
  "pg_get connect select_order select_lines i =
     and_then (connect READ_ISOLATION_LEVEL) (\<lambda>session.
     and_then (select_order session i) (\<lambda>(row, session).
       case row of
         None \<Rightarrow> ret None
       | Some row \<Rightarrow>
           and_then (select_lines session i) (\<lambda>(ls, session).
             lift_sum (read_aggregate i row ls))))"

definition save_statements :: "order \<Rightarrow> sql_write list" where
  "save_statements ord =
     [UpsertOrder (order_values ord), DeleteLines (oid ord), InsertLines (line_values ord)]"

definition pg_save :: "(sql_write list \<Rightarrow> ('d, exn, unit) io) \<Rightarrow> order \<Rightarrow> ('d, exn, unit) io" where
  "pg_save transact ord =
     catch (transact (save_statements ord)) (\<lambda>e.
       case e of
         Lib (IntegrityError d) \<Rightarrow>
           raise (Infra (StorageConstraintViolatedError
             (''the database rejected this write ('' @ constraint_summary d @ '')'')))
       | _ \<Rightarrow> raise e)"

section \<open>Column types and statements of PostgreSQL\<close>

text \<open>
  What PostgreSQL documents of the column types and statements used: \<open>NUMERIC(14, 2)\<close> rounds to two
  places, half away from zero, and rejects twelve digits and more before the point; \<open>CHAR(3)\<close> pads
  and rejects longer text; no text column holds a NUL; \<open>INTEGER\<close> is 32 bits wide.
\<close>

definition numeric_14_2 :: "decimal \<Rightarrow> decimal option" where
  "numeric_14_2 d =
     (let c = (if - 2 \<le> dexp d then dcoef d * 10 ^ nat (dexp d + 2)
               else (dcoef d + 5 * 10 ^ nat (- dexp d - 3)) div 10 ^ nat (- dexp d - 2))
      in if c < 10 ^ 14 then Some (Dec (dneg d \<and> c \<noteq> 0) c (-2)) else None)"

definition text_ok :: "string \<Rightarrow> bool" where
  "text_ok s \<longleftrightarrow> CHR 0x00 \<notin> set s"

definition char_3 :: "string \<Rightarrow> string option" where
  "char_3 s = (if length s \<le> 3 \<and> text_ok s then Some (s @ replicate (3 - length s) CHR '' '') else None)"

definition int4_ok :: "int \<Rightarrow> bool" where
  "int4_ok i \<longleftrightarrow> - (2 ^ 31) \<le> i \<and> i < 2 ^ 31"

definition store_order_row :: "order_row \<Rightarrow> order_row option" where
  "store_order_row r =
     (case (numeric_14_2 (row_total_amount r), char_3 (row_total_currency r)) of
        (Some a, Some c) \<Rightarrow>
          if \<not> dneg a \<and> (\<forall>t \<in> set_option (row_internal_note r). text_ok t)
             \<and> (\<forall>t \<in> set_option (row_authorisation_id r). text_ok t)
          then Some (r\<lparr>row_total_amount := a, row_total_currency := c\<rparr>) else None
      | _ \<Rightarrow> None)"

definition store_line_row :: "line_row \<Rightarrow> line_row option" where
  "store_line_row r =
     (case (numeric_14_2 (line_unit_amount r), char_3 (line_unit_currency r)) of
        (Some a, Some c) \<Rightarrow>
          if \<not> dneg a \<and> 0 < line_quantity r \<and> int4_ok (line_quantity r) \<and> int4_ok (line_number r)
             \<and> text_ok (line_sku r)
          then Some (r\<lparr>line_unit_amount := a, line_unit_currency := c\<rparr>) else None
      | _ \<Rightarrow> None)"

definition upsert_row :: "order_row \<Rightarrow> order_row list \<Rightarrow> order_row list" where
  "upsert_row r rs =
     (if list_ex (\<lambda>x. row_id x = row_id r) rs
      then map (\<lambda>x. if row_id x = row_id r then r else x) rs else rs @ [r])"

definition line_key :: "line_row \<Rightarrow> uuid \<times> int" where
  "line_key r = (line_order_id r, line_number r)"

fun insert_rows :: "line_row list \<Rightarrow> db \<Rightarrow> db option" where
  "insert_rows [] t = Some t"
| "insert_rows (r # rs) t =
     (case store_line_row r of
        None \<Rightarrow> None
      | Some r' \<Rightarrow>
          if list_ex (\<lambda>x. line_key x = line_key r') (db_lines t)
             \<or> \<not> list_ex (\<lambda>x. row_id x = line_order_id r') (db_orders t)
          then None else insert_rows rs (t\<lparr>db_lines := db_lines t @ [r']\<rparr>))"

text \<open>One statement; \<open>None\<close> when a constraint or a column type rejects it.\<close>

fun apply_write :: "sql_write \<Rightarrow> db \<Rightarrow> db option" where
  "apply_write (UpsertOrder r) t =
     map_option (\<lambda>r'. t\<lparr>db_orders := upsert_row r' (db_orders t)\<rparr>) (store_order_row r)"
| "apply_write (DeleteLines i) t = Some (t\<lparr>db_lines := filter (\<lambda>r. line_order_id r \<noteq> i) (db_lines t)\<rparr>)"
| "apply_write (InsertLines rs) t = insert_rows rs t"

fun apply_writes :: "sql_write list \<Rightarrow> db \<Rightarrow> db option" where
  "apply_writes [] t = Some t"
| "apply_writes (w # ws) t = Option.bind (apply_write w t) (apply_writes ws)"

definition find_order :: "db \<Rightarrow> uuid \<Rightarrow> order_row option" where
  "find_order t i = find (\<lambda>r. row_id r = i) (db_orders t)"

text \<open>\<open>WHERE order_id = i ORDER BY line_number\<close>.\<close>

definition find_lines :: "db \<Rightarrow> uuid \<Rightarrow> line_row list" where
  "find_lines t i = sort_key line_number (filter (\<lambda>r. line_order_id r = i) (db_lines t))"

section \<open>The order a version of the tables holds\<close>

definition load :: "db \<Rightarrow> uuid \<Rightarrow> exn + order option" where
  "load t i =
     (case find_order t i of
        None \<Rightarrow> Inr None
      | Some row \<Rightarrow> try_then (to_domain row (find_lines t i)) (\<lambda>ord. Inr (Some ord)))"

definition db_orders_of :: "db \<Rightarrow> uuid \<rightharpoonup> order" where
  "db_orders_of t i = (case load t i of Inl e \<Rightarrow> None | Inr r \<Rightarrow> r)"

text \<open>Every aggregate in the tables passes the validation that a read runs.\<close>

definition db_ok :: "db \<Rightarrow> bool" where
  "db_ok t \<longleftrightarrow> (\<forall>i. \<exists>r. load t i = Inr r)"

lemma to_domain_Inr:
  "to_domain row ls = Inr ord \<Longrightarrow>
     order_valid ord \<and> oid ord = row_id row \<and> length (lines ord) = length ls"
  by (auto simp: to_domain_def try_then_Inr_iff mk_order_Inr_iff map_sum_list_Inr dest: list_all2_lengthD)

lemma find_order_id: "find_order t i = Some row \<Longrightarrow> row_id row = i"
  by (auto simp: find_order_def find_Some_iff)

lemma db_orders_of_valid: "db_orders_of t i = Some ord \<Longrightarrow> oid ord = i \<and> order_valid ord"
  using find_order_id [of t i] to_domain_Inr
  by (fastforce simp: db_orders_of_def load_def try_then_Inr_iff split: sum.splits option.splits)

lemma load_ok: "db_ok t \<Longrightarrow> load t i = Inr (db_orders_of t i)"
  by (auto simp: db_ok_def db_orders_of_def dest: spec [of _ i] split: sum.splits)

section \<open>What a column gives back\<close>

lemma dec_val_scaled: "dec_val d * 100 = (if dneg d then - 1 else 1) * of_nat (dcoef d) * 10 powi (dexp d + 2)"
  by (simp add: dec_val_def power_int_add)

lemma numeric_14_2_ok:
  assumes "amount_ok d"
  shows "\<exists>a. numeric_14_2 d = Some a \<and> dec_val a = dec_val d \<and> \<not> dneg a"
proof -
  obtain m where m: "m < 10 ^ 14" and val: "dec_val d = of_nat m / 100"
    using assms by (auto simp: amount_ok_cents)
  then have scaled: "of_nat m = (if dneg d then - 1 else 1) * (of_nat (dcoef d) * 10 powi (dexp d + 2) :: rat)"
    using dec_val_scaled [of d] by simp
  have nonneg: "0 \<le> (of_nat (dcoef d) * 10 powi (dexp d + 2) :: rat)" by simp
  have zero: "m = 0" if "dneg d"
  proof -
    have "(of_nat m :: rat) = - (of_nat (dcoef d) * 10 powi (dexp d + 2))" using scaled that by simp
    then have "(of_nat m :: rat) \<le> 0" using nonneg by linarith
    then show ?thesis by simp
  qed
  have abs: "(of_nat m :: rat) = of_nat (dcoef d) * 10 powi (dexp d + 2)"
    using scaled zero by (cases "dneg d") auto
  define c where "c = (if - 2 \<le> dexp d then dcoef d * 10 ^ nat (dexp d + 2)
      else (dcoef d + 5 * 10 ^ nat (- dexp d - 3)) div 10 ^ nat (- dexp d - 2))"
  have "c = m"
  proof (cases "- 2 \<le> dexp d")
    case True
    then have "(of_nat c :: rat) = of_nat m"
      unfolding abs c_def by (simp add: power_int_def)
    then show ?thesis by (simp only: of_nat_eq_iff)
  next
    case False
    define k where "k = nat (- dexp d - 3)"
    have k: "nat (- dexp d - 2) = Suc k" and e2: "dexp d + 2 = - int (Suc k)"
      using False by (auto simp: k_def)
    have e: "10 powi (dexp d + 2) = (1 / 10 ^ Suc k :: rat)"
      unfolding e2 power_int_minus power_int_of_nat inverse_eq_divide ..
    have "(of_nat (dcoef d) :: rat) = of_nat (m * 10 ^ Suc k)"
      using abs unfolding e by (simp add: field_simps)
    then have "dcoef d = m * 10 ^ Suc k" by (simp only: of_nat_eq_iff)
    then have "c = (m * 10 ^ Suc k + 5 * 10 ^ k) div 10 ^ Suc k"
      using False k by (simp add: c_def k_def)
    also have "\<dots> = m" by (simp add: div_mult_self3)
    finally show ?thesis .
  qed
  then have "numeric_14_2 d = Some (Dec (dneg d \<and> m \<noteq> 0) m (-2))"
    using m by (simp add: numeric_14_2_def c_def Let_def)
  moreover have "\<not> (dneg d \<and> m \<noteq> 0)" using zero by blast
  ultimately show ?thesis using val by (intro exI [of _ "Dec False m (-2)"]) (simp add: dec_val_2)
qed

lemma currency_text_ok: "currency_ok s \<Longrightarrow> length s = 3 \<and> text_ok s"
proof -
  assume ok: "currency_ok s"
  have "c \<noteq> CHR 0x00" if "c \<in> set s" for c
    using ok that by (auto simp: currency_ok_def list_all_iff char_between_def)
  then show ?thesis using ok by (auto simp: text_ok_def currency_ok_def)
qed

lemma char_3_ok: "currency_ok s \<Longrightarrow> char_3 s = Some s"
  using currency_text_ok [of s] by (simp add: char_3_def)

text \<open>A stored line row reads back as an equal line, a stored order row as an equal header.\<close>

lemma stored_line_reads:
  assumes "order_line_valid line"
    and "store_line_row \<lparr>line_order_id = i, line_number = n, line_sku = sku line, line_quantity = quantity line,
      line_unit_amount = amount (unit_price line), line_unit_currency = currency (unit_price line)\<rparr> = Some r"
  shows "line_order_id r = i \<and> line_number r = n
    \<and> (\<exists>line'. line_to_domain r = Inr line' \<and> order_line_eq line' line)"
proof -
  obtain a where a: "numeric_14_2 (amount (unit_price line)) = Some a"
      "dec_val a = dec_val (amount (unit_price line))"
    using numeric_14_2_ok assms(1) by (auto simp: order_line_valid_def money_valid_def)
  have cur: "char_3 (currency (unit_price line)) = Some (currency (unit_price line))"
    using assms(1) by (simp add: order_line_valid_def money_valid_def char_3_ok)
  let ?m = "\<lparr>amount = a, currency = currency (unit_price line)\<rparr>"
  let ?l = "\<lparr>sku = sku line, quantity = quantity line, unit_price = ?m\<rparr>"
  have eq: "order_line_eq ?l line" using a(2) by (simp add: order_line_eq_def money_eq_def dec_eq_def)
  have valid: "order_line_valid ?l" using order_line_eq_valid [OF eq assms(1)] .
  then have "money_valid ?m" by (simp add: order_line_valid_def)
  then show ?thesis
    using assms(2) a(1) cur eq valid
    by (auto simp: store_line_row_def line_to_domain_def mk_money_def mk_order_line_def split: if_splits)
qed

lemma insert_rows_Some:
  "insert_rows rs t = Some t' \<Longrightarrow>
     db_orders t' = db_orders t
     \<and> (\<exists>rs'. list_all2 (\<lambda>r r'. store_line_row r = Some r') rs rs' \<and> db_lines t' = db_lines t @ rs')"
proof (induction rs arbitrary: t)
  case (Cons r rs)
  then obtain r' where r': "store_line_row r = Some r'"
      "insert_rows rs (t\<lparr>db_lines := db_lines t @ [r']\<rparr>) = Some t'"
    by (auto split: option.splits if_splits)
  from Cons.IH [OF this(2)] obtain rs' where "db_orders t' = db_orders t"
      "list_all2 (\<lambda>r r'. store_line_row r = Some r') rs rs'" "db_lines t' = db_lines t @ r' # rs'"
    by auto
  then show ?case using r'(1) by (intro conjI exI [of _ "r' # rs'"]) auto
qed simp

lemma stored_lines_read:
  assumes "list_all order_line_valid ls"
    and "list_all2 (\<lambda>r r'. store_line_row r = Some r') (number_lines i n ls) rs"
  shows "list_all (\<lambda>r. line_order_id r = i) rs \<and> map line_number rs = [n..n + int (length ls) - 1]
    \<and> (\<exists>ls'. map_sum_list line_to_domain rs = Inr ls' \<and> list_all2 order_line_eq ls' ls)"
  using assms
proof (induction ls arbitrary: n rs)
  case (Cons l ls)
  then obtain r rs' where rs: "rs = r # rs'" and rest: "list_all2 (\<lambda>r r'. store_line_row r = Some r')
      (number_lines i (n + 1) ls) rs'"
    and r: "store_line_row \<lparr>line_order_id = i, line_number = n, line_sku = sku l, line_quantity = quantity l,
      line_unit_amount = amount (unit_price l), line_unit_currency = currency (unit_price l)\<rparr> = Some r"
    by (auto simp: list_all2_Cons1)
  have "line_order_id r = i \<and> line_number r = n
      \<and> (\<exists>l'. line_to_domain r = Inr l' \<and> order_line_eq l' l)"
    using stored_line_reads [OF _ r] Cons.prems(1) by simp
  moreover have "[n..n + int (length (l # ls)) - 1] = n # [n + 1..n + 1 + int (length ls) - 1]"
    by (subst upto.simps) (simp add: algebra_simps)
  ultimately show ?case using Cons.IH [OF _ rest] Cons.prems(1) rs by auto
qed simp

lemma stored_order_reads:
  assumes "order_valid ord" and "store_order_row (order_values ord) = Some r"
    and "map_sum_list line_to_domain rs = Inr ls'" and "list_all2 order_line_eq ls' (lines ord)"
  shows "row_id r = oid ord \<and> (\<exists>ord'. to_domain r rs = Inr ord' \<and> order_eq ord' ord \<and> order_valid ord')"
proof -
  have t: "money_valid (total ord)" using assms(1) by (simp add: order_valid_def)
  then obtain a where a: "numeric_14_2 (amount (total ord)) = Some a" "dec_val a = dec_val (amount (total ord))"
    using numeric_14_2_ok by (auto simp: money_valid_def)
  have cur: "char_3 (currency (total ord)) = Some (currency (total ord))"
    using t by (simp add: money_valid_def char_3_ok)
  let ?m = "\<lparr>amount = a, currency = currency (total ord)\<rparr>"
  let ?ord = "\<lparr>oid = oid ord, customer_id = customer_id ord, lines = ls', total = ?m,
      internal_note = internal_note ord, authorisation_id = authorisation_id ord\<rparr>"
  have eq: "order_eq ?ord ord"
    using assms(4) a(2) by (simp add: order_eq_def money_eq_def dec_eq_def)
  have valid: "order_valid ?ord" using order_eq_valid [OF eq assms(1)] .
  then have "money_valid ?m" by (simp add: order_valid_def)
  then show ?thesis
    using assms(2,3) a(1) cur eq valid
    by (auto simp: store_order_row_def order_values_def to_domain_def mk_money_def mk_order_def split: if_splits)
qed

section \<open>The effect of a save on the tables\<close>

lemma find_upsert:
  "find_order (t\<lparr>db_orders := upsert_row r (db_orders t)\<rparr>) i =
     (if i = row_id r then Some r else find_order t i)"
proof -
  have map_find: "find (\<lambda>x. row_id x = j) (map (\<lambda>x. if row_id x = row_id r then r else x) rs) =
      (if j = row_id r then (if list_ex (\<lambda>x. row_id x = row_id r) rs then Some r else None)
       else find (\<lambda>x. row_id x = j) rs)" for rs j
    by (induction rs) auto
  have app_find: "find P (rs @ [r]) = (case find P rs of None \<Rightarrow> if P r then Some r else None | Some x \<Rightarrow> Some x)"
    for P rs by (induction rs) auto
  have none: "\<not> list_ex (\<lambda>x. row_id x = row_id r) rs \<Longrightarrow> find (\<lambda>x. row_id x = row_id r) rs = None" for rs
    by (induction rs) auto
  show ?thesis
    by (auto simp: find_order_def upsert_row_def map_find app_find none split: option.splits)
qed

lemma find_order_lines [simp]: "find_order (t\<lparr>db_lines := ls\<rparr>) i = find_order t i"
  by (simp add: find_order_def)

text \<open>
  A save that the database accepts makes exactly this order's aggregate readable, equal to what was
  saved, and leaves every other identifier as it was.
\<close>

lemma save_statements_effect:
  assumes "order_valid ord" and "apply_writes (save_statements ord) t = Some t'"
  shows "\<exists>ord'. load t' (oid ord) = Inr (Some ord') \<and> order_eq ord' ord \<and> order_valid ord'"
    and "i \<noteq> oid ord \<Longrightarrow> load t' i = load t i"
proof -
  obtain r where r: "store_order_row (order_values ord) = Some r"
    and ins: "insert_rows (line_values ord)
      (t\<lparr>db_orders := upsert_row r (db_orders t), db_lines := filter (\<lambda>l. line_order_id l \<noteq> oid ord) (db_lines t)\<rparr>)
      = Some t'"
    using assms(2) by (auto simp: save_statements_def bind_eq_Some_conv)
  from insert_rows_Some [OF ins] obtain rs where
      orders: "db_orders t' = upsert_row r (db_orders t)"
    and rs: "list_all2 (\<lambda>l l'. store_line_row l = Some l') (line_values ord) rs"
    and ls: "db_lines t' = filter (\<lambda>l. line_order_id l \<noteq> oid ord) (db_lines t) @ rs"
    by auto
  have valid: "list_all order_line_valid (lines ord)" using assms(1) by (simp add: order_valid_def)
  from stored_lines_read [OF valid rs [unfolded line_values_def]]
  obtain ls' where ids: "list_all (\<lambda>l. line_order_id l = oid ord) rs"
    and nums: "map line_number rs = [0..0 + int (length (lines ord)) - 1]"
    and ls': "map_sum_list line_to_domain rs = Inr ls'" "list_all2 order_line_eq ls' (lines ord)"
    by blast
  from stored_order_reads [OF assms(1) r ls'] obtain ord' where
    row: "row_id r = oid ord" and ord': "to_domain r rs = Inr ord'" "order_eq ord' ord" "order_valid ord'"
    by blast
  have found: "find_order t' i = (if i = oid ord then Some r else find_order t i)" for i
    using find_upsert [of r t i] orders row by (simp add: find_order_def)
  have "filter (\<lambda>l. line_order_id l = oid ord) (db_lines t') = rs"
    using ids by (auto simp: ls list_all_iff filter_empty_conv)
  moreover have "sort_key line_number rs = rs"
    using nums by (intro sort_key_id_if_sorted) simp
  ultimately have mine: "find_lines t' (oid ord) = rs" by (simp add: find_lines_def)
  show "\<exists>ord'. load t' (oid ord) = Inr (Some ord') \<and> order_eq ord' ord \<and> order_valid ord'"
    using ord' by (simp add: load_def found mine)
  assume other: "i \<noteq> oid ord"
  have "filter (\<lambda>l. line_order_id l = i) rs = []" using ids other by (auto simp: list_all_iff filter_empty_conv)
  then have "filter (\<lambda>l. line_order_id l = i) (db_lines t') = filter (\<lambda>l. line_order_id l = i) (db_lines t)"
    using other by (simp add: ls) (metis (mono_tags, lifting) filter_cong)
  then have "find_lines t' i = find_lines t i" by (simp add: find_lines_def)
  then show "load t' i = load t i" using other by (simp add: load_def found split: option.split)
qed

lemma save_statements_ok:
  assumes "order_valid ord" and "db_ok t" and "apply_writes (save_statements ord) t = Some t'"
  shows "db_ok t' \<and> stores (db_orders_of t) ord (db_orders_of t')"
proof -
  obtain ord' where ord': "load t' (oid ord) = Inr (Some ord')" "order_eq ord' ord" "order_valid ord'"
    using save_statements_effect(1) [OF assms(1,3)] by blast
  have other: "i \<noteq> oid ord \<Longrightarrow> load t' i = load t i" for i
    by (rule save_statements_effect(2) [OF assms(1,3)])
  have "db_ok t'" unfolding db_ok_def
  proof
    fix i show "\<exists>r. load t' i = Inr r"
      using ord'(1) other [of i] assms(2) by (cases "i = oid ord") (auto simp: db_ok_def)
  qed
  moreover have "db_orders_of t' = (db_orders_of t)(oid ord \<mapsto> ord')"
    using ord'(1) other by (auto simp: db_orders_of_def fun_eq_iff)
  ultimately show ?thesis using ord' by (auto simp: stores_def)
qed

section \<open>What the repository relies on in the database\<close>

text \<open>
  \<open>tables d\<close> is the committed version of the tables; \<open>interferes\<close> what other transactions may do
  to it while a call waits. A session has its isolation level and, once a statement fixed it, its
  snapshot. A statement of a \<open>REPEATABLE READ\<close> session answers from the snapshot, which is the
  version committed when its first statement ran.
\<close>

definition sees ::
  "(db \<Rightarrow> db \<Rightarrow> bool) \<Rightarrow> ('s \<Rightarrow> string) \<Rightarrow> ('s \<Rightarrow> db option) \<Rightarrow> db \<Rightarrow> 's \<Rightarrow> db \<Rightarrow> db \<Rightarrow> 's \<Rightarrow> bool" where
  "sees interferes level snapshot t s v t' s' \<longleftrightarrow>
     level s' = level s \<and> interferes t t'
     \<and> (if level s = ''REPEATABLE READ''
        then snapshot s' = Some v
             \<and> (case snapshot s of Some v0 \<Rightarrow> v = v0 | None \<Rightarrow> interferes t v \<and> interferes v t')
        else interferes t v \<and> interferes v t')"

lemma pg_get_cases:
  assumes "pg_get connect select_order select_lines i d = (x, d')"
  obtains (no_connection) e where "connect READ_ISOLATION_LEVEL d = (Inl e, d')" "x = Inl e"
    | (no_header) e s d1 where "connect READ_ISOLATION_LEVEL d = (Inr s, d1)"
        "select_order s i d1 = (Inl e, d')" "x = Inl e"
    | (absent) s d1 s2 where "connect READ_ISOLATION_LEVEL d = (Inr s, d1)"
        "select_order s i d1 = (Inr (None, s2), d')" "x = Inr None"
    | (no_lines) e s d1 row s2 d2 where "connect READ_ISOLATION_LEVEL d = (Inr s, d1)"
        "select_order s i d1 = (Inr (Some row, s2), d2)" "select_lines s2 i d2 = (Inl e, d')" "x = Inl e"
    | (present) s d1 row s2 d2 ls s3 where "connect READ_ISOLATION_LEVEL d = (Inr s, d1)"
        "select_order s i d1 = (Inr (Some row, s2), d2)" "select_lines s2 i d2 = (Inr (ls, s3), d')"
        "x = read_aggregate i row ls"
  using assms unfolding pg_get_def
  by (auto elim!: and_then_cases split: option.splits)

locale postgres =
  fixes connect :: "string \<Rightarrow> ('d, exn, 's) io"
    and select_order :: "'s \<Rightarrow> uuid \<Rightarrow> ('d, exn, order_row option \<times> 's) io"
    and select_lines :: "'s \<Rightarrow> uuid \<Rightarrow> ('d, exn, line_row list \<times> 's) io"
    and transact :: "sql_write list \<Rightarrow> ('d, exn, unit) io"
    and tables :: "'d \<Rightarrow> db"
    and level :: "'s \<Rightarrow> string"
    and snapshot :: "'s \<Rightarrow> db option"
    and interferes :: "db \<Rightarrow> db \<Rightarrow> bool"
  assumes interferes_refl: "interferes t t"
    and interferes_trans: "interferes t v \<Longrightarrow> interferes v v' \<Longrightarrow> interferes t v'"
    and interferes_ok: "interferes t v \<Longrightarrow> db_ok t \<Longrightarrow> db_ok v"
    and connects: "connect lv d = (Inr s, d') \<Longrightarrow> level s = lv \<and> snapshot s = None"
    and connect_keeps: "connect lv d = (x, d') \<Longrightarrow> interferes (tables d) (tables d')"
    and selects_order: "select_order s i d = (Inr (row, s'), d') \<Longrightarrow>
      \<exists>v. sees interferes level snapshot (tables d) s v (tables d') s' \<and> row = find_order v i"
    and selects_lines: "select_lines s i d = (Inr (rows, s'), d') \<Longrightarrow>
      \<exists>v. sees interferes level snapshot (tables d) s v (tables d') s' \<and> rows = find_lines v i"
    and select_order_keeps: "select_order s i d = (y, d') \<Longrightarrow> interferes (tables d) (tables d')"
    and select_lines_keeps: "select_lines s i d = (z, d') \<Longrightarrow> interferes (tables d) (tables d')"
    and commits: "transact ws d = (Inr u, d') \<Longrightarrow>
      \<exists>v v'. interferes (tables d) v \<and> apply_writes ws v = Some v' \<and> interferes v' (tables d')"
    and rolls_back: "transact ws d = (Inl e, d') \<Longrightarrow>
      interferes (tables d) (tables d') \<or>
      (\<exists>v v'. interferes (tables d) v \<and> apply_writes ws v = Some v' \<and> interferes v' (tables d'))"
begin

text \<open>
  A read that returns is one version of the aggregate: a version that was committed between its
  start and its end.
\<close>

lemma get_not_torn:
  assumes "pg_get connect select_order select_lines i d = (Inr r, d')"
  shows "\<exists>v. interferes (tables d) v \<and> interferes v (tables d') \<and> load v i = Inr r"
  using assms
proof (cases rule: pg_get_cases)
  case (absent s d1 s2)
  have lvl: "level s = ''REPEATABLE READ''" "snapshot s = None" and i1: "interferes (tables d) (tables d1)"
    using connects [OF absent(1)] connect_keeps [OF absent(1)] by (auto simp: READ_ISOLATION_LEVEL_def)
  obtain v where "sees interferes level snapshot (tables d1) s v (tables d') s2" "find_order v i = None"
    using selects_order [OF absent(2)] by auto
  then show ?thesis
    using lvl i1 interferes_trans absent(3) by (intro exI [of _ v]) (auto simp: sees_def load_def)
next
  case (present s d1 row s2 d2 ls s3)
  have lvl: "level s = ''REPEATABLE READ''" "snapshot s = None" and i1: "interferes (tables d) (tables d1)"
    using connects [OF present(1)] connect_keeps [OF present(1)] by (auto simp: READ_ISOLATION_LEVEL_def)
  obtain v where v: "sees interferes level snapshot (tables d1) s v (tables d2) s2" "find_order v i = Some row"
    using selects_order [OF present(2)] by auto
  then have snap: "level s2 = ''REPEATABLE READ''" "snapshot s2 = Some v"
    and iv: "interferes (tables d) v" "interferes v (tables d2)"
    using lvl i1 interferes_trans by (auto simp: sees_def)
  have "ls = find_lines v i" and "interferes (tables d2) (tables d')"
    using selects_lines [OF present(3)] snap by (auto simp: sees_def)
  then show ?thesis
    using v(2) iv present(4) interferes_trans
    by (intro exI [of _ v]) (auto simp: load_def read_aggregate_def split: sum.splits if_splits)
qed simp_all

lemma get_interferes:
  assumes "pg_get connect select_order select_lines i d = (x, d')"
  shows "interferes (tables d) (tables d')"
  using assms
  by (cases rule: pg_get_cases)
    (blast dest: connect_keeps select_order_keeps select_lines_keeps intro: interferes_trans)+

text \<open>A save is atomic: it happened whole, at one point between its start and its end, or not at all.\<close>

lemma save_atomic:
  assumes "pg_save transact ord d = (x, d')"
  shows "x \<noteq> Inr () \<and> interferes (tables d) (tables d') \<or>
    (\<exists>v v'. interferes (tables d) v \<and> apply_writes (save_statements ord) v = Some v'
      \<and> interferes v' (tables d'))"
proof -
  obtain y where y: "transact (save_statements ord) d = (y, d')"
    and x: "x = Inr () \<longrightarrow> y = Inr ()"
    using assms unfolding pg_save_def
    by (cases "transact (save_statements ord) d") (auto simp: catch_def split: sum.splits exn.splits lib_error.splits)
  then show ?thesis using commits rolls_back by (cases y) blast+
qed

end

text \<open>With no other writer the repository keeps the contract of its port.\<close>

locale quiet_postgres = postgres +
  assumes alone: "interferes t u \<Longrightarrow> u = t"
begin

lemma save_alone:
  assumes "db_ok (tables d)" and "order_valid ord" and "pg_save transact ord d = (x, d')"
  shows "db_ok (tables d') \<and> (x \<noteq> Inr () \<and> tables d' = tables d
    \<or> stores (db_orders_of (tables d)) ord (db_orders_of (tables d')))"
proof -
  consider "x \<noteq> Inr ()" "tables d' = tables d" | "apply_writes (save_statements ord) (tables d) = Some (tables d')"
    using save_atomic [OF assms(3)] alone by metis
  then show ?thesis using assms(1,2) save_statements_ok by cases auto
qed

end

sublocale quiet_postgres \<subseteq> port: replacing_repository
  "pg_get connect select_order select_lines" "pg_save transact"
  "\<lambda>d. db_orders_of (tables d)" "\<lambda>d. db_ok (tables d)"
proof
  fix d i r d' assume ok: "db_ok (tables d)"
    and "pg_get connect select_order select_lines i d = (Inr r, d')"
  then show "r = db_orders_of (tables d) i"
    using get_not_torn alone load_ok by fastforce
next
  fix d i x d' assume "db_ok (tables d)" and "pg_get connect select_order select_lines i d = (x, d')"
  then show "db_ok (tables d') \<and> db_orders_of (tables d') = db_orders_of (tables d)"
    using get_interferes alone by metis
next
  fix d ord u d' assume "db_ok (tables d)" "order_valid ord" "pg_save transact ord d = (Inr u, d')"
  then show "db_ok (tables d') \<and> stores (db_orders_of (tables d)) ord (db_orders_of (tables d'))"
    using save_alone by fastforce
next
  fix d ord u d' assume "db_ok (tables d)" "order_valid ord" "pg_save transact ord d = (Inr u, d')"
  then show "db_ok (tables d') \<and> stores (db_orders_of (tables d)) ord (db_orders_of (tables d'))"
    using save_alone by fastforce
next
  fix d ord e d' assume "db_ok (tables d)" "order_valid ord" "pg_save transact ord d = (Inl e, d')"
  then show "db_ok (tables d') \<and> (db_orders_of (tables d') = db_orders_of (tables d)
      \<or> stores (db_orders_of (tables d)) ord (db_orders_of (tables d')))"
    using save_alone by fastforce
next
  fix d i ord assume "db_orders_of (tables d) i = Some ord"
  then show "oid ord = i \<and> order_valid ord" by (rule db_orders_of_valid)
qed

section \<open>When the database accepts an order\<close>

definition order_texts_ok :: "order \<Rightarrow> bool" where
  "order_texts_ok ord \<longleftrightarrow>
     list_all (\<lambda>l. text_ok (sku l)) (lines ord)
     \<and> list_all text_ok (case internal_note ord of None \<Rightarrow> [] | Some s \<Rightarrow> [s])
     \<and> list_all text_ok (case authorisation_id ord of None \<Rightarrow> [] | Some s \<Rightarrow> [s])"

lemma store_order_row_iff:
  assumes "order_valid ord"
  shows "(store_order_row (order_values ord) \<noteq> None) \<longleftrightarrow>
    list_all text_ok (case internal_note ord of None \<Rightarrow> [] | Some s \<Rightarrow> [s])
    \<and> list_all text_ok (case authorisation_id ord of None \<Rightarrow> [] | Some s \<Rightarrow> [s])"
proof -
  have t: "money_valid (total ord)" using assms by (simp add: order_valid_def)
  then obtain a where "numeric_14_2 (amount (total ord)) = Some a" "\<not> dneg a"
    using numeric_14_2_ok by (auto simp: money_valid_def)
  moreover have "char_3 (currency (total ord)) = Some (currency (total ord))"
    using t by (simp add: money_valid_def char_3_ok)
  ultimately show ?thesis
    by (auto simp: store_order_row_def order_values_def split: option.splits)
qed

lemma store_line_row_iff:
  assumes "order_line_valid l" and "int4_ok n"
  shows "(store_line_row \<lparr>line_order_id = i, line_number = n, line_sku = sku l, line_quantity = quantity l,
      line_unit_amount = amount (unit_price l), line_unit_currency = currency (unit_price l)\<rparr> \<noteq> None)
    \<longleftrightarrow> text_ok (sku l)"
proof -
  obtain a where "numeric_14_2 (amount (unit_price l)) = Some a" "\<not> dneg a"
    using numeric_14_2_ok assms(1) by (auto simp: order_line_valid_def money_valid_def)
  moreover have "char_3 (currency (unit_price l)) = Some (currency (unit_price l))"
    using assms(1) by (simp add: order_line_valid_def money_valid_def char_3_ok)
  moreover have "0 < quantity l" "int4_ok (quantity l)"
    using assms(1) by (auto simp: order_line_valid_def quantity_ok_def int4_ok_def)
  ultimately show ?thesis using assms(2) by (simp add: store_line_row_def)
qed

lemma insert_rows_accepts:
  assumes "list_all order_line_valid ls" and "0 \<le> n" and "n + int (length ls) \<le> 2 ^ 31"
    and "list_ex (\<lambda>x. row_id x = i) (db_orders t)"
    and "\<forall>r \<in> set (db_lines t). line_order_id r = i \<longrightarrow> line_number r < n"
  shows "(insert_rows (number_lines i n ls) t \<noteq> None) \<longleftrightarrow> list_all (\<lambda>l. text_ok (sku l)) ls"
  using assms
proof (induction ls arbitrary: n t)
  case (Cons l ls)
  have n: "int4_ok n" using Cons.prems(2,3) by (simp add: int4_ok_def)
  let ?row = "\<lparr>line_order_id = i, line_number = n, line_sku = sku l, line_quantity = quantity l,
      line_unit_amount = amount (unit_price l), line_unit_currency = currency (unit_price l)\<rparr>"
  have l: "order_line_valid l" using Cons.prems(1) by simp
  show ?case
  proof (cases "store_line_row ?row")
    case None
    then have "\<not> text_ok (sku l)" using store_line_row_iff [OF l n, of i] by simp
    with None show ?thesis by simp
  next
    case (Some r)
    have r: "line_order_id r = i" "line_number r = n" and ok: "text_ok (sku l)"
      using stored_line_reads [OF l Some] store_line_row_iff [OF l n, of i] Some by auto
    have fresh: "\<not> list_ex (\<lambda>x. line_key x = line_key r) (db_lines t)"
      using Cons.prems(5) r by (auto simp: list_ex_iff line_key_def)
    have "(insert_rows (number_lines i (n + 1) ls) (t\<lparr>db_lines := db_lines t @ [r]\<rparr>) \<noteq> None)
        \<longleftrightarrow> list_all (\<lambda>l. text_ok (sku l)) ls"
      using Cons.prems r by (intro Cons.IH) (auto simp: algebra_simps)
    then show ?thesis using Some fresh r ok Cons.prems(4) by simp
  qed
qed simp

lemma bind_no_more: "Option.bind x (apply_writes []) = x"
  by (cases x) simp_all

lemma save_accepted_iff:
  assumes "order_valid ord" and "int (length (lines ord)) \<le> 2 ^ 31"
  shows "(apply_writes (save_statements ord) t \<noteq> None) \<longleftrightarrow> order_texts_ok ord"
proof (cases "store_order_row (order_values ord)")
  case None
  then show ?thesis
    using store_order_row_iff [OF assms(1)] by (auto simp: save_statements_def order_texts_ok_def)
next
  case (Some r)
  have id: "row_id r = oid ord"
    using Some by (auto simp: store_order_row_def order_values_def split: option.splits if_splits)
  let ?t = "t\<lparr>db_orders := upsert_row r (db_orders t),
      db_lines := filter (\<lambda>l. line_order_id l \<noteq> oid ord) (db_lines t)\<rparr>"
  have "apply_writes (save_statements ord) t = insert_rows (line_values ord) ?t"
    using Some by (simp add: save_statements_def bind_no_more)
  moreover have "list_ex (\<lambda>x. row_id x = oid ord) (upsert_row r (db_orders t))"
    using id by (auto simp: upsert_row_def list_ex_iff)
  then have "(insert_rows (line_values ord) ?t \<noteq> None) \<longleftrightarrow> list_all (\<lambda>l. text_ok (sku l)) (lines ord)"
    unfolding line_values_def using assms
    by (intro insert_rows_accepts) (auto simp: order_valid_def)
  ultimately show ?thesis
    using store_order_row_iff [OF assms(1)] Some by (simp add: order_texts_ok_def)
qed

section \<open>A simulated database\<close>

text \<open>
  An engine that commits one order of other clients at every await, and one that has no other
  client; both answer a \<open>REPEATABLE READ\<close> session from its snapshot.
\<close>

record session =
  ses_level :: string
  ses_snapshot :: "db option"

definition commit_order :: "db \<Rightarrow> order \<Rightarrow> db" where
  "commit_order t ord =
     (if order_valid ord then (case apply_writes (save_statements ord) t of None \<Rightarrow> t | Some t' \<Rightarrow> t') else t)"

type_synonym busy_db = "db \<times> order list"

definition others_commit :: "busy_db \<Rightarrow> busy_db" where
  "others_commit d = (case d of (t, []) \<Rightarrow> (t, []) | (t, ord # ords) \<Rightarrow> (commit_order t ord, ords))"

definition see :: "session \<Rightarrow> db \<Rightarrow> db \<times> session" where
  "see s t =
     (if ses_level s = ''REPEATABLE READ''
      then let v = (case ses_snapshot s of None \<Rightarrow> t | Some v0 \<Rightarrow> v0) in (v, s\<lparr>ses_snapshot := Some v\<rparr>)
      else (t, s))"

definition busy_connect :: "string \<Rightarrow> (busy_db, exn, session) io" where
  "busy_connect lv d = (Inr \<lparr>ses_level = lv, ses_snapshot = None\<rparr>, others_commit d)"

definition busy_select :: "(db \<Rightarrow> uuid \<Rightarrow> 'a) \<Rightarrow> session \<Rightarrow> uuid \<Rightarrow> (busy_db, exn, 'a \<times> session) io" where
  "busy_select f s i d =
     (let d' = others_commit d; (v, s') = see s (fst d') in (Inr (f v i, s'), d'))"

definition busy_transact :: "sql_write list \<Rightarrow> (busy_db, exn, unit) io" where
  "busy_transact ws d =
     (let d' = others_commit d
      in case apply_writes ws (fst d') of
           None \<Rightarrow> (Inl (Lib (OtherException ''DBAPIError'' [])), d')
         | Some t \<Rightarrow> (Inr (), (t, snd d')))"

definition orders_committed :: "db \<Rightarrow> db \<Rightarrow> bool" where
  "orders_committed t t' \<longleftrightarrow> (\<exists>ords. t' = foldl commit_order t ords)"

lemma commit_order_ok: "db_ok t \<Longrightarrow> db_ok (commit_order t ord)"
  using save_statements_ok [of ord t] by (auto simp: commit_order_def split: option.splits)

lemma orders_committed_refl: "orders_committed t t"
  unfolding orders_committed_def by (rule exI [of _ "[]"]) simp

lemma others_commit_committed: "orders_committed (fst d) (fst (others_commit d))"
proof (cases "snd d")
  case Nil
  then show ?thesis by (cases d) (simp add: others_commit_def orders_committed_refl)
next
  case (Cons ord ords)
  then have "fst (others_commit d) = foldl commit_order (fst d) [ord]"
    by (cases d) (simp add: others_commit_def)
  then show ?thesis unfolding orders_committed_def by blast
qed

interpretation busy_pg: postgres busy_connect "busy_select find_order" "busy_select find_lines"
  busy_transact fst ses_level ses_snapshot orders_committed
proof
  show "orders_committed t t" for t by (rule orders_committed_refl)
  show "orders_committed t v'" if "orders_committed t v" "orders_committed v v'" for t v v'
    using that unfolding orders_committed_def by (metis foldl_append)
  show "db_ok v" if "orders_committed t v" "db_ok t" for t v
  proof -
    have "db_ok (foldl commit_order t ords)" for ords
      using that(2) by (induction ords arbitrary: t) (auto simp: commit_order_ok)
    then show ?thesis using that(1) by (auto simp: orders_committed_def)
  qed
  show "ses_level s = lv \<and> ses_snapshot s = None" if "busy_connect lv d = (Inr s, d')" for lv d s d'
    using that by (auto simp: busy_connect_def)
  show "orders_committed (fst d) (fst d')" if "busy_connect lv d = (x, d')" for lv d x d'
    using that others_commit_committed [of d] by (auto simp: busy_connect_def)
  show "\<exists>v. sees orders_committed ses_level ses_snapshot (fst d) s v (fst d') s' \<and> row = find_order v i"
    if "busy_select find_order s i d = (Inr (row, s'), d')" for s i d row s' d'
    using that others_commit_committed [of d] orders_committed_refl
    by (auto simp: busy_select_def see_def sees_def Let_def split: prod.splits if_splits option.splits)
  show "\<exists>v. sees orders_committed ses_level ses_snapshot (fst d) s v (fst d') s' \<and> rows = find_lines v i"
    if "busy_select find_lines s i d = (Inr (rows, s'), d')" for s i d rows s' d'
    using that others_commit_committed [of d] orders_committed_refl
    by (auto simp: busy_select_def see_def sees_def Let_def split: prod.splits if_splits option.splits)
  show "orders_committed (fst d) (fst d')" if "busy_select find_order s i d = (y, d')" for s i d y d'
    using that others_commit_committed [of d] by (auto simp: busy_select_def Let_def split: prod.splits)
  show "orders_committed (fst d) (fst d')" if "busy_select find_lines s i d = (z, d')" for s i d z d'
    using that others_commit_committed [of d] by (auto simp: busy_select_def Let_def split: prod.splits)
  show "\<exists>v v'. orders_committed (fst d) v \<and> apply_writes ws v = Some v' \<and> orders_committed v' (fst d')"
    if "busy_transact ws d = (Inr u, d')" for ws d u d'
    using that others_commit_committed [of d] orders_committed_refl
    by (fastforce simp: busy_transact_def Let_def split: option.splits)
  show "orders_committed (fst d) (fst d') \<or>
      (\<exists>v v'. orders_committed (fst d) v \<and> apply_writes ws v = Some v' \<and> orders_committed v' (fst d'))"
    if "busy_transact ws d = (Inl e, d')" for ws d e d'
    using that others_commit_committed [of d] by (auto simp: busy_transact_def Let_def split: option.splits)
qed

definition lone_connect :: "string \<Rightarrow> (db, exn, session) io" where
  "lone_connect lv t = (Inr \<lparr>ses_level = lv, ses_snapshot = None\<rparr>, t)"

definition lone_select :: "(db \<Rightarrow> uuid \<Rightarrow> 'a) \<Rightarrow> session \<Rightarrow> uuid \<Rightarrow> (db, exn, 'a \<times> session) io" where
  "lone_select f s i t = (let (v, s') = see s t in (Inr (f v i, s'), t))"

definition lone_transact :: "sql_write list \<Rightarrow> (db, exn, unit) io" where
  "lone_transact ws t =
     (case apply_writes ws t of None \<Rightarrow> (Inl (Lib (OtherException ''DBAPIError'' [])), t) | Some t' \<Rightarrow> (Inr (), t'))"

text \<open>A session on an idle server that was opened before nothing changed sees the tables.\<close>

interpretation lone_pg: quiet_postgres lone_connect "lone_select find_order" "lone_select find_lines"
  lone_transact id ses_level ses_snapshot "(=)"
  by unfold_locales
    (auto simp: lone_connect_def lone_select_def lone_transact_def see_def sees_def Let_def
      split: prod.splits if_splits option.splits)

section \<open>A sample database\<close>

definition mug_order :: order where
  "mug_order = \<lparr>oid = 1, customer_id = 2, lines = [mug_line],
                total = \<lparr>amount = Dec False 3960 (-2), currency = ''EUR''\<rparr>,
                internal_note = None, authorisation_id = Some ''auth_1''\<rparr>"

definition mug_tables :: db where
  "mug_tables = \<lparr>db_orders = [order_values mug_order], db_lines = line_values mug_order\<rparr>"

definition basket_tables :: db where
  "basket_tables = \<lparr>db_orders = [order_values basket_order], db_lines = line_values basket_order\<rparr>"

lemma mug_order_valid: "order_valid mug_order"
  by (simp add: mug_order_def mug_line_def eval_simps)

lemmas pg_eval =
  store_order_row_def order_values_def numeric_14_2_def char_3_def text_ok_def upsert_row_def
  line_values_def store_line_row_def int4_ok_def line_key_def

lemma save_basket_over_mug: "apply_writes (save_statements basket_order) mug_tables = Some basket_tables"
  by (simp add: save_statements_def basket_order_def basket_tables_def mug_tables_def mug_order_def
      mug_line_def spoon_line_def pg_eval)

lemma save_mug: "apply_writes (save_statements mug_order) \<lparr>db_orders = [], db_lines = []\<rparr> = Some mug_tables"
  by (simp add: save_statements_def mug_tables_def mug_order_def mug_line_def pg_eval)

lemma load_mug: "load mug_tables 1 = Inr (Some mug_order)"
  by (simp add: load_def find_order_def find_lines_def mug_tables_def mug_order_def mug_line_def
      order_values_def line_values_def to_domain_def line_to_domain_def eval_simps)

lemma db_ok_empty: "db_ok \<lparr>db_orders = [], db_lines = []\<rparr>"
  by (simp add: db_ok_def load_def find_order_def)

lemma db_ok_mug: "db_ok mug_tables"
  using save_statements_ok [OF mug_order_valid db_ok_empty save_mug] by simp

lemma commit_mug: "commit_order mug_tables mug_order = mug_tables"
proof -
  have "apply_writes (save_statements mug_order) mug_tables = Some mug_tables"
    by (simp add: save_statements_def mug_tables_def mug_order_def mug_line_def pg_eval)
  then show ?thesis by (simp add: commit_order_def)
qed

lemma commit_basket: "commit_order mug_tables basket_order = basket_tables"
  by (simp add: commit_order_def basket_order_valid save_basket_over_mug)

lemma find_order_mug: "find_order mug_tables 1 = Some (order_values mug_order)"
  by (simp add: find_order_def mug_tables_def order_values_def mug_order_def)

section \<open>Properties\<close>

text \<open>
  C21: a read is never torn. Whatever other transactions commit while \<open>get\<close> waits, the header and
  the lines it combines come from one committed version of the tables, one that was current at some
  moment during the call; so over tables that are in order it never reports corrupt data.
\<close>

theorem get_never_torn:
  assumes "postgres connect select_order select_lines transact tables level snapshot interferes"
    and "pg_get connect select_order select_lines i d = (Inr r, d')"
  shows "\<exists>v. interferes (tables d) v \<and> interferes v (tables d') \<and> load v i = Inr r
    \<and> (db_ok (tables d) \<longrightarrow> db_ok v \<and> r = db_orders_of v i)"
proof -
  obtain v where "interferes (tables d) v" "interferes v (tables d')" "load v i = Inr r"
    using postgres.get_not_torn [OF assms] by blast
  then show ?thesis
    using postgres.interferes_ok [OF assms(1)] by (intro exI [of _ v]) (auto simp: db_orders_of_def)
qed

text \<open>Another client replaces the order between the two statements of the read.\<close>

theorem get_never_torn_witness:
  "pg_get busy_connect (busy_select find_order) (busy_select find_lines) 1
     (mug_tables, [mug_order, mug_order, basket_order]) = (Inr (Some mug_order), (basket_tables, []))"
proof -
  have run: "pg_get busy_connect (busy_select find_order) (busy_select find_lines) 1
      (mug_tables, [mug_order, mug_order, basket_order]) =
      (read_aggregate 1 (order_values mug_order) (find_lines mug_tables 1), (basket_tables, []))"
    by (simp add: pg_get_def and_then_def busy_connect_def busy_select_def others_commit_def
        commit_mug commit_basket find_order_mug see_def READ_ISOLATION_LEVEL_def Let_def)
  moreover have "read_aggregate 1 (order_values mug_order) (find_lines mug_tables 1) = Inr (Some mug_order)"
    using load_mug by (auto simp: load_def find_order_mug read_aggregate_def try_then_Inr_iff)
  ultimately have fin: "pg_get busy_connect (busy_select find_order) (busy_select find_lines) 1
      (mug_tables, [mug_order, mug_order, basket_order]) = (Inr (Some mug_order), (basket_tables, []))"
    by simp
  show ?thesis
    using get_never_torn [OF busy_pg.postgres_axioms fin] fin by simp
qed



text \<open>
  C23: what is saved is what is loaded. After a save that the database accepts, loading the order
  gives an equal, valid order with its lines in their sequence, although the amounts went through
  \<open>NUMERIC(14, 2)\<close>; and every other order loads exactly as before.
\<close>

theorem save_load_roundtrip:
  assumes "order_valid ord" and "apply_writes (save_statements ord) t = Some t'"
  shows "(\<exists>ord'. load t' (oid ord) = Inr (Some ord') \<and> order_eq ord' ord \<and> order_valid ord')
    \<and> (\<forall>i. load t' i = (if i = oid ord then load t' i else load t i))"
  using save_statements_effect(1) [OF assms] save_statements_effect(2) [OF assms] by auto

theorem save_load_roundtrip_witness:
  "\<exists>ord'. load basket_tables 1 = Inr (Some ord') \<and> order_eq ord' basket_order"
  using save_load_roundtrip [OF basket_order_valid save_basket_over_mug] by (auto simp: basket_order_def)

text \<open>
  C24: a valid order is accepted by the database exactly when none of its texts contains a NUL
  character: the constraints of the domain model imply all constraints, column widths and keys of
  the tables, and nothing else of the tables' rules can reject it. (A stock keeping unit with a NUL
  passes every validator of the service and is rejected here.)
\<close>

theorem valid_order_accepted:
  assumes "order_valid ord" and "int (length (lines ord)) \<le> 2 ^ 31"
  shows "(\<exists>t'. apply_writes (save_statements ord) t = Some t') \<longleftrightarrow> order_texts_ok ord"
  using save_accepted_iff [OF assms, of t] by auto

definition nul_order :: order where
  "nul_order = mug_order\<lparr>lines := [mug_line\<lparr>sku := [CHR 0x00]\<rparr>]\<rparr>"

lemma nul_order_valid: "order_valid nul_order"
  by (simp add: nul_order_def mug_order_def mug_line_def eval_simps)

theorem valid_order_accepted_witness:
  "order_valid nul_order \<and> (\<forall>t. apply_writes (save_statements nul_order) t = None)
   \<and> (\<exists>t'. apply_writes (save_statements mug_order) mug_tables = Some t')"
proof -
  have "\<not> order_texts_ok nul_order" "order_texts_ok mug_order"
    by (simp_all add: order_texts_ok_def nul_order_def mug_order_def mug_line_def text_ok_def)
  then show ?thesis
    using valid_order_accepted [OF nul_order_valid] valid_order_accepted [OF mug_order_valid] nul_order_valid
    by (auto simp: nul_order_def mug_order_def)
qed

text \<open>
  The error for a rejected write tells nothing about the row. Two rejections that agree on the
  state code, the relation and the constraint raise the very same error, whatever the server's
  detail and message say; and it is \<open>StorageConstraintViolatedError\<close>.
\<close>

theorem rejection_reveals_no_row_data:
  assumes "transact (save_statements ord) d = (Inl (Lib (IntegrityError (Some drv))), d1)"
    and "transact' (save_statements ord') d' = (Inl (Lib (IntegrityError (Some drv'))), d2)"
    and "sqlstate drv = sqlstate drv'" and "table_name drv = table_name drv'"
    and "constraint_name drv = constraint_name drv'"
  shows "fst (pg_save transact ord d) = fst (pg_save transact' ord' d')
    \<and> (\<exists>m. fst (pg_save transact ord d) = Inl (Infra (StorageConstraintViolatedError m)))"
  using assms by (simp add: pg_save_def catch_def constraint_summary_def safe_error_fields_def)

definition reject :: driver_error where
  "reject = \<lparr>sqlstate = Some ''23514'', table_name = Some ''orders'', constraint_name = None,
             err_detail = ''Failing row contains (fragile)'', err_message = ''violates check''\<rparr>"

definition rejecting :: "driver_error \<Rightarrow> sql_write list \<Rightarrow> (db, exn, unit) io" where
  "rejecting drv ws t = (Inl (Lib (IntegrityError (Some drv))), t)"

theorem rejection_reveals_no_row_data_witness:
  "fst (pg_save (rejecting (reject\<lparr>err_detail := ''other''\<rparr>)) mug_order mug_tables) =
     Inl (Infra (StorageConstraintViolatedError
       ''the database rejected this write (sqlstate=23514, table_name=orders)''))"
proof -
  have "fst (pg_save (rejecting reject) basket_order mug_tables) =
      fst (pg_save (rejecting (reject\<lparr>err_detail := ''other''\<rparr>)) mug_order mug_tables)"
    using rejection_reveals_no_row_data [where transact = "rejecting reject" and ord = basket_order
        and transact' = "rejecting (reject\<lparr>err_detail := ''other''\<rparr>)" and ord' = mug_order
        and d = mug_tables and d' = mug_tables]
    by (simp add: rejecting_def)
  then show ?thesis
    by (simp add: pg_save_def catch_def constraint_summary_def safe_error_fields_def reject_def rejecting_def)
qed

end
