(* ===== verification/ApiMiddleware.thy ===== *)
theory ApiMiddleware
  imports Errors Prelude
begin

text \<open>
  The request middleware (\<open>api/middleware.py\<close>): the route template of a request, the correlation
  identifier bound to the log context and set on the response, and the access log. The wrapped
  ASGI application is an argument: a function from a scope and the context variables to the
  messages it sent, how it ended, and the context it left.

  The lemmas show that the substitution of path parameters inverts the matching of a route, so a
  route template never contains a parameter value (\<open>route_template_bounded\<close>).
\<close>

section \<open>Route templates\<close>

definition UNMATCHED_ROUTE :: string where
  "UNMATCHED_ROUTE = ''<unmatched>''"

definition name_start :: "char \<Rightarrow> bool" where
  "name_start c \<longleftrightarrow>
     (let n = (of_char c :: nat) in (97 \<le> n \<and> n \<le> 122) \<or> (65 \<le> n \<and> n \<le> 90) \<or> n = 95)"

definition name_part :: "char \<Rightarrow> bool" where
  "name_part c \<longleftrightarrow> name_start c \<or> is_digit c"

text \<open>
  One match of \<open>\{([a-zA-Z_][a-zA-Z0-9_]*)(?::[^}]+)?\}\<close> after the opening brace: the name, the
  matched text after the brace, and what follows the match.
\<close>

definition match_param :: "string \<Rightarrow> (string \<times> string \<times> string) option" where
  "match_param s =
     (let name = takeWhile name_part s; rest = dropWhile name_part s
      in if name = [] \<or> \<not> name_start (hd name) then None
         else case rest of
                [] \<Rightarrow> None
              | c # cs \<Rightarrow>
                  if c = CHR ''}'' then Some (name, name @ ''}'', cs)
                  else if c = CHR '':'' then
                    (let conv = takeWhile (\<lambda>x. x \<noteq> CHR ''}'') cs; tail = dropWhile (\<lambda>x. x \<noteq> CHR ''}'') cs
                     in if conv = [] \<or> tail = [] then None
                        else Some (name, name @ '':'' @ conv @ ''}'', drop 1 tail))
                  else None)"

lemma split_at_first:
  "c \<in> set xs \<Longrightarrow> xs = takeWhile (\<lambda>x. x \<noteq> c) xs @ c # drop (Suc 0) (dropWhile (\<lambda>x. x \<noteq> c) xs)"
  by (induction xs) auto

lemma match_param_shorter: "match_param s = Some (n, w, r) \<Longrightarrow> s = w @ r"
proof -
  assume m: "match_param s = Some (n, w, r)"
  have id: "s = takeWhile name_part s @ dropWhile name_part s" by simp
  show "s = w @ r"
    using m by (subst id) (auto simp: match_param_def Let_def dropWhile_eq_Cons_conv
        intro!: split_at_first split: list.splits if_splits)
qed

text \<open>\<open>_fill\<close>: parameters with a value are replaced, others are left as they are.\<close>

function fill :: "string \<Rightarrow> (string \<rightharpoonup> string) \<Rightarrow> string" where
  "fill [] params = []"
| "fill (c # s) params =
     (if c = CHR ''{'' then
        (case match_param s of
           Some (n, w, r) \<Rightarrow> (case params n of Some v \<Rightarrow> v | None \<Rightarrow> c # w) @ fill r params
         | None \<Rightarrow> c # fill s params)
      else c # fill s params)"
  by pat_completeness auto
termination
  by (relation "measure (\<lambda>(s, params). length s)") (auto dest: match_param_shorter)

text \<open>The parts of an ASGI scope the code reads; \<open>sc_route\<close> is the path of the matched route.\<close>

record scope =
  sc_type :: string
  sc_method :: "string option"
  sc_path :: string
  sc_route :: "string option"
  sc_path_params :: "string \<rightharpoonup> string"
  sc_headers :: "(string \<times> string) list"
  sc_correlation_id :: "string option"

definition route_template :: "scope \<Rightarrow> string" where
  "route_template sc =
     (case sc_route sc of
        None \<Rightarrow> UNMATCHED_ROUTE
      | Some inner \<Rightarrow>
          (let raw = sc_path sc; concrete = fill inner (sc_path_params sc)
           in if ends_with raw concrete then take (length raw - length concrete) raw @ inner else inner))"

text \<open>The prefix of a raw path that ends with the filled template is what it was mounted under.\<close>

lemma route_template_prefix:
  assumes "sc_route sc = Some inner" and "sc_path sc = prefix @ fill inner (sc_path_params sc)"
  shows "route_template sc = prefix @ inner"
proof -
  have "ends_with (sc_path sc) (fill inner (sc_path_params sc))"
    using assms(2) by (auto simp: ends_with_iff)
  then show ?thesis using assms by (simp add: route_template_def)
qed

lemma route_template_ends: "sc_route sc = Some inner \<Longrightarrow> \<exists>prefix. route_template sc = prefix @ inner"
  by (auto simp: route_template_def Let_def)

section \<open>Messages and headers\<close>

datatype asgi_message =
    ResponseStart nat "(string \<times> string) list"
  | OtherMessage string

definition CORRELATION_HEADER :: string where
  "CORRELATION_HEADER = ''X-Request-ID''"

definition lower_char :: "char \<Rightarrow> char" where
  "lower_char c =
     (let n = (of_char c :: nat) in if 65 \<le> n \<and> n \<le> 90 then char_of (n + 32) else c)"

definition lower :: "string \<Rightarrow> string" where
  "lower s = map lower_char s"

text \<open>Header names are compared without case; \<open>Headers.get\<close> returns the first.\<close>

definition header_get :: "(string \<times> string) list \<Rightarrow> string \<Rightarrow> string option" where
  "header_get hs name = map_option snd (find (\<lambda>(k, v). lower k = lower name) hs)"

text \<open>
  \<open>MutableHeaders.__setitem__\<close>: the first occurrence gets the value, further ones are removed, and
  a name that is not there is appended; names are stored in lower case.
\<close>

definition header_set :: "(string \<times> string) list \<Rightarrow> string \<Rightarrow> string \<Rightarrow> (string \<times> string) list" where
  "header_set hs name v =
     (if list_ex (\<lambda>(k, x). lower k = lower name) hs
      then takeWhile (\<lambda>(k, x). lower k \<noteq> lower name) hs @ [(lower name, v)]
           @ filter (\<lambda>(k, x). lower k \<noteq> lower name) (drop 1 (dropWhile (\<lambda>(k, x). lower k \<noteq> lower name) hs))
      else hs @ [(lower name, v)])"

lemma header_get_set: "header_get (header_set hs name v) name = Some v"
proof (cases "list_ex (\<lambda>(k, x). lower k = lower name) hs")
  case True
  have "find (\<lambda>(k, x). lower k = lower name) (takeWhile (\<lambda>(k, x). lower k \<noteq> lower name) hs @ (lower name, v) # ys)
      = Some (lower name, v)" for ys
    by (induction hs) (auto simp: lower_def lower_char_def Let_def)
  then show ?thesis using True by (simp add: header_get_def header_set_def)
next
  case False
  then have "find (\<lambda>(k, x). lower k = lower name) (hs @ [(lower name, v)]) = Some (lower name, v)"
    by (induction hs) (auto simp: lower_def lower_char_def Let_def)
  then show ?thesis using False by (simp add: header_get_def header_set_def)
qed

section \<open>The two middlewares\<close>

text \<open>
  An ASGI application runs on a scope, which it may extend (the router sets the matched route), and
  on the state of the task: the context variables of the log and the lines written. It sends
  messages and returns or raises.
\<close>

record task_state =
  ts_context :: "(string \<times> string) list"
  ts_log :: "log_line list"

type_synonym asgi_app = "scope \<Rightarrow> task_state \<Rightarrow> (asgi_message list \<times> exn option \<times> scope) \<times> task_state"

fun set_correlation :: "string \<Rightarrow> asgi_message \<Rightarrow> asgi_message" where
  "set_correlation c (ResponseStart code hs) = ResponseStart code (header_set hs CORRELATION_HEADER c)"
| "set_correlation c m = m"

text \<open>\<open>incoming or uuid4().hex\<close>: an empty header is replaced as well.\<close>

definition correlation_id_for :: "string \<Rightarrow> scope \<Rightarrow> string" where
  "correlation_id_for fresh sc =
     (case header_get (sc_headers sc) (lower CORRELATION_HEADER) of
        None \<Rightarrow> fresh
      | Some v \<Rightarrow> if v = [] then fresh else v)"

definition correlation_middleware :: "string \<Rightarrow> asgi_app \<Rightarrow> asgi_app" where
  "correlation_middleware fresh app sc ts =
     (if sc_type sc \<noteq> ''http'' then app sc ts
      else
        let c = correlation_id_for fresh sc;
            ((msgs, ended, sc'), ts') = app (sc\<lparr>sc_correlation_id := Some c\<rparr>) (ts\<lparr>ts_context := [(''correlation_id'', c)]\<rparr>)
        in ((map (set_correlation c) msgs, ended, sc'), ts'\<lparr>ts_context := []\<rparr>))"

definition EXCLUDED_FROM_ACCESS_LOG :: "string list" where
  "EXCLUDED_FROM_ACCESS_LOG = [''/healthz'', ''/readyz'', ''/startupz'']"

text \<open>The status of the last response start, or 500 when none was sent.\<close>

fun sent_status :: "nat \<Rightarrow> asgi_message list \<Rightarrow> nat" where
  "sent_status code [] = code"
| "sent_status code (ResponseStart c hs # ms) = sent_status c ms"
| "sent_status code (OtherMessage b # ms) = sent_status code ms"

text \<open>The log line carries the context variables that are bound when it is written.\<close>

definition access_line :: "(string \<times> string) list \<Rightarrow> string \<Rightarrow> string \<Rightarrow> nat \<Rightarrow> string \<Rightarrow> log_line" where
  "access_line context_vars verb template code duration =
     (''http.access'', context_vars @ [(''http.request.method'', verb), (''http.route'', template),
        (''http.response.status_code'', nat_str code), (''duration_ms'', duration)])"

definition access_log_middleware :: "string \<Rightarrow> asgi_app \<Rightarrow> asgi_app" where
  "access_log_middleware duration app sc ts =
     (if sc_type sc \<noteq> ''http'' then app sc ts
      else
        let ((msgs, ended, sc'), ts') = app sc ts;
            template = route_template sc'
        in ((msgs, ended, sc'),
            if template \<in> set EXCLUDED_FROM_ACCESS_LOG then ts'
            else ts'\<lparr>ts_log := access_line (ts_context ts') (case sc_method sc' of None \<Rightarrow> [] | Some m \<Rightarrow> m)
                       template (sent_status 500 msgs) duration # ts_log ts'\<rparr>))"

text \<open>As \<open>main.py\<close> adds them: the middleware added last is the outermost.\<close>

definition with_middleware :: "string \<Rightarrow> string \<Rightarrow> asgi_app \<Rightarrow> asgi_app" where
  "with_middleware fresh duration app =
     correlation_middleware fresh (access_log_middleware duration app)"

section \<open>Properties\<close>

text \<open>
  The route template never depends on parameter values. For a matched route whose template, filled
  with the matched values, ends the raw path, the template is the mount prefix followed by the
  route's own template; so two requests to one route under one prefix are logged alike.
\<close>

theorem route_template_bounded:
  assumes "sc_route sc = Some inner" and "sc_path sc = prefix @ fill inner (sc_path_params sc)"
    and "sc_route sc' = Some inner" and "sc_path sc' = prefix @ fill inner (sc_path_params sc')"
  shows "route_template sc = prefix @ inner \<and> route_template sc' = route_template sc"
  using route_template_prefix [OF assms(1,2)] route_template_prefix [OF assms(3,4)] by simp

definition order_scope :: "string \<Rightarrow> scope" where
  "order_scope i = \<lparr>sc_type = ''http'', sc_method = Some ''GET'', sc_path = ''/api/v1/orders/'' @ i,
     sc_route = Some ''/orders/{order_id}'', sc_path_params = [''order_id'' \<mapsto> i], sc_headers = [],
     sc_correlation_id = None\<rparr>"

declare fill.simps [simp del]

lemma fill_order: "fill ''/orders/{order_id}'' [''order_id'' \<mapsto> v] = ''/orders/'' @ v"
  by (simp add: fill.simps match_param_def name_part_def name_start_def is_digit_def Let_def)

text \<open>The identifier that once broke textual substitution: the parameter is itself \<open>orders\<close>.\<close>

theorem route_template_bounded_witness:
  "route_template (order_scope ''orders'') = ''/api/v1/orders/{order_id}''
   \<and> route_template (order_scope ''42'') = ''/api/v1/orders/{order_id}''"
  using route_template_bounded [of "order_scope ''orders''" "''/orders/{order_id}''" "''/api/v1''" "order_scope ''42''"]
  by (simp add: order_scope_def fill_order)

text \<open>
  Every HTTP response carries the request's correlation identifier, the caller's own when it sent
  one, and so does the access log line; afterwards nothing stays bound, even when the application
  raised. The wrapped application may do anything except unbind the context.
\<close>

theorem correlation_reaches_response_and_log:
  assumes "sc_type sc = ''http''"
    and "app (sc\<lparr>sc_correlation_id := Some c\<rparr>) (ts\<lparr>ts_context := [(''correlation_id'', c)]\<rparr>) = ((msgs, ended, sc'), ts')"
    and "ts_context ts' = [(''correlation_id'', c)]" and "c = correlation_id_for fresh sc"
    and "route_template sc' \<notin> set EXCLUDED_FROM_ACCESS_LOG"
    and "with_middleware fresh duration app sc ts = ((sent, ended', sc''), ts'')"
  shows "ended' = ended \<and> ts_context ts'' = [] \<and> length sent = length msgs
    \<and> list_all (\<lambda>m. case m of ResponseStart code hs \<Rightarrow> header_get hs CORRELATION_HEADER = Some c | _ \<Rightarrow> True) sent
    \<and> (\<exists>kvs. ts_log ts'' = (''http.access'', (''correlation_id'', c) # kvs) # ts_log ts')"
proof -
  have "header_get (header_set hs CORRELATION_HEADER c) CORRELATION_HEADER = Some c" for hs
    by (rule header_get_set)
  then have "case set_correlation c m of ResponseStart code hs \<Rightarrow> header_get hs CORRELATION_HEADER = Some c | _ \<Rightarrow> True" for m
    by (cases m) simp_all
  then show ?thesis
    using assms by (auto simp: with_middleware_def correlation_middleware_def access_log_middleware_def
        access_line_def list_all_iff Let_def)
qed

definition failing_app :: asgi_app where
  "failing_app sc ts = (([ResponseStart 200 [(''x-request-id'', ''other'')]], Some (Lib TimeoutError),
     sc\<lparr>sc_route := Some ''/orders/{order_id}''\<rparr>), ts)"

theorem correlation_reaches_response_and_log_witness:
  "\<exists>sent ended sc'' ts''. with_middleware ''fresh'' ''1.5'' failing_app
      ((order_scope ''42'')\<lparr>sc_headers := [(''X-Request-Id'', ''abc'')]\<rparr>) \<lparr>ts_context = [], ts_log = []\<rparr>
      = ((sent, ended, sc''), ts'')
    \<and> ended = Some (Lib TimeoutError) \<and> ts_context ts'' = [] \<and> length (ts_log ts'') = 1
    \<and> list_all (\<lambda>m. case m of ResponseStart code hs \<Rightarrow> header_get hs CORRELATION_HEADER = Some ''abc'' | _ \<Rightarrow> True) sent"
proof -
  let ?sc = "(order_scope ''42'')\<lparr>sc_headers := [(''X-Request-Id'', ''abc'')]\<rparr>"
  let ?ts = "\<lparr>ts_context = [], ts_log = []\<rparr>"
  have c: "''abc'' = correlation_id_for ''fresh'' ?sc"
    by (simp add: correlation_id_for_def header_get_def CORRELATION_HEADER_def lower_def lower_char_def char_of_def bit_0)
  obtain sent ended sc'' ts'' where run: "with_middleware ''fresh'' ''1.5'' failing_app ?sc ?ts = ((sent, ended, sc''), ts'')"
    by (metis prod.exhaust)
  have app: "failing_app (?sc\<lparr>sc_correlation_id := Some ''abc''\<rparr>) (?ts\<lparr>ts_context := [(''correlation_id'', ''abc'')]\<rparr>)
      = (([ResponseStart 200 [(''x-request-id'', ''other'')]], Some (Lib TimeoutError),
          ?sc\<lparr>sc_correlation_id := Some ''abc'', sc_route := Some ''/orders/{order_id}''\<rparr>),
         ?ts\<lparr>ts_context := [(''correlation_id'', ''abc'')]\<rparr>)"
    by (simp add: failing_app_def)
  have http: "sc_type ?sc = ''http''" by (simp add: order_scope_def)
  have template: "route_template (?sc\<lparr>sc_correlation_id := Some ''abc'', sc_route := Some ''/orders/{order_id}''\<rparr>)
      = ''/api/v1/orders/{order_id}''"
    by (rule route_template_prefix [of _ "''/orders/{order_id}''" "''/api/v1''", simplified])
      (simp_all add: order_scope_def fill_order)
  have "ended = Some (Lib TimeoutError) \<and> ts_context ts'' = []
      \<and> list_all (\<lambda>m. case m of ResponseStart code hs \<Rightarrow> header_get hs CORRELATION_HEADER = Some ''abc'' | _ \<Rightarrow> True) sent
      \<and> (\<exists>kvs. ts_log ts'' = (''http.access'', (''correlation_id'', ''abc'') # kvs) # [])"
    using correlation_reaches_response_and_log [OF http app _ c _ run] template
    by (simp add: EXCLUDED_FROM_ACCESS_LOG_def)
  then show ?thesis using run by auto
qed

end
