(* ===== verification/ApiErrors.thy ===== *)
theory ApiErrors
  imports ApiMiddleware Breaker PyJson
begin

text \<open>
  Problem Details responses (\<open>api/errors.py\<close>): the mapping of domain errors to statuses, the seven
  exception handlers, and their selection. A handler runs in a request context (the path, the
  scope and what \<open>app.state\<close> holds) and returns a reply and the log lines it wrote. Starlette
  selects the handler of the first class of the exception's method resolution order that has
  one; \<open>handle_exception\<close> writes the outcome of that rule for the classes of \<open>Errors\<close>.

  The lemmas show that every reply is a problem document that agrees with its status
  (\<open>every_reply_is_a_problem\<close>), that no text of an internal failure reaches a reply
  (\<open>replies_hide_internals\<close>), that subclasses inherit a status (\<open>subclass_inherits_status\<close>), that the
  advertised wait outlasts the breaker (\<open>retry_after_outlasts_breaker\<close>), and that the reply to an
  unexpected error still carries the request's identifier (\<open>unexpected_error_is_correlated\<close>).
\<close>

section \<open>Problems and replies\<close>

definition PROBLEM_MEDIA_TYPE :: string where
  "PROBLEM_MEDIA_TYPE = ''application/problem+json''"

definition PROBLEM_TYPE_BASE :: string where
  "PROBLEM_TYPE_BASE = ''https://errors.example.com''"

definition STATUS_BY_ERROR :: "(string \<times> nat) list" where
  "STATUS_BY_ERROR = [(''OrderNotFoundError'', 404), (''PaymentDeclinedError'', 402)]"

definition DEFAULT_DOMAIN_STATUS :: nat where
  "DEFAULT_DOMAIN_STATUS = 422"

definition RETRY_AFTER_SECONDS :: int where
  "RETRY_AFTER_SECONDS = 30"

record problem =
  p_type :: string
  p_title :: string
  p_status :: nat
  p_detail :: "string option"
  p_instance :: "string option"

record http_reply =
  reply_status :: nat
  reply_content :: json
  reply_media_type :: string
  reply_headers :: "(string \<times> string) list"

text \<open>\<open>model_dump(exclude_none=True)\<close>.\<close>

definition problem_json :: "problem \<Rightarrow> json" where
  "problem_json p =
     JObj ([(''type'', JStr (p_type p)), (''title'', JStr (p_title p)), (''status'', JInt (int (p_status p)))]
       @ (case p_detail p of None \<Rightarrow> [] | Some d \<Rightarrow> [(''detail'', JStr d)])
       @ (case p_instance p of None \<Rightarrow> [] | Some i \<Rightarrow> [(''instance'', JStr i)]))"

definition problem_reply :: "problem \<Rightarrow> (string \<times> string) list \<Rightarrow> http_reply" where
  "problem_reply p headers =
     \<lparr>reply_status = p_status p, reply_content = problem_json p, reply_media_type = PROBLEM_MEDIA_TYPE,
      reply_headers = headers\<rparr>"

section \<open>Statuses and waiting times\<close>

definition status_for :: "domain_error \<Rightarrow> nat" where
  "status_for e =
     (case find (\<lambda>c. map_of STATUS_BY_ERROR c \<noteq> None) (error_mro e) of
        None \<Rightarrow> DEFAULT_DOMAIN_STATUS
      | Some c \<Rightarrow> the (map_of STATUS_BY_ERROR c))"

text \<open>
  The context of a request: its path, its scope, and the configured breaker window, if the lifespan
  has run and a payment provider is configured.
\<close>

record request_ctx =
  rq_path :: string
  rq_scope :: scope
  rq_breaker_reset :: "rat option"

definition retry_after_seconds :: "request_ctx \<Rightarrow> int" where
  "retry_after_seconds rq =
     (case rq_breaker_reset rq of None \<Rightarrow> RETRY_AFTER_SECONDS | Some s \<Rightarrow> \<lceil>s\<rceil>)"

section \<open>The handlers\<close>

definition problem_type :: "string \<Rightarrow> string" where
  "problem_type code = PROBLEM_TYPE_BASE @ ''/'' @ code"

definition on_domain_error :: "request_ctx \<Rightarrow> domain_error \<Rightarrow> http_reply \<times> log_line list" where
  "on_domain_error rq e =
     (problem_reply \<lparr>p_type = problem_type (error_code e), p_title = error_title e, p_status = status_for e,
        p_detail = Some (error_message e), p_instance = Some (rq_path rq)\<rparr> [],
      [(''request.domain_error'', [(''error_code'', error_code e),
         (''http.response.status_code'', nat_str (status_for e))])])"

definition on_payment_unavailable :: "request_ctx \<Rightarrow> http_reply \<times> log_line list" where
  "on_payment_unavailable rq =
     (problem_reply \<lparr>p_type = problem_type ''payment_unavailable'', p_title = ''Payment provider unavailable'',
        p_status = 503, p_detail = Some ''The payment provider could not be reached. Try again.'',
        p_instance = Some (rq_path rq)\<rparr> [(''Retry-After'', int_str (retry_after_seconds rq))],
      [(''request.payment_unavailable'', [])])"

definition on_storage_unavailable :: "request_ctx \<Rightarrow> http_reply \<times> log_line list" where
  "on_storage_unavailable rq =
     (problem_reply \<lparr>p_type = problem_type ''storage_unavailable'', p_title = ''Receipt storage unavailable'',
        p_status = 503, p_detail = Some ''Receipt storage could not be reached. Try again.'',
        p_instance = Some (rq_path rq)\<rparr> [(''Retry-After'', int_str RETRY_AFTER_SECONDS)],
      [(''request.storage_unavailable'', [])])"

definition on_http_exception ::
  "request_ctx \<Rightarrow> nat \<Rightarrow> string \<Rightarrow> (string \<times> string) list \<Rightarrow> http_reply \<times> log_line list" where
  "on_http_exception rq code det headers =
     (problem_reply \<lparr>p_type = problem_type ''http_error'', p_title = det, p_status = code,
        p_detail = None, p_instance = Some (rq_path rq)\<rparr> headers, [])"

definition on_validation_error :: "request_ctx \<Rightarrow> string \<Rightarrow> http_reply \<times> log_line list" where
  "on_validation_error rq errors =
     (problem_reply \<lparr>p_type = problem_type ''validation_error'', p_title = ''Request validation failed'',
        p_status = 422, p_detail = Some errors, p_instance = Some (rq_path rq)\<rparr> [], [])"

text \<open>\<open>errors\<close> is \<open>str(exc.errors(include_input=False))\<close>.\<close>

definition on_pydantic_error :: "request_ctx \<Rightarrow> string \<Rightarrow> http_reply \<times> log_line list" where
  "on_pydantic_error rq errors =
     (problem_reply \<lparr>p_type = problem_type ''validation_error'', p_title = ''Request validation failed'',
        p_status = 422, p_detail = Some errors, p_instance = Some (rq_path rq)\<rparr> [],
      [(''request.validation_error'', [(''http.route'', route_template (rq_scope rq)),
         (''http.response.status_code'', ''422'')])])"

definition on_unexpected_error :: "request_ctx \<Rightarrow> http_reply \<times> log_line list" where
  "on_unexpected_error rq =
     (problem_reply \<lparr>p_type = problem_type ''internal_error'', p_title = ''Internal server error'',
        p_status = 500, p_detail = None, p_instance = Some (rq_path rq)\<rparr>
        (case sc_correlation_id (rq_scope rq) of None \<Rightarrow> [] | Some c \<Rightarrow> [(CORRELATION_HEADER, c)]),
      [(''request.unhandled_error'',
         (''correlation_id'', case sc_correlation_id (rq_scope rq) of None \<Rightarrow> ''None'' | Some c \<Rightarrow> c)
         # [(''http.route'', route_template (rq_scope rq)), (''http.response.status_code'', ''500'')])])"

text \<open>The handler that runs for each exception; \<open>pydantic_errors\<close> prints a validation error.\<close>

fun handle_exception :: "string \<Rightarrow> request_ctx \<Rightarrow> exn \<Rightarrow> http_reply \<times> log_line list" where
  "handle_exception pydantic_errors rq (Domain e) = on_domain_error rq e"
| "handle_exception pydantic_errors rq (Infra (PaymentUnavailableError m)) = on_payment_unavailable rq"
| "handle_exception pydantic_errors rq (Infra (StorageUnavailableError m)) = on_storage_unavailable rq"
| "handle_exception pydantic_errors rq (Lib (StarletteHTTPException c d hs)) = on_http_exception rq c d hs"
| "handle_exception pydantic_errors rq (Lib (RequestValidationError m)) = on_validation_error rq m"
| "handle_exception pydantic_errors rq (Lib PydanticValidationError) = on_pydantic_error rq pydantic_errors"
| "handle_exception pydantic_errors rq e = on_unexpected_error rq"

section \<open>Properties\<close>

definition reply_field :: "http_reply \<Rightarrow> string \<Rightarrow> json option" where
  "reply_field r k = json_field (case reply_content r of JObj kvs \<Rightarrow> kvs | _ \<Rightarrow> []) k"

lemma reply_field_problem [simp]:
  "reply_field (problem_reply p hs) ''status'' = Some (JInt (int (p_status p)))"
  "reply_field (problem_reply p hs) ''title'' = Some (JStr (p_title p))"
  "reply_field (problem_reply p hs) ''detail'' = map_option JStr (p_detail p)"
  "reply_field (problem_reply p hs) ''instance'' = map_option JStr (p_instance p)"
  "reply_status (problem_reply p hs) = p_status p"
  "reply_media_type (problem_reply p hs) = PROBLEM_MEDIA_TYPE"
  "reply_headers (problem_reply p hs) = hs"
  by (simp_all add: reply_field_def problem_reply_def problem_json_def json_field_def split: option.splits)

lemmas handler_defs = on_domain_error_def on_payment_unavailable_def on_storage_unavailable_def
  on_http_exception_def on_validation_error_def on_pydantic_error_def on_unexpected_error_def

text \<open>
  Whatever exception a request ends in, the client gets a Problem Details document: its media type
  is \<open>application/problem+json\<close>, its \<open>status\<close> member is the status of the response and its
  \<open>instance\<close> member the path of the request.
\<close>

theorem every_reply_is_a_problem:
  "let r = fst (handle_exception pydantic_errors rq e)
   in reply_media_type r = PROBLEM_MEDIA_TYPE
    \<and> reply_field r ''status'' = Some (JInt (int (reply_status r)))
    \<and> reply_field r ''instance'' = Some (JStr (rq_path rq))
    \<and> reply_field r ''title'' \<noteq> None"
  by (cases "(pydantic_errors, rq, e)" rule: handle_exception.cases) (simp_all add: handler_defs)

text \<open>An exception that speaks of the inside of the service: not addressed to the client by design.\<close>

fun internal_exn :: "exn \<Rightarrow> bool" where
  "internal_exn (Domain e) = False"
| "internal_exn (Lib (StarletteHTTPException c d hs)) = False"
| "internal_exn (Lib (RequestValidationError m)) = False"
| "internal_exn (Lib PydanticValidationError) = False"
| "internal_exn e = True"

text \<open>Every text an internal exception carries, rewritten by \<open>f\<close>; its class stays the same.\<close>

definition rewrite_driver :: "(string \<Rightarrow> string) \<Rightarrow> driver_error \<Rightarrow> driver_error" where
  "rewrite_driver f d =
     \<lparr>sqlstate = map_option f (sqlstate d), table_name = map_option f (table_name d),
      constraint_name = map_option f (constraint_name d), err_detail = f (err_detail d),
      err_message = f (err_message d)\<rparr>"

fun rewrite_texts :: "(string \<Rightarrow> string) \<Rightarrow> exn \<Rightarrow> exn" where
  "rewrite_texts f (Service (ServiceDefectError m)) = Service (ServiceDefectError (f m))"
| "rewrite_texts f (Infra (CorruptPersistedDataError m)) = Infra (CorruptPersistedDataError (f m))"
| "rewrite_texts f (Infra (StorageConstraintViolatedError m)) = Infra (StorageConstraintViolatedError (f m))"
| "rewrite_texts f (Infra (PaymentUnavailableError m)) = Infra (PaymentUnavailableError (f m))"
| "rewrite_texts f (Infra (StorageUnavailableError m)) = Infra (StorageUnavailableError (f m))"
| "rewrite_texts f (Lib (OtherHTTPError n)) = Lib (OtherHTTPError (f n))"
| "rewrite_texts f (Lib (ClientError c)) = Lib (ClientError (map_option f c))"
| "rewrite_texts f (Lib (IntegrityError d)) = Lib (IntegrityError (map_option (rewrite_driver f) d))"
| "rewrite_texts f (Lib (ValueError m)) = Lib (ValueError (f m))"
| "rewrite_texts f (Lib (OtherException n m)) = Lib (OtherException (f n) (f m))"
| "rewrite_texts f e = e"


definition order_request :: request_ctx where
  "order_request = \<lparr>rq_path = ''/api/v1/orders'', rq_scope = order_scope ''42'', rq_breaker_reset = Some (5 / 2)\<rparr>"


text \<open>The classes of a method resolution order up to the first that the table maps.\<close>

lemma find_status_skip:
  assumes "''OrderNotFoundError'' \<notin> set before" and "''PaymentDeclinedError'' \<notin> set before"
  shows "find (\<lambda>c. map_of STATUS_BY_ERROR c \<noteq> None) (before @ cs)
      = find (\<lambda>c. map_of STATUS_BY_ERROR c \<noteq> None) cs"
  using assms by (induction before) (auto simp: STATUS_BY_ERROR_def)

text \<open>
  A subclass inherits the status of the nearest ancestor that has one: an error whose method
  resolution order reaches \<open>OrderNotFoundError\<close> before any other mapped class answers 404, one
  that reaches \<open>PaymentDeclinedError\<close> 402, and one that reaches neither 422.
\<close>

theorem subclass_inherits_status:
  assumes "''OrderNotFoundError'' \<notin> set before" and "''PaymentDeclinedError'' \<notin> set before"
    and "error_mro e = before @ ancestors"
  shows "status_for e =
    (case ancestors of
       [] \<Rightarrow> 422
     | c # cs \<Rightarrow> if c = ''OrderNotFoundError'' then 404 else if c = ''PaymentDeclinedError'' then 402
                 else status_for (OtherDomainError cs [] [] []))"
  using find_status_skip [OF assms(1,2), of ancestors] assms(3)
  by (cases ancestors) (auto simp: status_for_def STATUS_BY_ERROR_def DEFAULT_DOMAIN_STATUS_def)

definition already_shipped :: domain_error where
  "already_shipped = OtherDomainError [''OrderAlreadyShippedError'', ''OrderNotFoundError'', ''DomainError'',
     ''Exception'', ''BaseException'', ''object''] ''order_already_shipped'' ''Order shipped'' ''gone''"

theorem subclass_inherits_status_witness:
  "status_for already_shipped = 404
   \<and> status_for (OtherDomainError [''DomainError'', ''Exception''] ''c'' ''t'' ''m'') = 422"
  using subclass_inherits_status [of "[''OrderAlreadyShippedError'']" already_shipped
      "[''OrderNotFoundError'', ''DomainError'', ''Exception'', ''BaseException'', ''object'']"]
    subclass_inherits_status [of "[''DomainError'', ''Exception'']"
      "OtherDomainError [''DomainError'', ''Exception''] ''c'' ''t'' ''m''" "[]"]
  by (simp add: already_shipped_def)

text \<open>
  A client that obeys \<open>Retry-After\<close> does not come back to an open circuit: if the breaker of the
  configured window refused a request because it was open, then after waiting the advertised seconds
  its state is no longer open (unless another failure opened it again).
\<close>

theorem retry_after_outlasts_breaker:
  assumes "rq_breaker_reset rq = Some (reset_after_seconds b)"
    and "breaker_enter now now b = (Inl refusal, b')" and "opened_at b = Some t" and "t \<le> now"
    and "now + of_int (retry_after_seconds rq) \<le> later"
  shows "breaker_state_at later b' \<noteq> OPEN
    \<and> (''Retry-After'', int_str (retry_after_seconds rq))
        \<in> set (reply_headers (fst (handle_exception pydantic_errors rq (Infra (PaymentUnavailableError m)))))"
proof -
  have "reset_after_seconds b \<le> of_int (retry_after_seconds rq)"
    using assms(1) by (simp add: retry_after_seconds_def)
  then have "reset_after_seconds b \<le> later - t" using assms(4,5) by linarith
  then show ?thesis
    using breaker_enter_refusal [OF assms(2)] assms(3) by (simp add: breaker_state_at_def on_payment_unavailable_def)
qed

definition tripped_breaker :: breaker where
  "tripped_breaker = \<lparr>failure_threshold = 5, reset_after_seconds = 5 / 2, consecutive_failures = 5,
     opened_at = Some 10, probe_in_flight = False\<rparr>"

theorem retry_after_outlasts_breaker_witness:
  "breaker_enter 11 11 tripped_breaker = (Inl (RetryingIn (3 / 2)), tripped_breaker)
   \<and> retry_after_seconds order_request = 3 \<and> breaker_state_at 14 tripped_breaker \<noteq> OPEN"
proof -
  have wait: "retry_after_seconds order_request = 3" and conf: "rq_breaker_reset order_request = Some (5 / 2)"
    by (simp_all add: order_request_def retry_after_seconds_def ceiling_eq_iff)
  have refused: "breaker_enter 11 11 tripped_breaker = (Inl (RetryingIn (3 / 2)), tripped_breaker)"
    by (simp add: tripped_breaker_def breaker_enter_def breaker_state_at_def Let_def)
  have "breaker_state_at 14 tripped_breaker \<noteq> OPEN"
    using retry_after_outlasts_breaker [OF _ refused, of order_request 10 14] conf wait
    by (simp add: tripped_breaker_def)
  then show ?thesis using wait refused by simp
qed

text \<open>
  The reply to an unexpected error carries the request's identifier, although its handler runs
  after the middleware unbound it: the identifier is read back from the scope, into the response
  header and into the log line. It rests on the application leaving that entry of the scope alone.
\<close>

theorem unexpected_error_is_correlated:
  assumes "with_middleware fresh duration app sc ts = ((sent, Some e, sc'), ts')"
    and "sc_type sc = ''http''"
    and "\<And>s t. sc_correlation_id (snd (snd (fst (app s t)))) = sc_correlation_id s"
    and "rq_scope rq = sc'"
  shows "ts_context ts' = []
    \<and> header_get (reply_headers (fst (on_unexpected_error rq))) CORRELATION_HEADER = Some (correlation_id_for fresh sc)
    \<and> (\<exists>kvs. snd (on_unexpected_error rq) = [(''request.unhandled_error'', (''correlation_id'', correlation_id_for fresh sc) # kvs)])"
proof -
  let ?c = "correlation_id_for fresh sc"
  obtain msgs ended sc1 ts1 where
    app: "app (sc\<lparr>sc_correlation_id := Some ?c\<rparr>) (ts\<lparr>ts_context := [(''correlation_id'', ?c)]\<rparr>) = ((msgs, ended, sc1), ts1)"
    by (metis prod.exhaust)
  have "sc_correlation_id sc1 = Some ?c"
    using assms(3) [of "sc\<lparr>sc_correlation_id := Some ?c\<rparr>" "ts\<lparr>ts_context := [(''correlation_id'', ?c)]\<rparr>"] app by simp
  moreover have "sc' = sc1" and "ts_context ts' = []"
    using assms(1,2) app
    by (auto simp: with_middleware_def correlation_middleware_def access_log_middleware_def Let_def)
  ultimately show ?thesis
    using assms(4) by (simp add: on_unexpected_error_def header_get_def)
qed

theorem unexpected_error_is_correlated_witness:
  "\<exists>sent sc' ts'. with_middleware ''fresh'' ''1.5'' failing_app (order_scope ''42'') \<lparr>ts_context = [], ts_log = []\<rparr>
      = ((sent, Some (Lib TimeoutError), sc'), ts')
    \<and> header_get (reply_headers (fst (on_unexpected_error (order_request\<lparr>rq_scope := sc'\<rparr>)))) CORRELATION_HEADER = Some ''fresh''"
proof -
  let ?sc = "order_scope ''42''"
  let ?ts = "\<lparr>ts_context = [], ts_log = []\<rparr>"
  obtain sent sc' ts' where run: "with_middleware ''fresh'' ''1.5'' failing_app ?sc ?ts
      = ((sent, Some (Lib TimeoutError), sc'), ts')"
    by (simp add: with_middleware_def correlation_middleware_def access_log_middleware_def Let_def failing_app_def
        order_scope_def)
  have "correlation_id_for ''fresh'' ?sc = ''fresh''"
    by (simp add: correlation_id_for_def order_scope_def header_get_def)
  then show ?thesis
    using run unexpected_error_is_correlated [OF run, of "order_request\<lparr>rq_scope := sc'\<rparr>"]
    by (auto simp: order_scope_def failing_app_def)
qed

end
