(* ===== verification/ApiSchemas.thy ===== *)
theory ApiSchemas
  imports Services
begin

text \<open>
  The HTTP schemas, their mappers and the routes of version 1 (\<open>api/v1/schemas.py\<close>,
  \<open>api/v1/mappers.py\<close>, \<open>api/v1/router.py\<close>). A field of a request body arrives as a Python value
  (\<open>py_value\<close>, floats as rationals); Pydantic's conversion of such a value to a \<open>Decimal\<close> and to a
  \<open>UUID\<close> are arguments.

  The lemmas show that the validators of the schema and those of the service's command agree, so
  a request that the schema accepted always maps to a command (\<open>to_command_valid\<close>), and that the
  mapping to a response is total on valid orders and reads nothing internal.
\<close>

section \<open>Values of a request body\<close>

datatype py_value =
    PyNone
  | PyBool bool
  | PyInt int
  | PyFloat rat
  | PyStr string
  | PyOther

definition is_integer :: "rat \<Rightarrow> bool" where
  "is_integer x \<longleftrightarrow> of_int \<lfloor>x\<rfloor> = x"

fun integral_float_to_int :: "py_value \<Rightarrow> py_value" where
  "integral_float_to_int (PyBool b) = PyBool b"
| "integral_float_to_int (PyFloat x) = (if is_integer x then PyInt \<lfloor>x\<rfloor> else PyFloat x)"
| "integral_float_to_int v = v"

text \<open>\<open>Annotated[int, Field(gt=0, le=2_147_483_647, strict=True), BeforeValidator(...)]\<close>.\<close>

definition quantity_in :: "py_value \<Rightarrow> exn + int" where
  "quantity_in v =
     (case integral_float_to_int v of
        PyInt q \<Rightarrow> if 0 < q \<and> q \<le> 2147483647 then Inr q else Inl (Lib PydanticValidationError)
      | _ \<Rightarrow> Inl (Lib PydanticValidationError))"

section \<open>Requests\<close>

definition MAX_MONEY :: decimal where
  "MAX_MONEY = Dec False 99999999999999 (-2)"

record order_line_in =
  in_sku :: string
  in_quantity :: int
  in_unit_amount :: decimal
  in_currency :: string

definition unit_amount_ok :: "decimal \<Rightarrow> bool" where
  "unit_amount_ok d \<longleftrightarrow> 0 \<le> dec_val d \<and> d \<le> MAX_MONEY \<and> fits_digits 14 2 d"

definition order_line_in_valid :: "order_line_in \<Rightarrow> bool" where
  "order_line_in_valid l \<longleftrightarrow>
     sku_ok (in_sku l) \<and> (0 < in_quantity l \<and> in_quantity l \<le> 2147483647)
     \<and> unit_amount_ok (in_unit_amount l) \<and> currency_ok (in_currency l)"

definition str_in :: "py_value \<Rightarrow> exn + string" where
  "str_in v = (case v of PyStr s \<Rightarrow> Inr s | _ \<Rightarrow> Inl (Lib PydanticValidationError))"

definition mk_order_line_in ::
  "(py_value \<Rightarrow> exn + decimal) \<Rightarrow> py_value \<Rightarrow> py_value \<Rightarrow> py_value \<Rightarrow> py_value \<Rightarrow> exn + order_line_in" where
  "mk_order_line_in decimal_in s q a c =
     try_then (str_in s) (\<lambda>s. try_then (quantity_in q) (\<lambda>q.
     try_then (decimal_in a) (\<lambda>a. try_then (str_in c) (\<lambda>c.
       let l = \<lparr>in_sku = s, in_quantity = q, in_unit_amount = a, in_currency = c\<rparr>
       in if order_line_in_valid l then Inr l else Inl (Lib PydanticValidationError)))))"

record place_order_request =
  req_customer_id :: uuid
  req_lines :: "order_line_in list"

definition request_one_currency :: "place_order_request \<Rightarrow> bool" where
  "request_one_currency r \<longleftrightarrow> \<not> length (remdups (map in_currency (req_lines r))) > 1"

definition request_total_fits :: "place_order_request \<Rightarrow> bool" where
  "request_total_fits r \<longleftrightarrow>
     \<not> MAX_MONEY < price_sum (map (\<lambda>l. (in_unit_amount l, in_quantity l)) (req_lines r))"

definition place_order_request_valid :: "place_order_request \<Rightarrow> bool" where
  "place_order_request_valid r \<longleftrightarrow>
     list_all order_line_in_valid (req_lines r) \<and> length (req_lines r) \<ge> 1
     \<and> request_one_currency r \<and> request_total_fits r"

definition mk_place_order_request :: "uuid \<Rightarrow> order_line_in list \<Rightarrow> exn + place_order_request" where
  "mk_place_order_request u ls =
     (let r = \<lparr>req_customer_id = u, req_lines = ls\<rparr>
      in if place_order_request_valid r then Inr r else Inl (Lib PydanticValidationError))"

section \<open>Mappers\<close>

definition to_command :: "place_order_request \<Rightarrow> exn + place_order_command" where
  "to_command request =
     try_then (map_sum_list (\<lambda>item. mk_place_order_line (in_sku item) (in_quantity item)
         (in_unit_amount item) (in_currency item)) (req_lines request)) (\<lambda>ls.
       mk_place_order_command (req_customer_id request) ls)"

record money_out =
  out_amount :: decimal
  out_currency :: string

record order_line_out =
  out_sku :: string
  out_quantity :: int
  out_unit_price :: money_out
  out_subtotal :: money_out

record order_response =
  out_id :: uuid
  out_customer_id :: uuid
  out_lines :: "order_line_out list"
  out_total :: money_out

definition money_to_out :: "money \<Rightarrow> money_out" where
  "money_to_out m = \<lparr>out_amount = amount m, out_currency = currency m\<rparr>"

definition line_to_out :: "order_line \<Rightarrow> exn + order_line_out" where
  "line_to_out line =
     try_then (subtotal line) (\<lambda>s.
       Inr \<lparr>out_sku = sku line, out_quantity = quantity line,
            out_unit_price = money_to_out (unit_price line), out_subtotal = money_to_out s\<rparr>)"

definition to_response :: "order \<Rightarrow> exn + order_response" where
  "to_response ord =
     try_then (map_sum_list line_to_out (lines ord)) (\<lambda>ls.
       Inr \<lparr>out_id = oid ord, out_customer_id = customer_id ord, out_lines = ls,
            out_total = money_to_out (total ord)\<rparr>)"

section \<open>Routes\<close>

text \<open>\<open>POST /orders\<close> returns the response and the \<open>Location\<close> header it set.\<close>

definition post_orders ::
  "(uuid \<Rightarrow> money \<Rightarrow> ('p, exn, authorisation) io) \<Rightarrow> (order \<Rightarrow> ('w, exn, unit) io) \<Rightarrow>
   uuid \<Rightarrow> place_order_request \<Rightarrow> ('w \<times> 'p, exn, order_response \<times> string) io" where
  "post_orders authorise save i request =
     and_then (lift_sum (to_command request)) (\<lambda>command.
     and_then (place_order authorise save i command) (\<lambda>ord.
     and_then (lift_sum (to_response ord)) (\<lambda>r.
       ret (r, ''/api/v1/orders/'' @ uuid_str (oid ord)))))"

definition get_orders ::
  "(uuid \<Rightarrow> ('w, exn, order option) io) \<Rightarrow> uuid \<Rightarrow> ('w, exn, order_response) io" where
  "get_orders get i = and_then (get_order get i) (\<lambda>ord. lift_sum (to_response ord))"

text \<open>\<open>GET /orders/{order_id}/receipt\<close>: the stored bytes as they are, with their media type.\<close>

definition RECEIPT_MEDIA_TYPE :: string where
  "RECEIPT_MEDIA_TYPE = ''application/json''"

definition get_orders_receipt ::
  "(uuid \<Rightarrow> ('w, exn, order option) io) \<Rightarrow> (uuid \<Rightarrow> ('s, exn, string option) io) \<Rightarrow>
   (uuid \<Rightarrow> string \<Rightarrow> ('s, exn, unit) io) \<Rightarrow> uuid \<Rightarrow> ('w \<times> 's, exn, string \<times> string) io" where
  "get_orders_receipt get rget rput i =
     and_then (get_receipt get rget rput i) (\<lambda>content. ret (content, RECEIPT_MEDIA_TYPE))"

section \<open>The two layers of validation agree\<close>

lemma unit_amount_ok_iff [simp]: "unit_amount_ok d = amount_ok d"
proof
  assume ok: "amount_ok d"
  then obtain m where m: "m < 10 ^ 14" "dec_val d = of_nat m / 100" by (auto simp: amount_ok_cents)
  have "(of_nat m :: rat) \<le> of_nat 99999999999999" using m(1) by (simp only: of_nat_le_iff) simp
  then have "dec_val d \<le> dec_val MAX_MONEY" using m(2) by (simp add: MAX_MONEY_def dec_val_2)
  then show "unit_amount_ok d"
    using ok by (simp add: unit_amount_ok_def amount_ok_def less_eq_decimal_def)
qed (simp add: unit_amount_ok_def amount_ok_def)

definition line_in_command :: "order_line_in \<Rightarrow> place_order_line" where
  "line_in_command l =
     \<lparr>pl_sku = in_sku l, pl_quantity = in_quantity l, pl_unit_amount = in_unit_amount l,
      pl_currency = in_currency l\<rparr>"

definition request_command :: "place_order_request \<Rightarrow> place_order_command" where
  "request_command r =
     \<lparr>cmd_customer_id = req_customer_id r, cmd_lines = map line_in_command (req_lines r)\<rparr>"

lemma line_in_command_valid [simp]: "place_order_line_valid (line_in_command l) = order_line_in_valid l"
  by (simp add: place_order_line_valid_def order_line_in_valid_def line_in_command_def quantity_ok_def)

lemma request_command_valid [simp]:
  "place_order_command_valid (request_command r) = place_order_request_valid r"
proof -
  have "map pl_currency (cmd_lines (request_command r)) = map in_currency (req_lines r)"
    and "map (\<lambda>l. (pl_unit_amount l, pl_quantity l)) (cmd_lines (request_command r)) =
      map (\<lambda>l. (in_unit_amount l, in_quantity l)) (req_lines r)"
    and "list_all place_order_line_valid (cmd_lines (request_command r)) = list_all order_line_in_valid (req_lines r)"
    by (simp_all add: request_command_def line_in_command_def list_all_iff flip: line_in_command_valid)
  then show ?thesis
    by (simp only: place_order_command_valid_def place_order_request_valid_def request_one_currency_def
        lines_must_share_one_currency_def request_total_fits_def total_must_fit_in_money_def
        MAX_MONEY_def MAX_ORDER_TOTAL_def) (simp add: request_command_def)
qed

lemma to_command_valid:
  assumes "place_order_request_valid r"
  shows "to_command r = Inr (request_command r)"
proof -
  have lines: "map_sum_list (\<lambda>item. mk_place_order_line (in_sku item) (in_quantity item)
      (in_unit_amount item) (in_currency item)) (req_lines r) = Inr (map line_in_command (req_lines r))"
  proof (rule map_sum_list_total)
    fix l assume "l \<in> set (req_lines r)"
    then have "place_order_line_valid (line_in_command l)"
      using assms by (simp add: place_order_request_valid_def list_all_iff)
    then show "mk_place_order_line (in_sku l) (in_quantity l) (in_unit_amount l) (in_currency l)
        = Inr (line_in_command l)"
      by (simp add: mk_place_order_line_def line_in_command_def)
  qed
  moreover have "place_order_command_valid (request_command r)" using assms by simp
  ultimately show ?thesis
    by (simp add: to_command_def mk_place_order_command_def request_command_def)
qed

lemma to_response_returns:
  assumes "order_valid ord"
  shows "\<exists>r. to_response ord = Inr r \<and> out_id r = oid ord \<and> length (out_lines r) = length (lines ord)
    \<and> out_total r = money_to_out (total ord)"
proof -
  have "line_to_out l = Inr (projr (line_to_out l))" if "l \<in> set (lines ord)" for l
    using order_valid_subtotal [OF assms that] by (auto simp: line_to_out_def)
  then have "map_sum_list line_to_out (lines ord) = Inr (map (\<lambda>l. projr (line_to_out l)) (lines ord))"
    by (rule map_sum_list_total)
  then show ?thesis by (simp add: to_response_def)
qed

lemma post_orders_valid:
  assumes "place_order_request_valid request"
  shows "post_orders authorise save i request wp =
    (case charge_and_save authorise save i (request_command request) wp of
       (Inl e, wp') \<Rightarrow> (Inl e, wp')
     | (Inr ord, wp') \<Rightarrow> (Inr (projr (to_response ord), ''/api/v1/orders/'' @ uuid_str i), wp'))"
proof -
  have valid: "place_order_command_valid (request_command request)" using assms by simp
  obtain x wp' where run: "charge_and_save authorise save i (request_command request) wp = (x, wp')"
    by (metis prod.exhaust)
  show ?thesis
  proof (cases x)
    case (Inl e)
    then show ?thesis
      using run by (simp add: post_orders_def to_command_valid [OF assms] place_order_valid [OF valid] and_then_def)
  next
    case (Inr ord)
    then obtain a where ord: "ord = order_for i (request_command request) a"
      using run by (auto simp: charge_and_save_def split: prod.splits sum.splits)
    obtain r where "to_response ord = Inr r"
      using to_response_returns [OF order_for_valid [OF valid, of i a]] ord by blast
    then show ?thesis
      using run Inr ord
      by (simp add: post_orders_def to_command_valid [OF assms] place_order_valid [OF valid] and_then_def)
  qed
qed

lemma map_sum_list_rejects:
  assumes "\<And>x. f x = Inr (g x) \<or> f x = Inl e" and "\<exists>x \<in> set xs. f x = Inl e"
  shows "map_sum_list f xs = Inl e"
  using assms(2)
proof (induction xs)
  case (Cons x xs)
  show ?case
  proof (cases "f x = Inl e")
    case False
    then have "f x = Inr (g x)" and "map_sum_list f xs = Inl e" using assms(1) [of x] Cons by auto
    then show ?thesis by simp
  qed simp
qed simp

lemma to_command_invalid:
  assumes "\<not> place_order_request_valid r"
  shows "to_command r = Inl (Lib PydanticValidationError)"
proof -
  let ?f = "\<lambda>item. mk_place_order_line (in_sku item) (in_quantity item) (in_unit_amount item) (in_currency item)"
  have f: "?f l = (if order_line_in_valid l then Inr (line_in_command l) else Inl (Lib PydanticValidationError))" for l
    using line_in_command_valid [of l] by (simp add: mk_place_order_line_def line_in_command_def)
  show ?thesis
  proof (cases "list_all order_line_in_valid (req_lines r)")
    case True
    then have "map_sum_list ?f (req_lines r) = Inr (map line_in_command (req_lines r))"
      by (intro map_sum_list_total) (simp add: f list_all_iff)
    moreover have "\<not> place_order_command_valid (request_command r)" using assms by simp
    ultimately show ?thesis
      by (simp add: to_command_def mk_place_order_command_def request_command_def)
  next
    case False
    then have "map_sum_list ?f (req_lines r) = Inl (Lib PydanticValidationError)"
      by (intro map_sum_list_rejects [where g = line_in_command]) (auto simp: f list_all_iff)
    then show ?thesis by (simp add: to_command_def)
  qed
qed

section \<open>Properties\<close>

text \<open>
  C27: the schema of the API and the command of the service accept the same requests. Mapping a request
  succeeds, with every field carried over, exactly when the schema's own validators accept it, so
  a request that passed validation at the edge never fails validation below it.
\<close>

theorem to_command_agrees_with_schema:
  "to_command r = (if place_order_request_valid r then Inr (request_command r)
     else Inl (Lib PydanticValidationError))"
  using to_command_valid to_command_invalid by simp

text \<open>
  A quantity is taken exactly when it is a whole number from 1 to \<open>2147483647\<close> sent as a JSON
  integer or as a float without a fraction; a boolean, text or a fraction is never taken for one.
\<close>

theorem quantity_in_exact:
  "quantity_in v = Inr q \<longleftrightarrow> 1 \<le> q \<and> q < 2 ^ 31 \<and> (v = PyInt q \<or> v = PyFloat (of_int q))"
  by (cases v) (auto simp: quantity_in_def is_integer_def)

text \<open>
  A valid order always has a response, with its identifiers, as many lines and the same total, and
  neither the internal note nor the authorisation has any influence on it.
\<close>

theorem response_hides_internals:
  assumes "order_valid ord"
  shows "\<exists>r. to_response ord = Inr r \<and> out_id r = oid ord \<and> length (out_lines r) = length (lines ord)
    \<and> out_total r = money_to_out (total ord)
    \<and> (\<forall>note auth. to_response (ord\<lparr>internal_note := note, authorisation_id := auth\<rparr>) = Inr r)"
proof -
  have "to_response (ord\<lparr>internal_note := n, authorisation_id := a\<rparr>) = to_response ord" for n a
    by (simp add: to_response_def)
  then show ?thesis using to_response_returns [OF assms] by auto
qed

theorem response_hides_internals_witness:
  "\<exists>r. to_response basket_order = Inr r \<and> out_id r = 1 \<and> length (out_lines r) = 2
    \<and> to_response (basket_order\<lparr>internal_note := None\<rparr>) = Inr r"
proof -
  obtain r where r: "to_response basket_order = Inr r" "out_id r = oid basket_order"
      "length (out_lines r) = length (lines basket_order)"
      "to_response (basket_order\<lparr>internal_note := None, authorisation_id := authorisation_id basket_order\<rparr>) = Inr r"
    using response_hides_internals [OF basket_order_valid] by blast
  then show ?thesis by (simp add: basket_order_def)
qed

end
