(* ===== verification/OrderService.thy ===== *)
theory OrderService
  imports CacheRepo S3Store PaymentGatewayHttp PostgresRepo ApiErrors ApiSchemas
begin

text \<open>
  The service as a whole: the three routes with the exception handlers behind them, over whatever
  adapters the composition root selected, as a machine that answers one request after the other.
  Its state is the state of the three adapters.

  The locale \<open>order_service\<close> joins the contracts of the ports; its lemmas carry the invariant of the
  machine (\<open>serve_good\<close>) through any sequence of requests. It is interpreted on the in-memory
  adapters and on the full stack: PostgreSQL behind the Redis cache, the HTTP gateway with its
  breaker, and S3.
\<close>

section \<open>Requests and replies\<close>

text \<open>An order is posted with the identifier that \<open>uuid4\<close> will draw for it.\<close>

datatype api_request =
    PostOrder uuid place_order_request
  | GetOrder uuid
  | GetOrderReceipt uuid

datatype api_reply =
    OrderReply nat order_response "(string \<times> string) list"
  | BytesReply nat string string
  | ProblemReply http_reply

fun reply_code :: "api_reply \<Rightarrow> nat" where
  "reply_code (OrderReply code resp hs) = code"
| "reply_code (BytesReply code resp media) = code"
| "reply_code (ProblemReply r) = reply_status r"

definition failed :: "string \<Rightarrow> request_ctx \<Rightarrow> exn \<Rightarrow> api_reply" where
  "failed pydantic_errors rq e = ProblemReply (fst (handle_exception pydantic_errors rq e))"

text \<open>One request, over the adapters' operations: the route, or the handler of what it raised.\<close>

fun serve ::
  "(uuid \<Rightarrow> ('w, exn, order option) io) \<Rightarrow> (order \<Rightarrow> ('w, exn, unit) io) \<Rightarrow>
   (uuid \<Rightarrow> money \<Rightarrow> ('p, exn, authorisation) io) \<Rightarrow>
   (uuid \<Rightarrow> ('s, exn, string option) io) \<Rightarrow> (uuid \<Rightarrow> string \<Rightarrow> ('s, exn, unit) io) \<Rightarrow>
   string \<Rightarrow> request_ctx \<Rightarrow> api_request \<Rightarrow> 'w \<times> 'p \<times> 's \<Rightarrow> api_reply \<times> 'w \<times> 'p \<times> 's" where
  "serve get save authorise rget rput pe rq (PostOrder i request) (w, p, s) =
     (case post_orders authorise save i request (w, p) of
        (Inl e, (w', p')) \<Rightarrow> (failed pe rq e, (w', p', s))
      | (Inr (resp, location), (w', p')) \<Rightarrow> (OrderReply 201 resp [(''Location'', location)], (w', p', s)))"
| "serve get save authorise rget rput pe rq (GetOrder i) (w, p, s) =
     (case get_orders get i w of
        (Inl e, w') \<Rightarrow> (failed pe rq e, (w', p, s))
      | (Inr resp, w') \<Rightarrow> (OrderReply 200 resp [], (w', p, s)))"
| "serve get save authorise rget rput pe rq (GetOrderReceipt i) (w, p, s) =
     (case get_orders_receipt get rget rput i (w, s) of
        (Inl e, (w', s')) \<Rightarrow> (failed pe rq e, (w', p, s'))
      | (Inr (content, media), (w', s')) \<Rightarrow> (BytesReply 200 content media, (w', p, s')))"

text \<open>Requests one after the other; the context of each comes from a function.\<close>

fun serve_all ::
  "(uuid \<Rightarrow> ('w, exn, order option) io) \<Rightarrow> (order \<Rightarrow> ('w, exn, unit) io) \<Rightarrow>
   (uuid \<Rightarrow> money \<Rightarrow> ('p, exn, authorisation) io) \<Rightarrow>
   (uuid \<Rightarrow> ('s, exn, string option) io) \<Rightarrow> (uuid \<Rightarrow> string \<Rightarrow> ('s, exn, unit) io) \<Rightarrow>
   string \<Rightarrow> (api_request \<Rightarrow> request_ctx) \<Rightarrow> api_request list \<Rightarrow> 'w \<times> 'p \<times> 's \<Rightarrow> api_reply list \<times> 'w \<times> 'p \<times> 's" where
  "serve_all get save authorise rget rput pe ctx [] st = ([], st)"
| "serve_all get save authorise rget rput pe ctx (r # rs) st =
     (case serve get save authorise rget rput pe (ctx r) r st of
        (a, st') \<Rightarrow>
          (case serve_all get save authorise rget rput pe ctx rs st' of (as, st'') \<Rightarrow> (a # as, st'')))"

text \<open>The identifiers the requests draw; \<open>uuid4\<close> draws none twice and none that is in use.\<close>

fun drawn :: "api_request list \<Rightarrow> uuid list" where
  "drawn [] = []"
| "drawn (PostOrder i request # rs) = i # drawn rs"
| "drawn (r # rs) = drawn rs"

definition fresh_draws :: "(uuid \<rightharpoonup> order) \<Rightarrow> api_request list \<Rightarrow> bool" where
  "fresh_draws m rs \<longleftrightarrow> distinct (drawn rs) \<and> (\<forall>i \<in> set (drawn rs). m i = None)"

section \<open>Responses of equal orders\<close>

definition money_out_eq :: "money_out \<Rightarrow> money_out \<Rightarrow> bool" where
  "money_out_eq a b \<longleftrightarrow> dec_eq (out_amount a) (out_amount b) \<and> out_currency a = out_currency b"

definition line_out_eq :: "order_line_out \<Rightarrow> order_line_out \<Rightarrow> bool" where
  "line_out_eq a b \<longleftrightarrow> out_sku a = out_sku b \<and> out_quantity a = out_quantity b
     \<and> money_out_eq (out_unit_price a) (out_unit_price b) \<and> money_out_eq (out_subtotal a) (out_subtotal b)"

definition response_eq :: "order_response \<Rightarrow> order_response \<Rightarrow> bool" where
  "response_eq a b \<longleftrightarrow> out_id a = out_id b \<and> out_customer_id a = out_customer_id b
     \<and> list_all2 line_out_eq (out_lines a) (out_lines b) \<and> money_out_eq (out_total a) (out_total b)"

lemma line_to_out_eq:
  assumes "order_line_eq a b" and "order_line_valid a" and "order_line_valid b"
    and "line_to_out a = Inr ra" and "line_to_out b = Inr rb"
  shows "line_out_eq ra rb"
proof -
  have "line_value a = line_value b"
    using assms(1) by (simp add: order_line_eq_def money_eq_def line_value_def dec_eq_def)
  then show ?thesis
    using assms subtotal_cases [OF assms(2)] subtotal_cases [OF assms(3)]
    by (auto simp: line_to_out_def line_out_eq_def order_line_eq_def money_eq_def money_out_eq_def money_to_out_def
        dec_eq_def try_then_Inr_iff split: if_splits)
qed

lemma to_response_eq:
  assumes "order_eq a b" and "order_valid a" and "order_valid b"
    and "to_response a = Inr ra" and "to_response b = Inr rb"
  shows "response_eq ra rb"
proof -
  obtain la lb where la: "list_all2 (\<lambda>l r. line_to_out l = Inr r) (lines a) la" "out_lines ra = la"
    and lb: "list_all2 (\<lambda>l r. line_to_out l = Inr r) (lines b) lb" "out_lines rb = lb"
    using assms(4,5) by (auto simp: to_response_def try_then_Inr_iff map_sum_list_Inr)
  have eq: "list_all2 order_line_eq (lines a) (lines b)" using assms(1) by (simp add: order_eq_def)
  have valid: "\<forall>l \<in> set (lines a). order_line_valid l" "\<forall>l \<in> set (lines b). order_line_valid l"
    using assms(2,3) by (auto simp: order_valid_iff list_all_iff)
  have "list_all2 line_out_eq la lb"
    using la(1) lb(1) eq valid
    by (auto simp: list_all2_conv_all_nth intro!: line_to_out_eq [of "lines a ! _" "lines b ! _"])
  then show ?thesis
    using assms(1,4,5) la(2) lb(2)
    by (auto simp: response_eq_def order_eq_def to_response_def try_then_Inr_iff money_out_eq_def money_to_out_def money_eq_def)
qed

section \<open>The machine over any adapters\<close>

text \<open>The invariant: a consistent repository, a gateway in order, and no receipt of anything else.\<close>

definition service_ok ::
  "('w \<Rightarrow> bool) \<Rightarrow> ('p \<Rightarrow> bool) \<Rightarrow> ('w \<Rightarrow> uuid \<rightharpoonup> order) \<Rightarrow> ('s \<Rightarrow> uuid \<rightharpoonup> string) \<Rightarrow> 'w \<times> 'p \<times> 's \<Rightarrow> bool" where
  "service_ok consistent ready orders receipts st \<longleftrightarrow>
     (case st of (w, p, s) \<Rightarrow> consistent w \<and> ready p
        \<and> (\<forall>i c. receipts s i = Some c \<longrightarrow> (\<exists>ord. orders w i = Some ord \<and> render_receipt ord = Inr c)))"

locale order_service =
  ordering get save orders consistent authorise ready +
  receipting get save orders consistent rget rput receipts
  for get :: "uuid \<Rightarrow> ('w, exn, order option) io"
    and save :: "order \<Rightarrow> ('w, exn, unit) io"
    and orders :: "'w \<Rightarrow> uuid \<rightharpoonup> order"
    and consistent :: "'w \<Rightarrow> bool"
    and authorise :: "uuid \<Rightarrow> money \<Rightarrow> ('p, exn, authorisation) io"
    and ready :: "'p \<Rightarrow> bool"
    and rget :: "uuid \<Rightarrow> ('s, exn, string option) io"
    and rput :: "uuid \<Rightarrow> string \<Rightarrow> ('s, exn, unit) io"
    and receipts :: "'s \<Rightarrow> uuid \<rightharpoonup> string"
begin

abbreviation "answer \<equiv> serve get save authorise rget rput"
abbreviation "answer_all \<equiv> serve_all get save authorise rget rput"

abbreviation "good \<equiv> service_ok consistent ready orders receipts"

lemma good_def: "good st = (case st of (w, p, s) \<Rightarrow> consistent w \<and> ready p \<and> receipts_faithful w s)"
  by (simp add: service_ok_def receipts_faithful_def)

lemma post_state:
  assumes "good (w, p, s)" and "orders w i = None"
    and "post_orders authorise save i request (w, p) = (r, (w', p'))"
  shows "consistent w' \<and> ready p'
    \<and> (orders w' = orders w \<or> (\<exists>ord. order_valid ord \<and> oid ord = i \<and> stores (orders w) ord (orders w')))"
proof (cases "place_order_request_valid request")
  case False
  then show ?thesis
    using assms by (auto simp: post_orders_def to_command_invalid good_def)
next
  case True
  then have v: "place_order_command_valid (request_command request)" by simp
  obtain x wp where run0: "place_order authorise save i (request_command request) (w, p) = (x, wp)"
    by (metis prod.exhaust)
  have "wp = (w', p')"
  proof (cases x)
    case (Inl e)
    then show ?thesis using assms(3) run0 by (simp add: post_orders_def to_command_valid [OF True] and_then_def)
  next
    case (Inr ord)
    then show ?thesis
      using assms(3) run0
      by (cases "to_response ord") (simp_all add: post_orders_def to_command_valid [OF True] and_then_def)
  qed
  then have run: "place_order authorise save i (request_command request) (w, p) = (x, (w', p'))"
    using run0 by simp
  have c: "consistent w" and p: "ready p" using assms(1) by (simp_all add: good_def)
  from place_order_state [OF v c assms(2) run] place_order_ready [OF v p run]
  show ?thesis by (metis oid_order_for)
qed

lemma get_orders_keeps:
  assumes "consistent w" and "get_orders get i w = (r, w')"
  shows "consistent w' \<and> orders w' = orders w"
proof -
  obtain x w1 where run: "get_order get i w = (x, w1)" by (metis prod.exhaust)
  then have "w1 = w'" using assms(2) by (cases x) (simp_all add: get_orders_def and_then_def)
  then show ?thesis using get_order_reads(1) [OF assms(1) run] by simp
qed

lemma get_orders_receipt_run:
  "get_orders_receipt get rget rput i ws = (r, ws') \<Longrightarrow>
     \<exists>x. get_receipt get rget rput i ws = (x, ws') \<and> r = map_sum id (\<lambda>c. (c, RECEIPT_MEDIA_TYPE)) x"
proof -
  assume run: "get_orders_receipt get rget rput i ws = (r, ws')"
  obtain x ws1 where g: "get_receipt get rget rput i ws = (x, ws1)" by (metis prod.exhaust)
  show "\<exists>x. get_receipt get rget rput i ws = (x, ws') \<and> r = map_sum id (\<lambda>c. (c, RECEIPT_MEDIA_TYPE)) x"
    using run g by (cases x) (auto simp: get_orders_receipt_def and_then_def)
qed

lemma stores_grows: "stores m ord m' \<Longrightarrow> m (oid ord) = None \<Longrightarrow> m \<subseteq>\<^sub>m m'"
  by (auto simp: stores_def map_le_def)

lemma faithful_mono: "receipts_faithful w s \<Longrightarrow> orders w \<subseteq>\<^sub>m orders w' \<Longrightarrow> receipts_faithful w' s"
  unfolding receipts_faithful_def by (blast dest: map_leD)

text \<open>One request keeps the invariant; orders and receipts only grow, by the identifier drawn.\<close>

lemma serve_good:
  assumes "good st" and "fresh_draws (orders (fst st)) [r]" and "answer pe rq r st = (a, st')"
  shows "good st' \<and> orders (fst st) \<subseteq>\<^sub>m orders (fst st')
    \<and> dom (orders (fst st')) \<subseteq> dom (orders (fst st)) \<union> set (drawn [r])
    \<and> receipts (snd (snd st)) \<subseteq>\<^sub>m receipts (snd (snd st'))"
proof -
  obtain w p s where st: "st = (w, p, s)" by (metis prod.exhaust)
  show ?thesis
  proof (cases r)
    case (PostOrder i request)
    obtain x w' p' where run: "post_orders authorise save i request (w, p) = (x, (w', p'))" by (metis prod.exhaust)
    have free: "orders w i = None" using assms(2) PostOrder st by (simp add: fresh_draws_def)
    have st': "st' = (w', p', s)" using assms(3) PostOrder st run by (auto split: sum.splits prod.splits)
    have post: "consistent w' \<and> ready p'
        \<and> (orders w' = orders w \<or> (\<exists>ord. order_valid ord \<and> oid ord = i \<and> stores (orders w) ord (orders w')))"
      using post_state [OF assms(1) [unfolded st] free run] .
    then have grows: "orders w \<subseteq>\<^sub>m orders w'" and "dom (orders w') \<subseteq> insert i (dom (orders w))"
      using stores_grows free by (auto simp: stores_def split: if_splits)
    then show ?thesis
      using post assms(1) faithful_mono [OF _ grows] by (auto simp: st st' good_def PostOrder)
  next
    case (GetOrder i)
    obtain x w' where run: "get_orders get i w = (x, w')" by (metis prod.exhaust)
    have st': "st' = (w', p, s)" using assms(3) GetOrder st run by (auto split: sum.splits)
    show ?thesis
      using get_orders_keeps [OF _ run] assms(1) by (auto simp: st st' good_def receipts_faithful_def)
  next
    case (GetOrderReceipt i)
    obtain x w' s' where run: "get_orders_receipt get rget rput i (w, s) = (x, (w', s'))" by (metis prod.exhaust)
    have st': "st' = (w', p, s')" using assms(3) GetOrderReceipt st run by (auto split: sum.splits prod.splits)
    obtain y where y: "get_receipt get rget rput i (w, s) = (y, (w', s'))"
      using get_orders_receipt_run [OF run] by blast
    have c: "consistent w" "receipts_faithful w s" using assms(1) by (auto simp: st good_def)
    have "receipts s \<subseteq>\<^sub>m receipts s'"
      using get_receipt_store [OF c(1) y] by (auto simp: map_le_def)
    then show ?thesis
      using get_receipt_repo [OF c(1) y] get_receipt_faithful [OF c y] assms(1)
      by (auto simp: st st' good_def GetOrderReceipt)
  qed
qed

lemma serve_all_good:
  assumes "good st" and "fresh_draws (orders (fst st)) rs" and "answer_all pe ctx rs st = (as, st')"
  shows "good st' \<and> orders (fst st) \<subseteq>\<^sub>m orders (fst st')
    \<and> dom (orders (fst st')) \<subseteq> dom (orders (fst st)) \<union> set (drawn rs)
    \<and> receipts (snd (snd st)) \<subseteq>\<^sub>m receipts (snd (snd st')) \<and> length as = length rs"
  using assms
proof (induction rs arbitrary: st as)
  case Nil
  then show ?case by simp
next
  case (Cons r rs)
  obtain a st1 where one: "answer pe (ctx r) r st = (a, st1)" by (metis prod.exhaust)
  obtain as1 where rest: "answer_all pe ctx rs st1 = (as1, st')" and as: "as = a # as1"
    using Cons.prems(3) one by (auto split: prod.splits)
  have drawn: "set (drawn (r # rs)) = set (drawn [r]) \<union> set (drawn rs)"
    "distinct (drawn (r # rs)) \<Longrightarrow> set (drawn [r]) \<inter> set (drawn rs) = {} \<and> distinct (drawn rs) \<and> distinct (drawn [r])"
    by (cases r; auto)+
  have "fresh_draws (orders (fst st)) [r]" using Cons.prems(2) drawn by (auto simp: fresh_draws_def)
  from serve_good [OF Cons.prems(1) this one]
  have step: "good st1" "orders (fst st) \<subseteq>\<^sub>m orders (fst st1)"
      "dom (orders (fst st1)) \<subseteq> dom (orders (fst st)) \<union> set (drawn [r])"
      "receipts (snd (snd st)) \<subseteq>\<^sub>m receipts (snd (snd st1))"
    by blast+
  have "fresh_draws (orders (fst st1)) rs"
    using Cons.prems(2) drawn step(3) by (auto simp: fresh_draws_def domIff)
  from Cons.IH [OF step(1) this rest]
  have ih: "good st'" "orders (fst st1) \<subseteq>\<^sub>m orders (fst st')"
      "dom (orders (fst st')) \<subseteq> dom (orders (fst st1)) \<union> set (drawn rs)"
      "receipts (snd (snd st1)) \<subseteq>\<^sub>m receipts (snd (snd st'))" "length as1 = length rs"
    by blast+
  have "dom (orders (fst st')) \<subseteq> dom (orders (fst st)) \<union> set (drawn (r # rs))"
    using ih(3) step(3) unfolding drawn(1) by blast
  then show ?case
    using ih as map_le_trans [OF step(2) ih(2)] map_le_trans [OF step(4) ih(4)] by simp
qed

text \<open>A request for an order the repository has: its response, unless the repository fails.\<close>

lemma get_reply:
  assumes "consistent w" and "orders w i = Some ord" and "answer pe rq (GetOrder i) (w, p, s) = (a, st')"
  shows "(\<exists>resp. a = OrderReply 200 resp [] \<and> to_response ord = Inr resp)
    \<or> (\<exists>e w1. get i w = (Inl e, w1) \<and> a = failed pe rq e)"
proof -
  obtain x w1 where g: "get i w = (x, w1)" by (metis prod.exhaust)
  show ?thesis
  proof (cases x)
    case (Inl e)
    then show ?thesis using assms(3) g by (simp add: get_orders_def get_order_def and_then_def)
  next
    case (Inr found)
    then have "found = Some ord" using get_returns [OF assms(1)] g assms(2) by fastforce
    moreover obtain resp where "to_response ord = Inr resp"
      using to_response_returns keyed [OF assms(1,2)] by blast
    ultimately show ?thesis using assms(3) g Inr by (simp add: get_orders_def get_order_def and_then_def)
  qed
qed

text \<open>A request that created an order left an equal one in the repository.\<close>

lemma post_reply:
  assumes "good (w, p, s)" and "orders w i = None"
    and "answer pe rq (PostOrder i request) (w, p, s) = (OrderReply code resp hs, (w', p', s'))"
  shows "code = 201 \<and> hs = [(''Location'', ''/api/v1/orders/'' @ uuid_str i)] \<and> out_id resp = i
    \<and> (\<exists>ord ord'. to_response ord = Inr resp \<and> order_valid ord \<and> orders w' i = Some ord' \<and> order_eq ord' ord \<and> order_valid ord')"
proof (cases "place_order_request_valid request")
  case False
  then show ?thesis using assms(3) by (simp add: post_orders_def to_command_invalid failed_def)
next
  case True
  then have v: "place_order_command_valid (request_command request)" by simp
  have c: "consistent w" and r: "ready p" using assms(1) by (simp_all add: good_def)
  obtain x wp where run: "charge_and_save authorise save i (request_command request) (w, p) = (x, wp)"
    by (metis prod.exhaust)
  have post: "post_orders authorise save i request (w, p)
      = (case x of Inl e \<Rightarrow> (Inl e, wp) | Inr ord \<Rightarrow> (Inr (projr (to_response ord), ''/api/v1/orders/'' @ uuid_str i), wp))"
    by (simp add: post_orders_valid [OF True] run split: sum.splits)
  show ?thesis
  proof (cases x)
    case (Inl e)
    then show ?thesis using assms(3) post by (cases wp) (simp add: failed_def)
  next
    case (Inr ord)
    have facts: "code = 201" "hs = [(''Location'', ''/api/v1/orders/'' @ uuid_str i)]" "resp = projr (to_response ord)"
        "wp = (w', p')"
      using assms(3) post Inr by (cases wp; simp)+
    have "place_order authorise save i (request_command request) (w, p) = (Inr ord, (w', p'))"
      using run Inr facts(4) by (simp add: place_order_valid [OF v])
    from place_order_placed [OF v r c assms(2) this]
    obtain a where a: "ord = order_for i (request_command request) a" "order_valid ord" "stores (orders w) ord (orders w')"
      by blast
    obtain ord' where ord': "orders w' i = Some ord'" "order_eq ord' ord" "order_valid ord'"
      using a(1,3) by (auto simp: stores_def)
    obtain resp' where "to_response ord = Inr resp'" "out_id resp' = oid ord"
      using to_response_returns [OF a(2)] by blast
    then show ?thesis using facts a ord' by auto
  qed
qed

text \<open>What a created order is served as, after any further requests.\<close>

lemma created_served:
  assumes "good st" and "fresh_draws (orders (fst st)) (PostOrder i request # rs)"
    and "answer pe rq (PostOrder i request) st = (OrderReply code resp hs, st1)"
    and "answer_all pe ctx rs st1 = (as, st2)" and "answer pe rq' (GetOrder i) st2 = (a, st3)"
  shows "code = 201 \<and> out_id resp = i
    \<and> ((\<exists>resp'. a = OrderReply 200 resp' [] \<and> response_eq resp' resp)
       \<or> (\<exists>e w1. get i (fst st2) = (Inl e, w1) \<and> a = failed pe rq' e))"
proof -
  obtain w p s where st: "st = (w, p, s)" by (metis prod.exhaust)
  obtain w1 p1 s1 where st1: "st1 = (w1, p1, s1)" by (metis prod.exhaust)
  obtain w2 p2 s2 where st2: "st2 = (w2, p2, s2)" by (metis prod.exhaust)
  have free: "orders w i = None" and one: "fresh_draws (orders (fst st)) [PostOrder i request]"
    using assms(2) by (auto simp: fresh_draws_def st)
  from post_reply [OF assms(1) [unfolded st] free assms(3) [unfolded st st1]]
  obtain ord ord' where post: "code = 201" "out_id resp = i" "to_response ord = Inr resp" "order_valid ord"
      "orders w1 i = Some ord'" "order_eq ord' ord" "order_valid ord'"
    by blast
  from serve_good [OF assms(1) one assms(3)]
  have g1: "good st1" "dom (orders w1) \<subseteq> dom (orders w) \<union> {i}" by (auto simp: st st1)
  have "fresh_draws (orders (fst st1)) rs"
    using assms(2) g1(2) by (auto simp: fresh_draws_def st st1 domIff)
  from serve_all_good [OF g1(1) this assms(4)]
  have g2: "good st2" "orders w1 \<subseteq>\<^sub>m orders w2" by (auto simp: st1 st2)
  have c2: "consistent w2" using g2(1) by (simp add: st2 good_def)
  have kept: "orders w2 i = Some ord'" using g2(2) post(5) by (rule map_leD)
  show ?thesis
    using get_reply [OF c2 kept assms(5) [unfolded st2]] to_response_eq [OF post(6,7,4) _ post(3)] post(1,2)
    by (auto simp: st2)
qed

text \<open>Receipts: what was served once is served again, whatever happened in between.\<close>

lemma receipt_reply:
  assumes "good (w, p, s)" and "answer pe rq (GetOrderReceipt i) (w, p, s) = (BytesReply code c media, (w', p', s'))"
  shows "code = 200 \<and> media = RECEIPT_MEDIA_TYPE \<and> receipts s' i = Some c
    \<and> (\<exists>ord. orders w i = Some ord \<and> render_receipt ord = Inr c)"
proof -
  obtain x ws where run: "get_orders_receipt get rget rput i (w, s) = (x, ws)" by (metis prod.exhaust)
  obtain w1 s1 where ws: "ws = (w1, s1)" by (metis prod.exhaust)
  obtain y where y: "get_receipt get rget rput i (w, s) = (y, (w1, s1))"
      "x = map_sum id (\<lambda>c. (c, RECEIPT_MEDIA_TYPE)) y"
    using get_orders_receipt_run [OF run] ws by auto
  have c: "consistent w" "receipts_faithful w s" using assms(1) by (simp_all add: good_def)
  show ?thesis
  proof (cases y)
    case (Inl e)
    then show ?thesis using assms(2) run y ws by (simp add: failed_def)
  next
    case (Inr c')
    then have "code = 200" "media = RECEIPT_MEDIA_TYPE" "c' = c" "s1 = s'"
      using assms(2) run y ws by auto
    then show ?thesis
      using get_receipt_returns [OF c(1) y(1) [unfolded Inr]] c(2) by (auto simp: receipts_faithful_def)
  qed
qed

lemma receipts_agree:
  assumes "good st" and "fresh_draws (orders (fst st)) rs"
    and "answer pe rq (GetOrderReceipt i) st = (BytesReply code c media, st1)"
    and "answer_all pe ctx rs st1 = (as, st2)"
    and "answer pe rq' (GetOrderReceipt i) st2 = (BytesReply code' c' media', st3)"
  shows "c' = c \<and> (\<exists>ord. orders (fst st) i = Some ord \<and> render_receipt ord = Inr c)"
proof -
  obtain w p s where st: "st = (w, p, s)" by (metis prod.exhaust)
  obtain w1 p1 s1 where st1: "st1 = (w1, p1, s1)" by (metis prod.exhaust)
  obtain w2 p2 s2 where st2: "st2 = (w2, p2, s2)" by (metis prod.exhaust)
  obtain w3 p3 s3 where st3: "st3 = (w3, p3, s3)" by (metis prod.exhaust)
  have none: "fresh_draws (orders (fst st)) [GetOrderReceipt i]" by (simp add: fresh_draws_def)
  from receipt_reply [OF assms(1) [unfolded st] assms(3) [unfolded st st1]]
  have first: "receipts s1 i = Some c" "\<exists>ord. orders w i = Some ord \<and> render_receipt ord = Inr c" by blast+
  from serve_good [OF assms(1) none assms(3)]
  have g1: "good st1" "dom (orders w1) \<subseteq> dom (orders w)" by (auto simp: st st1)
  have "fresh_draws (orders (fst st1)) rs" using assms(2) g1(2) by (auto simp: fresh_draws_def st st1 domIff)
  from serve_all_good [OF g1(1) this assms(4)]
  have g2: "good st2" "receipts s1 \<subseteq>\<^sub>m receipts s2" by (auto simp: st1 st2)
  have none2: "fresh_draws (orders (fst st2)) [GetOrderReceipt i]" by (simp add: fresh_draws_def)
  from serve_good [OF g2(1) none2 assms(5)] have "receipts s2 \<subseteq>\<^sub>m receipts s3" by (auto simp: st2 st3)
  then have "receipts s3 i = Some c" using map_leD g2(2) first(1) by metis
  then show ?thesis
    using receipt_reply [OF g2(1) [unfolded st2] assms(5) [unfolded st2 st3]] first(2) by (simp add: st)
qed

text \<open>The outcomes of a post.\<close>

lemma post_outcomes:
  assumes "good (w, p, s)" and "orders w i = None"
    and "answer pe rq (PostOrder i request) (w, p, s) = (a, (w', p', s'))"
  shows "s' = s \<and> (place_order_request_valid request \<and> reply_code a = 201
    \<or> w' = w \<and> (place_order_request_valid request \<and> reply_code a \<in> {402, 503} \<or> \<not> place_order_request_valid request \<and> reply_code a = 422)
    \<or> (\<exists>ord e. save ord w = (Inl e, w') \<and> a = failed pe rq e))"
proof (cases "place_order_request_valid request")
  case False
  then show ?thesis
    using assms(3) by (auto simp: post_orders_def to_command_invalid failed_def on_pydantic_error_def problem_reply_def)
next
  case True
  let ?command = "request_command request"
  have v: "place_order_command_valid ?command" using True by simp
  have r: "ready p" using assms(1) by (simp add: good_def)
  obtain x p1 where pay: "authorise i (command_total ?command) p = (x, p1)" by (metis prod.exhaust)
  show ?thesis
  proof (cases x)
    case (Inl e)
    have "(\<exists>d. e = Domain (PaymentDeclinedError i d)) \<or> (\<exists>m. e = Infra (PaymentUnavailableError m))"
      using refusal [OF r] pay Inl by blast
    moreover have "a = failed pe rq e" "w' = w" "s' = s"
      using assms(3) pay Inl by (simp_all add: post_orders_valid [OF True] charge_and_save_def)
    ultimately show ?thesis
      using True by (auto simp: failed_def on_domain_error_def on_payment_unavailable_def problem_reply_def
          status_for_def STATUS_BY_ERROR_def)
  next
    case (Inr auth)
    obtain y w1 where y: "save (order_for i ?command auth) w = (y, w1)" by (metis prod.exhaust)
    show ?thesis
      using assms(3) pay Inr y True
      by (cases y) (auto simp: post_orders_valid [OF True] charge_and_save_def)
  qed
qed

end

section \<open>The machine on the model's adapters\<close>

interpretation mem_service: order_service mem_order_get mem_order_save mem_order_map mem_orders_ok
  mem_authorise "\<lambda>us. True" mem_receipt_get mem_receipt_put mem_receipt_map
  by unfold_locales

interpretation pg_cache: caching "pg_get lone_connect (lone_select find_order) (lone_select find_lines)"
  "pg_save lone_transact" "\<lambda>d. db_orders_of (id d)" "\<lambda>d. db_ok (id d)"
  rds_get rds_set rds_del rds_live codec_load codec_dump
  by unfold_locales
    (fact mem_cache.rget_returns mem_cache.rget_keeps mem_cache.rset_stores mem_cache.rdel_keeps
      mem_cache.rdel_deletes mem_cache.validates mem_cache.rejects)+

text \<open>PostgreSQL behind the cache, the HTTP gateway and S3.\<close>

interpretation full_stack: order_service
  "cached_get (pg_get lone_connect (lone_select find_order) (lone_select find_lines)) rds_get rds_set codec_load codec_dump t"
  "cached_save (pg_save lone_transact) rds_del"
  "\<lambda>(d, c, lg). db_orders_of (id d)"
  "\<lambda>(d, c, lg). db_ok (id d) \<and> cache_coherent codec_load (db_orders_of (id d)) (rds_live c)"
  "http_authorise net_clock (retry_n 3) sim_post" "\<lambda>g. True"
  "s3_get sim_get_object bucket" "s3_put sim_put_object bucket" "sim_s3.stored"
  for t bucket
  by unfold_locales

section \<open>Properties\<close>

definition basket_request :: place_order_request where
  "basket_request =
     \<lparr>req_customer_id = 2,
      req_lines = [\<lparr>in_sku = ''mug-ceramic'', in_quantity = 4, in_unit_amount = Dec False 990 (-2), in_currency = ''EUR''\<rparr>,
                   \<lparr>in_sku = ''spoon-set'', in_quantity = 1, in_unit_amount = Dec False 1240 (-2), in_currency = ''EUR''\<rparr>]\<rparr>"

abbreviation "mem_serve \<equiv> serve mem_order_get mem_order_save mem_authorise mem_receipt_get mem_receipt_put"
abbreviation "mem_serve_all \<equiv> serve_all mem_order_get mem_order_save mem_authorise mem_receipt_get mem_receipt_put"
abbreviation "mem_service_ok \<equiv> service_ok mem_orders_ok (\<lambda>us. True) mem_order_map mem_receipt_map"

definition mem_start :: "mem_orders \<times> uuid list \<times> mem_receipts" where
  "mem_start = (mem_orders_init, [5], \<lparr>mem_receipt_map = Map.empty\<rparr>)"

lemma basket_request_command: "request_command basket_request = basket_command"
  by (simp add: request_command_def basket_request_def basket_command_def line_in_command_def)

lemma basket_request_valid: "place_order_request_valid basket_request"
  using basket_command_valid by (simp flip: basket_request_command)

lemma mem_start_ok: "mem_service_ok mem_start"
  by (simp add: service_ok_def mem_start_def mem_orders_init_def mem_orders_ok_def)

definition mem_stocked :: "mem_orders \<times> uuid list \<times> mem_receipts" where
  "mem_stocked = (basket_world, [5], \<lparr>mem_receipt_map = Map.empty\<rparr>)"

lemma mem_stocked_ok: "mem_service_ok mem_stocked"
  using basket_world_ok by (simp add: service_ok_def mem_stocked_def)

lemma mem_start_fresh: "distinct (drawn rs) \<Longrightarrow> fresh_draws (mem_order_map (fst mem_start)) rs"
  by (simp add: fresh_draws_def mem_start_def mem_orders_init_def)

text \<open>The basket posted to the in-memory service.\<close>

lemma post_basket:
  "\<exists>resp st. mem_serve pe rq (PostOrder 1 basket_request) mem_start
     = (OrderReply 201 resp [(''Location'', ''/api/v1/orders/'' @ uuid_str 1)], st)
   \<and> mem_order_map (fst st) 1 = Some (order_for 1 basket_command \<lparr>auth_id = ''auth_'' @ uuid_hex 5\<rparr>)
   \<and> snd (snd st) = \<lparr>mem_receipt_map = Map.empty\<rparr>"
  by (simp add: mem_start_def post_orders_valid [OF basket_request_valid] basket_request_command charge_and_save_def
      mem_authorise_eq mem_order_save_def mem_orders_init_def)

text \<open>
  C6: over any adapters that keep their contracts, an order that was created with 201 is served with
  200 after any further requests, under the identifier in its Location header and with the values of the
  first reply, unless the repository itself fails on that read.
\<close>

theorem created_order_is_served:
  assumes "order_service get save orders consistent authorise ready rget rput receipts"
    and "service_ok consistent ready orders receipts st"
    and "fresh_draws (orders (fst st)) (PostOrder i request # rs)"
    and "serve get save authorise rget rput pe rq (PostOrder i request) st = (OrderReply code resp hs, st1)"
    and "serve_all get save authorise rget rput pe ctx rs st1 = (as, st2)"
    and "serve get save authorise rget rput pe rq' (GetOrder i) st2 = (a, st3)"
  shows "code = 201 \<and> out_id resp = i
    \<and> ((\<exists>resp'. a = OrderReply 200 resp' [] \<and> response_eq resp' resp)
       \<or> (\<exists>e w1. get i (fst st2) = (Inl e, w1) \<and> a = failed pe rq' e))"
  using order_service.created_served [OF assms] .

theorem created_order_is_served_witness:
  "\<exists>resp st1 as st2 resp' st3.
     mem_serve [] order_request (PostOrder 1 basket_request) mem_start =
       (OrderReply 201 resp [(''Location'', ''/api/v1/orders/'' @ uuid_str 1)], st1)
   \<and> mem_serve_all [] (\<lambda>r. order_request) [GetOrderReceipt 1, PostOrder 2 basket_request, GetOrder 3] st1 = (as, st2)
   \<and> mem_serve [] order_request (GetOrder 1) st2 = (OrderReply 200 resp' [], st3) \<and> response_eq resp' resp"
proof -
  let ?rs = "[GetOrderReceipt 1, PostOrder 2 basket_request, GetOrder 3]"
  obtain resp st1 where one: "mem_serve [] order_request (PostOrder 1 basket_request) mem_start =
       (OrderReply 201 resp [(''Location'', ''/api/v1/orders/'' @ uuid_str 1)], st1)" using post_basket by blast
  obtain as st2 where two: "mem_serve_all [] (\<lambda>r. order_request) ?rs st1 = (as, st2)" by (metis prod.exhaust)
  obtain a st3 where three: "mem_serve [] order_request (GetOrder 1) st2 = (a, st3)" by (metis prod.exhaust)
  have fresh: "fresh_draws (mem_order_map (fst mem_start)) (PostOrder 1 basket_request # ?rs)"
    by (rule mem_start_fresh) simp
  have "\<exists>resp'. a = OrderReply 200 resp' [] \<and> response_eq resp' resp"
    using created_order_is_served [OF mem_service.order_service_axioms mem_start_ok fresh one two three]
    by (simp add: mem_order_get_def)
  then show ?thesis using one two three by blast
qed

text \<open>
  Over any adapters that keep their contracts, two successful requests for one receipt are answered
  with the same bytes whatever was requested in between, and they are the rendering of the stored order.
\<close>

theorem receipt_replies_agree:
  assumes "order_service get save orders consistent authorise ready rget rput receipts"
    and "service_ok consistent ready orders receipts st" and "fresh_draws (orders (fst st)) rs"
    and "serve get save authorise rget rput pe rq (GetOrderReceipt i) st = (BytesReply code c media, st1)"
    and "serve_all get save authorise rget rput pe ctx rs st1 = (as, st2)"
    and "serve get save authorise rget rput pe rq' (GetOrderReceipt i) st2 = (BytesReply code' c' media', st3)"
  shows "c' = c \<and> (\<exists>ord. orders (fst st) i = Some ord \<and> render_receipt ord = Inr c)"
  using order_service.receipts_agree [OF assms] .

theorem receipt_replies_agree_witness:
  "\<exists>c st1 as st2 st3.
     mem_serve [] order_request (GetOrderReceipt 1) mem_stocked = (BytesReply 200 c RECEIPT_MEDIA_TYPE, st1)
   \<and> mem_serve_all [] (\<lambda>r. order_request) [PostOrder 2 basket_request] st1 = (as, st2)
   \<and> mem_serve [] order_request (GetOrderReceipt 1) st2 = (BytesReply 200 c RECEIPT_MEDIA_TYPE, st3)
   \<and> render_receipt basket_order = Inr c"
proof -
  obtain c where c: "render_receipt basket_order = Inr c"
    using render_receipt_returns [OF basket_order_valid] by blast
  let ?rc = "\<lparr>mem_receipt_map = [1 \<mapsto> c]\<rparr>"
  have one: "mem_serve [] order_request (GetOrderReceipt 1) mem_stocked =
      (BytesReply 200 c RECEIPT_MEDIA_TYPE, (basket_world, [5], ?rc))"
    using c by (simp add: mem_stocked_def get_orders_receipt_def get_receipt_def mem_order_get_def mem_receipt_get_def
        mem_receipt_put_def basket_world_def and_then_def)
  obtain as w2 p2 where two: "mem_serve_all [] (\<lambda>r. order_request) [PostOrder 2 basket_request] (basket_world, [5], ?rc)
      = (as, (w2, p2, ?rc))" and w2: "mem_order_map w2 1 = Some basket_order"
    by (simp add: post_orders_valid [OF basket_request_valid] basket_request_command charge_and_save_def
        mem_authorise_eq mem_order_save_def basket_world_def)
  have fresh: "fresh_draws (mem_order_map (fst mem_stocked)) [PostOrder 2 basket_request]"
    by (simp add: fresh_draws_def mem_stocked_def basket_world_def)
  obtain c' st3 where three: "mem_serve [] order_request (GetOrderReceipt 1) (w2, p2, ?rc)
      = (BytesReply 200 c' RECEIPT_MEDIA_TYPE, st3)"
    using w2 by (simp add: get_orders_receipt_def get_receipt_def mem_order_get_def mem_receipt_get_def and_then_def)
  have "c' = c"
    using receipt_replies_agree [OF mem_service.order_service_axioms mem_stocked_ok fresh one two three] by simp
  then show ?thesis using one two three c by blast
qed

text \<open>
  Whatever the requests, the service state stays in order: orders are never changed or removed, only
  identifiers drawn by a post appear, receipts never change, and each request gets one reply.
\<close>

theorem orders_never_change:
  assumes "order_service get save orders consistent authorise ready rget rput receipts"
    and "service_ok consistent ready orders receipts st" and "fresh_draws (orders (fst st)) rs"
    and "serve_all get save authorise rget rput pe ctx rs st = (as, st')"
  shows "service_ok consistent ready orders receipts st' \<and> orders (fst st) \<subseteq>\<^sub>m orders (fst st')
    \<and> dom (orders (fst st')) \<subseteq> dom (orders (fst st)) \<union> set (drawn rs)
    \<and> receipts (snd (snd st)) \<subseteq>\<^sub>m receipts (snd (snd st')) \<and> length as = length rs"
  using order_service.serve_all_good [OF assms] .

theorem orders_never_change_witness:
  "\<exists>as st'. mem_serve_all [] (\<lambda>r. order_request) [PostOrder 1 basket_request, GetOrderReceipt 1, GetOrder 9] mem_start = (as, st')
     \<and> mem_service_ok st' \<and> dom (mem_order_map (fst st')) \<subseteq> {1} \<and> length as = 3"
proof -
  let ?rs = "[PostOrder 1 basket_request, GetOrderReceipt 1, GetOrder 9]"
  obtain as st' where run: "mem_serve_all [] (\<lambda>r. order_request) ?rs mem_start = (as, st')" by (metis prod.exhaust)
  have "fresh_draws (mem_order_map (fst mem_start)) ?rs" by (rule mem_start_fresh) simp
  from orders_never_change [OF mem_service.order_service_axioms mem_start_ok this run]
  show ?thesis using run by (auto simp: mem_start_def mem_orders_init_def)
qed

text \<open>
  C11: a post under a fresh identifier ends in one of four ways: 201; 402 or 503 for a valid request whose
  payment was refused, with the repository untouched; 422 for an invalid request, with the repository
  untouched; or the answer to the error the repository raised when it saved. Receipts are never touched.
\<close>

theorem post_outcomes_exact:
  assumes "order_service get save orders consistent authorise ready rget rput receipts"
    and "service_ok consistent ready orders receipts (w, p, s)" and "orders w i = None"
    and "serve get save authorise rget rput pe rq (PostOrder i request) (w, p, s) = (a, (w', p', s'))"
  shows "s' = s \<and> (place_order_request_valid request \<and> reply_code a = 201
    \<or> w' = w \<and> (place_order_request_valid request \<and> reply_code a \<in> {402, 503} \<or> \<not> place_order_request_valid request \<and> reply_code a = 422)
    \<or> (\<exists>ord e. save ord w = (Inl e, w') \<and> a = failed pe rq e))"
  using order_service.post_outcomes [OF assms] .

theorem post_outcomes_exact_witness:
  "\<exists>a st'. mem_serve [] order_request (PostOrder 1 (basket_request\<lparr>req_lines := []\<rparr>)) mem_start = (a, st')
     \<and> reply_code a = 422 \<and> fst st' = mem_orders_init"
proof -
  let ?bad = "basket_request\<lparr>req_lines := []\<rparr>"
  obtain a w' p' s' where run: "mem_serve [] order_request (PostOrder 1 ?bad) (mem_orders_init, [5], \<lparr>mem_receipt_map = Map.empty\<rparr>) = (a, (w', p', s'))"
    by (metis prod.exhaust)
  have bad: "\<not> place_order_request_valid ?bad" by (simp add: place_order_request_valid_def)
  have "mem_order_map mem_orders_init 1 = None" by (simp add: mem_orders_init_def)
  from post_outcomes_exact [OF mem_service.order_service_axioms mem_start_ok [unfolded mem_start_def] this run]
  show ?thesis using run bad by (auto simp: mem_start_def mem_order_save_def)
qed

end
