(* ===== verification/Telemetry.thy ===== *)
theory Telemetry
  imports Settings ApiMiddleware
begin

text \<open>
  Telemetry as far as the service decides it (\<open>observability/otel.py\<close>, \<open>observability/metrics.py\<close>,
  \<open>observability/slo.py\<close>): how the providers are shut down, how the
  event loop probe and the runtime metrics stop, what the pool gauges report, and the constants of
  the service level objective. The OpenTelemetry SDK is outside: what its calls do is an argument.
  How the providers are built and what is instrumented is in \<open>OtelSetup\<close>.

  The lemmas show that shutting down and stopping are idempotent and in order
  (\<open>telemetry_stops_once\<close>), that the probe survives failing records and never
  records a negative lag (\<open>probe_survives\<close>), and that the objective's constants fit together
  (\<open>slo_constants_agree\<close>).
\<close>

section \<open>Providers\<close>

datatype provider = TracerProvider | MeterProvider | LoggerProvider

record otel_runtime =
  has_logger_provider :: bool
  shut_down :: bool

definition is_insecure :: "(string \<Rightarrow> bool) \<Rightarrow> string \<Rightarrow> bool option" where
  "is_insecure bracketed_ok endpoint =
     map_option (\<lambda>u. u_scheme u = ''http'') (urlsplit bracketed_ok endpoint)"

definition build_resource :: "settings \<Rightarrow> string \<Rightarrow> (string \<times> string) list" where
  "build_resource s version =
     [(''service.name'', service_name s), (''service.version'', version),
      (''deployment.environment'', environment s), (''deployment.environment.name'', environment s)]"

text \<open>
  Shutting down: the providers it was asked of, in order, up to one that raises. The flag is set first,
  so a second call does nothing at all.
\<close>

fun shutdown_providers :: "(provider \<Rightarrow> exn option) \<Rightarrow> provider list \<Rightarrow> provider list \<times> exn option" where
  "shutdown_providers fails [] = ([], None)"
| "shutdown_providers fails (p # ps) =
     (case fails p of
        Some e \<Rightarrow> ([p], Some e)
      | None \<Rightarrow> (case shutdown_providers fails ps of (qs, r) \<Rightarrow> (p # qs, r)))"

definition otel_shutdown ::
  "(provider \<Rightarrow> exn option) \<Rightarrow> otel_runtime \<Rightarrow> (provider list \<times> exn option) \<times> otel_runtime" where
  "otel_shutdown fails r =
     (if shut_down r then (([], None), r)
      else (shutdown_providers fails
              ([TracerProvider, MeterProvider] @ (if has_logger_provider r then [LoggerProvider] else [])),
            r\<lparr>shut_down := True\<rparr>))"

section \<open>Runtime metrics\<close>

text \<open>
  The probe task, as \<open>stop\<close> finds it after cancelling and waiting: cancelled, or finished on its own
  with an exception. The instrumentor is there until it has been undone.
\<close>

datatype probe_end = ProbeCancelled | ProbeDied exn | ProbeReturned

record runtime_metrics =
  probe_task :: "probe_end option"
  instrumentor :: bool

datatype metrics_event = ProbeStopped | ProbeDeathLogged exn | Uninstrumented

definition metrics_stop :: "runtime_metrics \<Rightarrow> metrics_event list \<times> runtime_metrics" where
  "metrics_stop m =
     ((case probe_task m of
         None \<Rightarrow> []
       | Some ProbeCancelled \<Rightarrow> [ProbeStopped]
       | Some ProbeReturned \<Rightarrow> [ProbeStopped]
       | Some (ProbeDied e) \<Rightarrow> [ProbeStopped, ProbeDeathLogged e])
      @ (if instrumentor m then [Uninstrumented] else []),
      m\<lparr>probe_task := None, instrumentor := False\<rparr>)"

text \<open>
  One round of the probe: the clock before and after the sleep, and whether recording raises. What is
  recorded is the clamped lag; a failure is logged and the loop goes on.
\<close>

record probe_round =
  pr_started :: rat
  pr_woken :: rat
  pr_record_fails :: bool

datatype probe_event = Recorded rat | RecordFailed

definition probe_lag :: "rat \<Rightarrow> probe_round \<Rightarrow> rat" where
  "probe_lag interval r = max (pr_woken r - pr_started r - interval) 0"

definition probe_rounds :: "rat \<Rightarrow> probe_round list \<Rightarrow> probe_event list" where
  "probe_rounds interval rs =
     map (\<lambda>r. if pr_record_fails r then RecordFailed else Recorded (probe_lag interval r)) rs"

text \<open>A pool as its gauges read it; only a queueing pool has them.\<close>

record pool =
  is_queue_pool :: bool
  checked_out :: nat
  checked_in :: nat
  pool_limit :: nat

definition pool_observations :: "pool \<Rightarrow> (string \<times> string \<times> nat) list" where
  "pool_observations p =
     (if is_queue_pool p
      then [(''db.client.connection.count'', ''used'', checked_out p),
            (''db.client.connection.count'', ''idle'', checked_in p),
            (''db.client.connection.max'', '''', pool_limit p)]
      else [])"

section \<open>The service level objective\<close>

definition SLO_AVAILABILITY_TARGET :: rat where "SLO_AVAILABILITY_TARGET = 999 / 1000"

definition SLO_WINDOW_DAYS :: nat where "SLO_WINDOW_DAYS = 30"

definition SLO_LATENCY_THRESHOLD_SECONDS :: rat where "SLO_LATENCY_THRESHOLD_SECONDS = 3 / 10"

text \<open>The rounding to ten places leaves the exact difference.\<close>

definition ERROR_BUDGET :: rat where
  "ERROR_BUDGET = of_int (round ((1 - SLO_AVAILABILITY_TARGET) * 10 ^ 10)) / 10 ^ 10"

definition HTTP_DURATION_BUCKET_BOUNDARIES :: "rat list" where
  "HTTP_DURATION_BUCKET_BOUNDARIES =
     [5 / 1000, 1 / 100, 25 / 1000, 5 / 100, 75 / 1000, 1 / 10, 1 / 4, SLO_LATENCY_THRESHOLD_SECONDS,
      1 / 2, 3 / 4, 1, 5 / 2, 5, 15 / 2, 10]"

definition SLI_EXCLUDED_ROUTES :: "string list" where
  "SLI_EXCLUDED_ROUTES = [''/healthz'', ''/readyz'', ''/startupz'']"

definition UNTRACED_PATHS :: string where
  "UNTRACED_PATHS = ''healthz,readyz,startupz''"

definition excluded_routes_pattern :: string where
  "excluded_routes_pattern = join ''|'' SLI_EXCLUDED_ROUTES"

section \<open>Properties\<close>

text \<open>
  Stopping is safe to repeat: the first shutdown asks the tracer provider, then the meter provider,
  then the log provider if there is one, and stops at one that raises; any later one asks nothing.
  Stopping the metrics twice is stopping them once, and a probe that died is reported exactly then.
\<close>

theorem telemetry_stops_once:
  "fst (otel_shutdown fails' (snd (otel_shutdown fails r))) = ([], None)
   \<and> (\<not> shut_down r \<and> (\<forall>p. fails p = None) \<longrightarrow>
        fst (otel_shutdown fails r)
          = ([TracerProvider, MeterProvider] @ (if has_logger_provider r then [LoggerProvider] else []), None))
   \<and> metrics_stop (snd (metrics_stop m)) = ([], snd (metrics_stop m))
   \<and> (ProbeDeathLogged e \<in> set (fst (metrics_stop m)) \<longleftrightarrow> probe_task m = Some (ProbeDied e))"
proof (cases "probe_task m")
  case None
  then show ?thesis by (auto simp: otel_shutdown_def metrics_stop_def)
next
  case (Some p)
  then show ?thesis by (cases p) (auto simp: otel_shutdown_def metrics_stop_def)
qed

text \<open>
  The probe outlives every failing record and never records a negative lag: it produces one event
  per round whatever the clock and the histogram do.
\<close>

theorem probe_survives:
  "length (probe_rounds interval rs) = length rs
   \<and> list_all (\<lambda>ev. case ev of Recorded lag \<Rightarrow> 0 \<le> lag | RecordFailed \<Rightarrow> True) (probe_rounds interval rs)"
  by (auto simp: probe_rounds_def probe_lag_def list_all_iff)

text \<open>
  The objective's constants fit together: the latency threshold is one of the bucket boundaries,
  which ascend strictly, so the latency indicator can be counted; the error budget is what the target
  leaves; and the routes that are kept out of the indicators, of the access log and of tracing are
  the same three.
\<close>

theorem slo_constants_agree:
  "SLO_LATENCY_THRESHOLD_SECONDS \<in> set HTTP_DURATION_BUCKET_BOUNDARIES
   \<and> sorted_wrt (<) HTTP_DURATION_BUCKET_BOUNDARIES
   \<and> ERROR_BUDGET = 1 - SLO_AVAILABILITY_TARGET
   \<and> SLI_EXCLUDED_ROUTES = EXCLUDED_FROM_ACCESS_LOG
   \<and> UNTRACED_PATHS = join '','' (map (drop 1) SLI_EXCLUDED_ROUTES)
   \<and> excluded_routes_pattern = ''/healthz|/readyz|/startupz''"
  by (simp add: HTTP_DURATION_BUCKET_BOUNDARIES_def SLO_LATENCY_THRESHOLD_SECONDS_def ERROR_BUDGET_def
      SLO_AVAILABILITY_TARGET_def SLI_EXCLUDED_ROUTES_def EXCLUDED_FROM_ACCESS_LOG_def UNTRACED_PATHS_def
      excluded_routes_pattern_def)

end
