(* ===== verification/OtelSetup.thy ===== *)
theory OtelSetup
  imports Telemetry
begin

text \<open>
  Setting telemetry up (\<open>observability/otel.py\<close>, \<open>observability/metrics.py\<close>): what the providers are
  built with, their global installation, the instrumentation of the application and its clients, and
  the registration of the runtime metrics. The OpenTelemetry SDK is outside: a provider, an exporter
  or an instrument is a record of what it is constructed with, and what the instrumentors keep for the
  life of the process is the interface \<open>instrumentation\<close>.

  The lemmas show that telemetry which is off touches nothing and that telemetry which is on exports
  everything to the one configured endpoint (\<open>configured_exports\<close>), and that the HTTP conventions are
  the stable ones whatever is instrumented first (\<open>stable_conventions\<close>).
\<close>

section \<open>Providers\<close>

record exporter =
  ex_endpoint :: string
  ex_is_insecure :: bool

text \<open>Spans go to an injected exporter at once, or to the collector in batches; metrics alike.\<close>

datatype span_processor = SimpleSpanProcessor | BatchSpanProcessor exporter

datatype metric_reader = InjectedReader | PeriodicExportingMetricReader exporter int

text \<open>A request with a parent follows it; the ratio decides for the others.\<close>

datatype root_sampler = TraceIdRatioBased rat

datatype sampler = ParentBased root_sampler

record provider_setup =
  ps_resource :: "(string \<times> string) list"
  ps_sampler :: sampler
  ps_span_processor :: span_processor
  ps_metric_reader :: metric_reader
  ps_views :: "(string \<times> rat list) list"
  ps_log_exporter :: "exporter option"

definition build_sampler :: "rat \<Rightarrow> sampler" where
  "build_sampler sample_ratio = ParentBased (TraceIdRatioBased sample_ratio)"

definition EVENT_LOOP_LAG_BOUNDARIES :: "rat list" where
  "EVENT_LOOP_LAG_BOUNDARIES =
     [1 / 1000, 25 / 10000, 5 / 1000, 1 / 100, 25 / 1000, 5 / 100, 1 / 10, 1 / 4, 1 / 2, 1, 5 / 2, 5]"

definition build_views :: "(string \<times> rat list) list" where
  "build_views =
     [(''http.server.request.duration'', HTTP_DURATION_BUCKET_BOUNDARIES),
      (''event_loop.lag'', EVENT_LOOP_LAG_BOUNDARIES)]"

text \<open>
  The providers with the handle that shuts them down. Splitting the endpoint may raise. \<open>injected\<close> says
  whether a span exporter, and whether a metric reader, is given.
\<close>

definition build_providers ::
  "(string \<Rightarrow> bool) \<Rightarrow> settings \<Rightarrow> string \<Rightarrow> bool \<times> bool \<Rightarrow> exn + provider_setup \<times> otel_runtime" where
  "build_providers bracketed_ok s version injected =
     (let endpoint = (case otel_endpoint (otel_conf s) of None \<Rightarrow> [] | Some e \<Rightarrow> e)
      in case is_insecure bracketed_ok endpoint of
           None \<Rightarrow> Inl (Lib (ValueError ''Invalid IPv6 URL''))
         | Some insecure \<Rightarrow>
             let exporter = \<lparr>ex_endpoint = endpoint, ex_is_insecure = insecure\<rparr>
             in Inr (\<lparr>ps_resource = build_resource s version,
                      ps_sampler = build_sampler (otel_sample_ratio (otel_conf s)),
                      ps_span_processor = (if fst injected then SimpleSpanProcessor else BatchSpanProcessor exporter),
                      ps_metric_reader = (if snd injected then InjectedReader
                        else PeriodicExportingMetricReader exporter (otel_metric_export_interval_ms (otel_conf s))),
                      ps_views = build_views,
                      ps_log_exporter = (if otel_logs_enabled (otel_conf s) then Some exporter else None)\<rparr>,
                     \<lparr>has_logger_provider = otel_logs_enabled (otel_conf s), shut_down = False\<rparr>))"

text \<open>The process-wide providers, each set or not.\<close>

record otel_globals =
  g_tracer :: "provider_setup option"
  g_meter :: "provider_setup option"
  g_logger :: "provider_setup option"

text \<open>OpenTelemetry takes the first global provider of a process and ignores a later one.\<close>

definition set_once :: "'a \<Rightarrow> 'a option \<Rightarrow> 'a option" where
  "set_once x old = (case old of None \<Rightarrow> Some x | Some y \<Rightarrow> Some y)"

definition configure_otel ::
  "(string \<Rightarrow> bool) \<Rightarrow> settings \<Rightarrow> string \<Rightarrow> (otel_globals, exn, (provider_setup \<times> otel_runtime) option) io" where
  "configure_otel bracketed_ok s version = (\<lambda>g.
     if \<not> otel_enabled (otel_conf s) then (Inr None, g)
     else case build_providers bracketed_ok s version (False, False) of
            Inl e \<Rightarrow> (Inl e, g)
          | Inr (setup, runtime) \<Rightarrow>
              (Inr (Some (setup, runtime)),
               g\<lparr>g_tracer := set_once setup (g_tracer g), g_meter := set_once setup (g_meter g),
                 g_logger := (if has_logger_provider runtime then set_once setup (g_logger g) else g_logger g)\<rparr>))"

text \<open>Every exporter of a setup.\<close>

definition exporters_of :: "provider_setup \<Rightarrow> exporter list" where
  "exporters_of p =
     (case ps_span_processor p of SimpleSpanProcessor \<Rightarrow> [] | BatchSpanProcessor e \<Rightarrow> [e])
     @ (case ps_metric_reader p of InjectedReader \<Rightarrow> [] | PeriodicExportingMetricReader e n \<Rightarrow> [e])
     @ (case ps_log_exporter p of None \<Rightarrow> [] | Some e \<Rightarrow> [e])"

section \<open>Instrumentation\<close>

definition STABLE_SEMCONV_ENV_VAR :: string where
  "STABLE_SEMCONV_ENV_VAR = ''OTEL_SEMCONV_STABILITY_OPT_IN''"

definition STABLE_SEMCONV_VALUE :: string where
  "STABLE_SEMCONV_VALUE = ''http''"

text \<open>
  A process is its environment and what the instrumentation libraries keep. A runtime is known by a
  number; an application, an engine or a client by its name.
\<close>

type_synonym 'l process = "(string \<rightharpoonup> string) \<times> 'l"

datatype target = AppTarget string string | EngineTarget string | ClientTarget string

definition opt_in_to_stable_semconv :: "'l process \<Rightarrow> 'l process" where
  "opt_in_to_stable_semconv = (\<lambda>(env, l).
     (case env STABLE_SEMCONV_ENV_VAR of
        None \<Rightarrow> env(STABLE_SEMCONV_ENV_VAR \<mapsto> STABLE_SEMCONV_VALUE)
      | Some v \<Rightarrow> env, l))"

text \<open>
  \<open>instrument env t n\<close> is the library attaching the providers of runtime \<open>n\<close> to a target: to an
  application its tracer and meter provider, to an engine or a client its tracer provider.
\<close>

type_synonym 'l instrumentor_call = "(string \<rightharpoonup> string) \<Rightarrow> target \<Rightarrow> nat \<Rightarrow> 'l \<Rightarrow> 'l"

definition instrument_target :: "'l instrumentor_call \<Rightarrow> target \<Rightarrow> nat \<Rightarrow> 'l process \<Rightarrow> 'l process" where
  "instrument_target instrument t n p =
     (case opt_in_to_stable_semconv p of (env, l) \<Rightarrow> (env, instrument env t n l))"

definition instrument_fastapi :: "'l instrumentor_call \<Rightarrow> string \<Rightarrow> nat \<Rightarrow> 'l process \<Rightarrow> 'l process" where
  "instrument_fastapi instrument app n = instrument_target instrument (AppTarget app UNTRACED_PATHS) n"

definition instrument_database :: "'l instrumentor_call \<Rightarrow> string \<Rightarrow> nat \<Rightarrow> 'l process \<Rightarrow> 'l process" where
  "instrument_database instrument sync_engine n = instrument_target instrument (EngineTarget sync_engine) n"

definition instrument_http_client :: "'l instrumentor_call \<Rightarrow> string \<Rightarrow> nat \<Rightarrow> 'l process \<Rightarrow> 'l process" where
  "instrument_http_client instrument client n = instrument_target instrument (ClientTarget client) n"

text \<open>Redis is patched once for the process, without the opt-in: \<open>patched\<close> and \<open>patch\<close> are the library's.\<close>

definition instrument_redis :: "('l \<Rightarrow> nat option) \<Rightarrow> (nat \<Rightarrow> 'l \<Rightarrow> 'l) \<Rightarrow> nat \<Rightarrow> 'l process \<Rightarrow> 'l process" where
  "instrument_redis patched patch n = (\<lambda>(env, l). (env, if patched l \<noteq> None then l else patch n l))"

section \<open>Registering the runtime metrics\<close>

definition METER_NAME :: string where
  "METER_NAME = ''pyfr_m8_verify.runtime''"

definition PROCESS_METRICS_CONFIG :: "(string \<times> string list option) list" where
  "PROCESS_METRICS_CONFIG =
     [(''process.cpu.time'', Some [''user'', ''system'']),
      (''process.memory.usage'', None),
      (''process.memory.virtual'', None),
      (''process.open_file_descriptor.count'', None),
      (''process.thread.count'', None),
      (''cpython.gc.collections'', None),
      (''cpython.gc.collected_objects'', None),
      (''cpython.gc.uncollectable_objects'', None)]"

text \<open>The instruments of a process by name and unit, the one system-metrics instrumentor, and the log.\<close>

record metrics_process =
  mp_instruments :: "(string \<times> string) list"
  mp_system_metrics :: "(string \<times> string list option) list option"
  mp_log :: "(string \<times> string) list"

definition service_info_observations :: "string \<Rightarrow> (nat \<times> (string \<times> string) list) list" where
  "service_info_observations version = [(1, [(''service.version'', version)])]"

definition register_service_info :: "metrics_process \<Rightarrow> metrics_process" where
  "register_service_info m = m\<lparr>mp_instruments := mp_instruments m @ [(''service.info'', ''{info}'')]\<rparr>"

definition register_pool_metrics :: "pool \<Rightarrow> string \<Rightarrow> metrics_process \<Rightarrow> metrics_process" where
  "register_pool_metrics p pool_type m =
     (if \<not> is_queue_pool p then m\<lparr>mp_log := mp_log m @ [(''db.pool.metrics.skipped'', pool_type)]\<rparr>
      else m\<lparr>mp_instruments := mp_instruments m
        @ [(''db.client.connection.count'', ''{connection}''), (''db.client.connection.max'', ''{connection}'')]\<rparr>)"

text \<open>
  The instrumentor is one for the process: instrumenting it while it is instrumented is ignored.
  \<open>ending\<close> is how the probe task will be found when it is stopped.
\<close>

definition register_runtime_metrics ::
  "(pool \<times> string) option \<Rightarrow> probe_end \<Rightarrow> metrics_process \<Rightarrow> runtime_metrics \<times> metrics_process" where
  "register_runtime_metrics engine ending m =
     (let m1 = register_service_info m;
          m2 = (case engine of None \<Rightarrow> m1 | Some (p, pool_type) \<Rightarrow> register_pool_metrics p pool_type m1);
          m3 = m2\<lparr>mp_system_metrics := set_once PROCESS_METRICS_CONFIG (mp_system_metrics m2)\<rparr>;
          m4 = m3\<lparr>mp_instruments := mp_instruments m3 @ [(''event_loop.lag'', ''s'')]\<rparr>
      in (\<lparr>probe_task = Some ending, instrumentor = True\<rparr>, m4))"

text \<open>What \<open>stop\<close> does to the process: undo the instrumentor, log a probe that died.\<close>

definition stop_in_process :: "runtime_metrics \<Rightarrow> metrics_process \<Rightarrow> runtime_metrics \<times> metrics_process" where
  "stop_in_process r m =
     (snd (metrics_stop r),
      m\<lparr>mp_system_metrics := (if Uninstrumented \<in> set (fst (metrics_stop r)) then None else mp_system_metrics m),
        mp_log := mp_log m @ (case probe_task r of Some (ProbeDied e) \<Rightarrow> [(''event_loop.lag.probe_died'', exn_name e)] | _ \<Rightarrow> [])\<rparr>)"

section \<open>What a configuration exports\<close>

text \<open>
  Telemetry is off or exports to one place. When it is off, configuring it touches nothing. When it is on
  and the settings are valid, every exporter goes to the one configured endpoint, which is not empty,
  with TLS unless the endpoint's scheme is plain HTTP; logs are exported exactly when they are asked for;
  and when the endpoint cannot be split it raises before any provider is installed.
\<close>

theorem configured_exports:
  assumes "otel_settings_valid (otel_conf s)" and "configure_otel bracketed_ok s version g = (r, g')"
  shows "if \<not> otel_enabled (otel_conf s) then r = Inr None \<and> g' = g
    else \<exists>endpoint. otel_endpoint (otel_conf s) = Some endpoint \<and> endpoint \<noteq> []
      \<and> (case urlsplit bracketed_ok endpoint of
           None \<Rightarrow> r = Inl (Lib (ValueError ''Invalid IPv6 URL'')) \<and> g' = g
         | Some u \<Rightarrow> \<exists>setup runtime. r = Inr (Some (setup, runtime))
             \<and> exporters_of setup = replicate (if otel_logs_enabled (otel_conf s) then 3 else 2)
                 \<lparr>ex_endpoint = endpoint, ex_is_insecure = (u_scheme u = ''http'')\<rparr>
             \<and> has_logger_provider runtime = otel_logs_enabled (otel_conf s) \<and> \<not> shut_down runtime
             \<and> g_tracer g' \<noteq> None \<and> g_meter g' \<noteq> None)"
proof (cases "otel_enabled (otel_conf s)")
  case False
  then show ?thesis using assms(2) by (simp add: configure_otel_def)
next
  case True
  then obtain endpoint where endpoint: "otel_endpoint (otel_conf s) = Some endpoint" "endpoint \<noteq> []"
    using assms(1)
    by (cases "otel_endpoint (otel_conf s)")
      (auto simp: otel_settings_valid_def exporting_requires_somewhere_to_export_to_def split: if_splits)
  have set: "set_once x old \<noteq> None" for x :: provider_setup and old by (cases old) (simp_all add: set_once_def)
  show ?thesis
    using True endpoint assms(2) set
    by (cases "urlsplit bracketed_ok endpoint")
      (auto simp: configure_otel_def build_providers_def Let_def is_insecure_def exporters_of_def numeral_3_eq_3 numeral_2_eq_2)
qed

definition exporting_settings :: settings where
  "exporting_settings = \<lparr>environment = ''production'', service_name = ''orders'', http_port = 8000,
     log_conf = \<lparr>log_level = ''info'', log_level_overrides = [], log_redact_fields = []\<rparr>,
     otel_conf = \<lparr>otel_enabled = True, otel_logs_enabled = True, otel_endpoint = Some ''http://collector:4317'',
       otel_sample_ratio = 1 / 10, otel_metric_export_interval_ms = 60000\<rparr>,
     database = None, payment = None, cache = None, storage = None\<rparr>"

definition no_globals :: otel_globals where
  "no_globals = \<lparr>g_tracer = None, g_meter = None, g_logger = None\<rparr>"

theorem configured_exports_witness:
  "\<exists>setup runtime g'. configure_otel (\<lambda>n. True) exporting_settings ''0.1.0'' no_globals = (Inr (Some (setup, runtime)), g')
    \<and> exporters_of setup = replicate 3 \<lparr>ex_endpoint = ''http://collector:4317'', ex_is_insecure = True\<rparr>
    \<and> g_tracer g' \<noteq> None"
proof -
  obtain r g' where run: "configure_otel (\<lambda>n. True) exporting_settings ''0.1.0'' no_globals = (r, g')"
    by (metis prod.exhaust)
  have valid: "otel_settings_valid (otel_conf exporting_settings)"
    by (simp add: exporting_settings_def otel_settings_valid_def exporting_requires_somewhere_to_export_to_def)
  have "urlsplit (\<lambda>n. True) ''http://collector:4317'' = Some \<lparr>u_scheme = ''http'', u_netloc = ''collector:4317'',
      u_path = [], u_query = [], u_fragment = []\<rparr>"
    by code_simp
  then show ?thesis
    using configured_exports [OF valid run] run by (auto simp: exporting_settings_def)
qed

section \<open>Whatever is instrumented first\<close>

datatype setup_action =
    InstrumentFastapi string nat
  | InstrumentDatabase string nat
  | InstrumentHttpClient string nat
  | InstrumentRedis nat

fun act ::
  "'l instrumentor_call \<Rightarrow> ('l \<Rightarrow> nat option) \<Rightarrow> (nat \<Rightarrow> 'l \<Rightarrow> 'l) \<Rightarrow> setup_action \<Rightarrow> 'l process \<Rightarrow> 'l process" where
  "act instrument patched patch (InstrumentFastapi app n) = instrument_fastapi instrument app n"
| "act instrument patched patch (InstrumentDatabase e n) = instrument_database instrument e n"
| "act instrument patched patch (InstrumentHttpClient c n) = instrument_http_client instrument c n"
| "act instrument patched patch (InstrumentRedis n) = instrument_redis patched patch n"

fun redis_runtime :: "setup_action \<Rightarrow> nat list" where
  "redis_runtime (InstrumentRedis n) = [n]"
| "redis_runtime a = []"

fun redis_runtimes :: "setup_action list \<Rightarrow> nat list" where
  "redis_runtimes [] = []"
| "redis_runtimes (a # as) = redis_runtime a @ redis_runtimes as"

definition opted_in :: "(string \<rightharpoonup> string) \<Rightarrow> string" where
  "opted_in env = (case env STABLE_SEMCONV_ENV_VAR of None \<Rightarrow> STABLE_SEMCONV_VALUE | Some v \<Rightarrow> v)"

definition keeps_env :: "(string \<rightharpoonup> string) \<Rightarrow> (string \<rightharpoonup> string) \<Rightarrow> bool" where
  "keeps_env env env' \<longleftrightarrow> opted_in env' = opted_in env \<and> (\<forall>k. k \<noteq> STABLE_SEMCONV_ENV_VAR \<longrightarrow> env' k = env k)"

lemma opted_in_literal:
  "opted_in env = (case env ''OTEL_SEMCONV_STABILITY_OPT_IN'' of None \<Rightarrow> ''http'' | Some v \<Rightarrow> v)"
  by (simp add: opted_in_def STABLE_SEMCONV_ENV_VAR_def STABLE_SEMCONV_VALUE_def split: option.split)

text \<open>
  What the instrumentation libraries keep for the life of a process: the conventions, read from the
  environment by the first call and never again, and the runtime Redis was patched with.
\<close>

locale instrumentation =
  fixes instrument :: "'l instrumentor_call"
    and patched :: "'l \<Rightarrow> nat option"
    and patch :: "nat \<Rightarrow> 'l \<Rightarrow> 'l"
    and conventions :: "'l \<Rightarrow> string option option"
  assumes reads_once: "conventions (instrument env t n l)
      = (case conventions l of None \<Rightarrow> Some (env STABLE_SEMCONV_ENV_VAR) | Some v \<Rightarrow> Some v)"
    and patch_reads_none: "conventions (patch n l) = conventions l"
    and patches: "patched l = None \<Longrightarrow> patched (patch n l) = Some n"
    and patched_only_by_patch: "patched (instrument env t n l) = patched l"
begin

lemma opted_in_target:
  assumes "instrument_target instrument t n (env, l) = (env', l')"
  shows "env' = env(STABLE_SEMCONV_ENV_VAR \<mapsto> opted_in env) \<and> patched l' = patched l
    \<and> conventions l' = (if conventions l = None then Some (Some (opted_in env)) else conventions l)"
  using assms
  by (cases "env STABLE_SEMCONV_ENV_VAR"; cases "conventions l")
    (auto simp: instrument_target_def opt_in_to_stable_semconv_def opted_in_def reads_once patched_only_by_patch map_upd_triv)

lemma act_step:
  assumes "act instrument patched patch a (env, l) = (env', l')"
  shows "keeps_env env env'" and "patched l' = (case redis_runtime a of [] \<Rightarrow> patched l | n # ns \<Rightarrow> set_once n (patched l))"
    and "conventions l' = (if redis_runtime a = [] \<and> conventions l = None then Some (Some (opted_in env)) else conventions l)"
proof -
  have "keeps_env env env' \<and> patched l' = (case redis_runtime a of [] \<Rightarrow> patched l | n # ns \<Rightarrow> set_once n (patched l))
    \<and> conventions l' = (if redis_runtime a = [] \<and> conventions l = None then Some (Some (opted_in env)) else conventions l)"
  proof (cases a)
    case (InstrumentRedis n)
    then show ?thesis
      using assms patches [of l n] patch_reads_none
      by (cases "patched l") (auto simp: instrument_redis_def set_once_def keeps_env_def)
  qed (use assms in \<open>auto simp: instrument_fastapi_def instrument_database_def instrument_http_client_def keeps_env_def
      opted_in_def dest!: opted_in_target\<close>)
  then show "keeps_env env env'" and "patched l' = (case redis_runtime a of [] \<Rightarrow> patched l | n # ns \<Rightarrow> set_once n (patched l))"
    and "conventions l' = (if redis_runtime a = [] \<and> conventions l = None then Some (Some (opted_in env)) else conventions l)"
    by blast+
qed

lemma act_all_conventions:
  assumes "fold (act instrument patched patch) as (env, l) = (env', l')"
  shows "keeps_env env env' \<and> conventions l' = (if (\<exists>a \<in> set as. redis_runtime a = []) \<and> conventions l = None
        then Some (Some (opted_in env)) else conventions l)"
  using assms
proof (induction as arbitrary: env l)
  case Nil
  then show ?case by (simp add: keeps_env_def)
next
  case (Cons a as)
  obtain env1 l1 where one: "act instrument patched patch a (env, l) = (env1, l1)" by (metis prod.exhaust)
  have rest: "fold (act instrument patched patch) as (env1, l1) = (env', l')" using Cons.prems one by simp
  show ?case
    using act_step(1,3) [OF one] Cons.IH [OF rest]
    by (cases "redis_runtime a = []"; cases "conventions l") (auto simp: keeps_env_def)
qed

lemma act_all_redis:
  assumes "fold (act instrument patched patch) as (env, l) = (env', l')"
  shows "patched l' = (case redis_runtimes as of [] \<Rightarrow> patched l | n # ns \<Rightarrow> set_once n (patched l))"
  using assms
proof (induction as arbitrary: env l)
  case Nil
  then show ?case by simp
next
  case (Cons a as)
  obtain env1 l1 where one: "act instrument patched patch a (env, l) = (env1, l1)" by (metis prod.exhaust)
  have rest: "fold (act instrument patched patch) as (env1, l1) = (env', l')" using Cons.prems one by simp
  have again: "set_once k (set_once n p) = set_once n p" for k n and p :: "nat option"
    by (cases p) (simp_all add: set_once_def)
  show ?case
    using act_step(2) [OF one] Cons.IH [OF rest]
    by (cases a; cases "redis_runtimes as") (simp_all add: again)
qed

end

text \<open>A library that keeps just that, and what it was attached to.\<close>

record sim_lib =
  sl_conventions :: "string option option"
  sl_patched :: "nat option"
  sl_targets :: "(target \<times> nat) list"

definition sim_instrument :: "sim_lib instrumentor_call" where
  "sim_instrument env t n l =
     l\<lparr>sl_conventions := (case sl_conventions l of None \<Rightarrow> Some (env STABLE_SEMCONV_ENV_VAR) | Some v \<Rightarrow> Some v),
       sl_targets := (t, n) # sl_targets l\<rparr>"

definition sim_patch :: "nat \<Rightarrow> sim_lib \<Rightarrow> sim_lib" where
  "sim_patch n l = l\<lparr>sl_patched := Some n\<rparr>"

interpretation sim_otel: instrumentation sim_instrument sl_patched sim_patch sl_conventions
  by unfold_locales (auto simp: sim_instrument_def sim_patch_def)



section \<open>Restarts in one process\<close>

text \<open>
  Registering and stopping the runtime metrics, any number of times in one process, leaves the
  system-metrics instrumentor free every time, so each registration collects them again.
\<close>

theorem metrics_survive_restarts:
  assumes "mp_system_metrics m = None" and "register_runtime_metrics engine ending m = (r, m')"
    and "stop_in_process r m' = (r', m'')"
  shows "mp_system_metrics m' = Some PROCESS_METRICS_CONFIG \<and> mp_system_metrics m'' = None
    \<and> r' = \<lparr>probe_task = None, instrumentor = False\<rparr>
    \<and> (mp_log m'' \<noteq> mp_log m' \<longleftrightarrow> (\<exists>e. ending = ProbeDied e))"
proof (cases engine)
  case None
  then show ?thesis
    using assms
    by (cases ending) (auto simp: register_runtime_metrics_def Let_def register_service_info_def stop_in_process_def
        metrics_stop_def set_once_def)
next
  case (Some p)
  then show ?thesis
    using assms
    by (cases ending; cases p) (auto simp: register_runtime_metrics_def Let_def register_service_info_def
        register_pool_metrics_def stop_in_process_def metrics_stop_def set_once_def split: if_splits)
qed

end
