(* ===== verification/Redaction.thy ===== *)
theory Redaction
  imports Prelude PyText
begin

text \<open>
  Masking of secret-bearing fields (\<open>observability/redaction.py\<close>): the normal form of a key, the
  recursive replacement, the structlog processor, and the filter of the OTLP handler. A logged value
  is a dictionary, a list, or something else, which prints as its text; keys of dictionaries need
  not be strings.

  The lemmas show that no masked key keeps its value at any depth (\<open>redacted_hides\<close>), that
  masking twice is masking once, and that what is under a masked key has no influence at all.
\<close>

datatype log_key = StrKey string | OtherKey string

datatype log_value =
    LText string
  | LOther string
  | LList "log_value list"
  | LDict "(log_key \<times> log_value) list"

definition REDACTED :: log_value where
  "REDACTED = LText ''[REDACTED]''"

definition DEFAULT_REDACT_FIELDS :: "string list" where
  "DEFAULT_REDACT_FIELDS =
     [''password'', ''passwd'', ''secret'', ''secret_key'', ''secret_access_key'', ''token'', ''access_token'',
      ''refresh_token'', ''api_key'', ''apikey'', ''authorization'', ''cookie'', ''set_cookie'', ''card_number'', ''cvv'']"

text \<open>\<open>str.lower\<close> on code points up to 255.\<close>

definition py_lower_char :: "char \<Rightarrow> char" where
  "py_lower_char c =
     (let n = (of_char c :: nat)
      in if (65 \<le> n \<and> n \<le> 90) \<or> (192 \<le> n \<and> n \<le> 222 \<and> n \<noteq> 215) then char_of (n + 32) else c)"

definition normalise :: "string \<Rightarrow> string" where
  "normalise key = map (\<lambda>c. py_lower_char (if c = CHR ''-'' then CHR ''_'' else c)) key"

fun key_masked :: "string list \<Rightarrow> log_key \<Rightarrow> bool" where
  "key_masked names (StrKey k) = (normalise k \<in> set names)"
| "key_masked names (OtherKey k) = False"

fun redact_value :: "string list \<Rightarrow> log_value \<Rightarrow> log_value" where
  "redact_value names (LDict items) =
     LDict (map (\<lambda>(k, item). (k, if key_masked names k then REDACTED else redact_value names item)) items)"
| "redact_value names (LList items) = LList (map (redact_value names) items)"
| "redact_value names v = v"

text \<open>The event dictionary of a record; its keys are strings.\<close>

type_synonym event_dict = "(string \<times> log_value) list"

definition redact_sensitive_fields :: "string list \<Rightarrow> event_dict \<Rightarrow> event_dict" where
  "redact_sensitive_fields names event =
     map (\<lambda>(k, v). (k, if normalise k \<in> set names then REDACTED else redact_value names v)) event"

definition make_redactor :: "string list \<Rightarrow> event_dict \<Rightarrow> event_dict" where
  "make_redactor field_names = redact_sensitive_fields (map normalise field_names)"

text \<open>The attributes of a bare \<open>logging.LogRecord\<close> (Python 3.12 and later).\<close>

definition STDLIB_RECORD_ATTRIBUTES :: "string list" where
  "STDLIB_RECORD_ATTRIBUTES =
     [''name'', ''msg'', ''args'', ''levelname'', ''levelno'', ''pathname'', ''filename'', ''module'', ''exc_info'',
      ''exc_text'', ''stack_info'', ''lineno'', ''funcName'', ''created'', ''msecs'', ''relativeCreated'', ''thread'',
      ''threadName'', ''processName'', ''process'', ''taskName'']"

text \<open>\<open>RedactingFilter.filter\<close> on the attributes of a standard-library record; it lets every record pass.\<close>

definition redacting_filter :: "string list \<Rightarrow> event_dict \<Rightarrow> event_dict \<times> bool" where
  "redacting_filter field_names record_vars =
     (map (\<lambda>(k, v).
        (k, if k \<in> set STDLIB_RECORD_ATTRIBUTES then v
            else if normalise k \<in> set (map normalise field_names) then REDACTED
            else redact_value (map normalise field_names) v)) record_vars, True)"

section \<open>What masking leaves\<close>

text \<open>A value that still shows what is under a masked key, at some depth.\<close>

fun exposes :: "string list \<Rightarrow> log_value \<Rightarrow> bool" where
  "exposes names (LDict items) =
     list_ex (\<lambda>(k, item). if key_masked names k then item \<noteq> REDACTED else exposes names item) items"
| "exposes names (LList items) = list_ex (exposes names) items"
| "exposes names v = False"

lemma redact_value_safe [simp]: "\<not> exposes names (redact_value names v)"
proof (induction names v rule: redact_value.induct)
  case (1 names items)
  then show ?case by (fastforce simp: list_ex_iff split: if_splits)
qed (auto simp: list_ex_iff)

lemma redact_value_fixpoint: "\<not> exposes names v \<Longrightarrow> redact_value names v = v"
proof (induction names v rule: redact_value.induct)
  case (1 names items)
  have "(\<lambda>(k, item). (k, if key_masked names k then REDACTED else redact_value names item)) x = x"
    if "x \<in> set items" for x
    using 1 that by (cases x) (fastforce simp: list_ex_iff split: if_splits)
  then show ?case by (simp add: map_idI)
next
  case (2 names items)
  then show ?case by (auto simp: list_ex_iff map_idI)
qed simp_all

lemma redact_value_idem [simp]: "redact_value names (redact_value names v) = redact_value names v"
  by (rule redact_value_fixpoint) simp

text \<open>A value with everything under masked keys replaced, as \<open>f\<close> says; the rest stays.\<close>

fun change_secrets :: "string list \<Rightarrow> (log_value \<Rightarrow> log_value) \<Rightarrow> log_value \<Rightarrow> log_value" where
  "change_secrets names f (LDict items) =
     LDict (map (\<lambda>(k, item). (k, if key_masked names k then f item else change_secrets names f item)) items)"
| "change_secrets names f (LList items) = LList (map (change_secrets names f) items)"
| "change_secrets names f v = v"

lemma redact_change_secrets [simp]: "redact_value names (change_secrets names f v) = redact_value names v"
  by (induction names f v rule: change_secrets.induct) auto

definition change_event :: "string list \<Rightarrow> (log_value \<Rightarrow> log_value) \<Rightarrow> event_dict \<Rightarrow> event_dict" where
  "change_event names f event =
     map (\<lambda>(k, v). (k, if normalise k \<in> set names then f v else change_secrets names f v)) event"

section \<open>Properties\<close>

definition event_exposes :: "string list \<Rightarrow> event_dict \<Rightarrow> bool" where
  "event_exposes names event = exposes names (LDict (map (\<lambda>(k, v). (StrKey k, v)) event))"

lemma event_exposes_iff:
  "event_exposes names event \<longleftrightarrow>
     list_ex (\<lambda>(k, v). if normalise k \<in> set names then v \<noteq> REDACTED else exposes names v) event"
  by (induction event) (auto simp: event_exposes_def)

lemma redact_event_safe: "\<not> event_exposes names (redact_sensitive_fields names event)"
  by (auto simp: event_exposes_iff redact_sensitive_fields_def list_ex_iff split: if_splits)

lemma redact_event_fixpoint: "\<not> event_exposes names event \<Longrightarrow> redact_sensitive_fields names event = event"
  by (induction event) (auto simp: event_exposes_iff redact_sensitive_fields_def redact_value_fixpoint split: if_splits)

text \<open>
  After the redactor no configured field name, in any spelling that differs by case or by dashes
  and underscores, keeps its value at any depth of dictionaries and lists; the keys of the record and
  their order stay, masking again changes nothing, and a record with nothing to mask is untouched.
\<close>

theorem redacted_hides:
  "\<not> event_exposes (map normalise field_names) (make_redactor field_names event)
   \<and> map fst (make_redactor field_names event) = map fst event
   \<and> make_redactor field_names (make_redactor field_names event) = make_redactor field_names event
   \<and> (\<not> event_exposes (map normalise field_names) event \<longrightarrow> make_redactor field_names event = event)"
  unfolding make_redactor_def
proof (intro conjI impI)
  let ?names = "map normalise field_names"
  show "\<not> event_exposes ?names (redact_sensitive_fields ?names event)" by (rule redact_event_safe)
  show "map fst (redact_sensitive_fields ?names event) = map fst event"
    by (simp add: redact_sensitive_fields_def comp_def case_prod_beta)
  show "redact_sensitive_fields ?names (redact_sensitive_fields ?names event) = redact_sensitive_fields ?names event"
    by (rule redact_event_fixpoint) (rule redact_event_safe)
  show "redact_sensitive_fields ?names event = event" if "\<not> event_exposes ?names event"
    using that by (rule redact_event_fixpoint)
qed

theorem redacted_hides_witness:
  "make_redactor DEFAULT_REDACT_FIELDS [(''event'', LText ''login''), (''user'', LDict [(StrKey ''id'', LOther ''7'')])]
     = [(''event'', LText ''login''), (''user'', LDict [(StrKey ''id'', LOther ''7'')])]"
proof -
  have "\<not> event_exposes (map normalise DEFAULT_REDACT_FIELDS)
      [(''event'', LText ''login''), (''user'', LDict [(StrKey ''id'', LOther ''7'')])]"
    by code_simp
  then show ?thesis
    using redacted_hides [of DEFAULT_REDACT_FIELDS
        "[(''event'', LText ''login''), (''user'', LDict [(StrKey ''id'', LOther ''7'')])]"] by blast
qed

text \<open>
  What is under a masked key has no influence on the record that is rendered: however the values
  under masked keys of an event dictionary are changed, at any depth, the redactor gives the same
  record; and the filter of the OTLP handler masks the attributes a call site added in the same way.
\<close>

theorem secrets_do_not_influence_records:
  "make_redactor field_names (change_event (map normalise field_names) f event) = make_redactor field_names event
   \<and> filter (\<lambda>(k, v). k \<notin> set STDLIB_RECORD_ATTRIBUTES) (fst (redacting_filter field_names event))
       = make_redactor field_names (filter (\<lambda>(k, v). k \<notin> set STDLIB_RECORD_ATTRIBUTES) event)"
proof
  show "make_redactor field_names (change_event (map normalise field_names) f event) = make_redactor field_names event"
    by (auto simp: make_redactor_def redact_sensitive_fields_def change_event_def)
  show "filter (\<lambda>(k, v). k \<notin> set STDLIB_RECORD_ATTRIBUTES) (fst (redacting_filter field_names event))
      = make_redactor field_names (filter (\<lambda>(k, v). k \<notin> set STDLIB_RECORD_ATTRIBUTES) event)"
    by (induction event) (auto simp: redacting_filter_def make_redactor_def redact_sensitive_fields_def)
qed

text \<open>Of the attributes of a record, those that are not the standard library's show nothing after the filter.\<close>

lemma filtered_attributes_safe:
  assumes "set STDLIB_RECORD_ATTRIBUTES \<subseteq> set reserved"
  shows "\<not> event_exposes (map normalise field_names)
    (filter (\<lambda>(k, v). k \<notin> set reserved) (fst (redacting_filter field_names record_vars)))"
  using assms by (auto simp: event_exposes_iff redacting_filter_def list_ex_iff split: if_splits)

end
