(* ===== verification/Seed.thy ===== *)
theory Seed
  imports PaymentGatewayHttp
begin

text \<open>
  The seeding client (\<open>seed.py\<close>): a program that creates a fixed set of orders through the published
  API and records the identifiers it got in a state file, so that a second run creates nothing. Its
  state is the server's together with the file; a request may raise any exception.

  The locale \<open>seeding\<close> is what the client relies on in the service: what was served once is served
  again, and a post answered with 201 created one order. Inside it: no identifier is lost whatever
  fails (\<open>seed_records\<close>), and a run that succeeded is idempotent (\<open>seed_again\<close>).
\<close>

section \<open>The client's view of HTTP\<close>

text \<open>Status, the parsed body (\<open>None\<close> where it is not JSON) and its text.\<close>

record client_response =
  cl_status :: nat
  cl_json :: "json option"
  cl_text :: string

definition cl_body :: "client_response \<Rightarrow> exn + json" where
  "cl_body r = (case cl_json r of None \<Rightarrow> Inl (Lib (ValueError ''JSONDecodeError'')) | Some v \<Rightarrow> Inr v)"

definition ORDERS_PATH :: string where
  "ORDERS_PATH = ''/api/v1/orders''"

definition order_path :: "string \<Rightarrow> string" where
  "order_path order_id = ORDERS_PATH @ ''/'' @ order_id"

definition receipt_path :: "string \<Rightarrow> string" where
  "receipt_path order_id = ORDERS_PATH @ ''/'' @ order_id @ ''/receipt''"

definition seed_line :: "string \<Rightarrow> int \<Rightarrow> string \<Rightarrow> string \<Rightarrow> json" where
  "seed_line s q a c =
     JObj [(''sku'', JStr s), (''quantity'', JInt q), (''unit_amount'', JStr a), (''currency'', JStr c)]"

definition seed_payload :: "string \<Rightarrow> json list \<Rightarrow> json" where
  "seed_payload customer ls = JObj [(''customer_id'', JStr customer), (''lines'', JArr ls)]"

definition SEED_ORDERS :: "(string \<times> json) list" where
  "SEED_ORDERS =
     [(''espresso-beans'', seed_payload ''0f1d2c3b-4a59-4e6f-8a7b-9c0d1e2f3a4b''
         [seed_line ''beans-1kg'' 2 ''18.50'' ''EUR'']),
      (''filter-papers'', seed_payload ''0f1d2c3b-4a59-4e6f-8a7b-9c0d1e2f3a4b''
         [seed_line ''filter-100'' 3 ''4.25'' ''EUR'']),
      (''grinder'', seed_payload ''7e6d5c4b-3a29-4180-9f8e-7d6c5b4a3928''
         [seed_line ''grinder-pro'' 1 ''249.00'' ''EUR'']),
      (''mixed-basket'', seed_payload ''7e6d5c4b-3a29-4180-9f8e-7d6c5b4a3928''
         [seed_line ''mug-ceramic'' 4 ''9.90'' ''EUR'', seed_line ''spoon-set'' 1 ''12.40'' ''EUR'']),
      (''bulk-order'', seed_payload ''c1b2a394-8576-4e6f-a0b1-c2d3e4f5a6b7''
         [seed_line ''beans-1kg'' 25 ''18.50'' ''USD''])]"

lemma seed_keys_distinct: "distinct (map fst SEED_ORDERS)"
  by (simp add: SEED_ORDERS_def)

record seeded_order =
  so_key :: string
  so_order_id :: string
  so_total :: string
  so_created :: bool

definition SeedError :: "string \<Rightarrow> exn" where
  "SeedError m = Lib (OtherException ''SeedError'' m)"

section \<open>The state file\<close>

text \<open>There is none, it is not JSON, or it holds a value. Writing it does not fail.\<close>

datatype state_file = Missing | Unreadable | Holds json

definition load_state :: "state_file \<Rightarrow> exn + (string \<times> string) list" where
  "load_state f =
     (case f of
        Missing \<Rightarrow> Inr []
      | Unreadable \<Rightarrow> Inl (Lib (ValueError ''JSONDecodeError''))
      | Holds data \<Rightarrow>
          try_then (json_get data ''orders'' (JObj [])) (\<lambda>orders.
            case orders of
              JObj kvs \<Rightarrow> Inr (map (\<lambda>(k, v). (k, py_str v)) (dict_of kvs))
            | _ \<Rightarrow> Inl (Lib AttributeError)))"

definition save_state :: "(string \<times> string) list \<Rightarrow> state_file" where
  "save_state known = Holds (json_sort (JObj [(''orders'', JObj (map (\<lambda>(k, v). (k, JStr v)) known))]))"

section \<open>Seeding\<close>

definition money_text :: "json \<Rightarrow> exn + string" where
  "money_text t =
     try_then (json_index t ''amount'') (\<lambda>a.
     try_then (json_index t ''currency'') (\<lambda>c. Inr (py_str a @ '' '' @ py_str c)))"

definition body_total :: "json \<Rightarrow> exn + string" where
  "body_total v = try_then (json_index v ''total'') money_text"

type_synonym 'w client_get = "string \<Rightarrow> ('w, exn, client_response) io"
type_synonym 'w client_post = "string \<Rightarrow> json \<Rightarrow> ('w, exn, client_response) io"

definition ensure_receipt :: "'w client_get \<Rightarrow> string \<Rightarrow> ('w \<times> state_file, exn, unit) io" where
  "ensure_receipt get order_id =
     and_then (on_fst (get (receipt_path order_id))) (\<lambda>receipt.
       if cl_status receipt \<noteq> 200
       then raise (SeedError (''GET '' @ receipt_path order_id @ '' returned '' @ nat_str (cl_status receipt)))
       else ret ())"

text \<open>The part of one round that creates the order; it gives the updated dictionary too.\<close>

definition seed_create ::
  "'w client_get \<Rightarrow> 'w client_post \<Rightarrow> string \<Rightarrow> json \<Rightarrow> (string \<times> string) list \<Rightarrow>
   ('w \<times> state_file, exn, seeded_order \<times> (string \<times> string) list) io" where
  "seed_create get post key payload known =
     and_then (on_fst (post ORDERS_PATH payload)) (\<lambda>created.
       if cl_status created \<noteq> 201
       then raise (SeedError (''POST '' @ ORDERS_PATH @ '' for '' @ py_repr (JStr key) @ '' returned ''
                    @ nat_str (cl_status created) @ '': '' @ cl_text created))
       else
         and_then (lift_sum (cl_body created)) (\<lambda>body.
         and_then (lift_sum (map_sum id py_str (json_index body ''id''))) (\<lambda>order_id.
           let known' = dict_set known key order_id
           in and_then (on_snd (\<lambda>f. (Inr (), save_state known'))) (\<lambda>_.
              and_then (ensure_receipt get order_id) (\<lambda>_.
              and_then (lift_sum (body_total body)) (\<lambda>total.
                ret (\<lparr>so_key = key, so_order_id = order_id, so_total = total, so_created = True\<rparr>, known')))))))"

definition seed_entry ::
  "'w client_get \<Rightarrow> 'w client_post \<Rightarrow> string \<Rightarrow> json \<Rightarrow> (string \<times> string) list \<Rightarrow>
   ('w \<times> state_file, exn, seeded_order \<times> (string \<times> string) list) io" where
  "seed_entry get post key payload known =
     (case map_of known key of
        None \<Rightarrow> seed_create get post key payload known
      | Some order_id \<Rightarrow>
          and_then (on_fst (get (order_path order_id))) (\<lambda>existing.
            if cl_status existing = 200
            then
              and_then (ensure_receipt get order_id) (\<lambda>_.
              and_then (lift_sum (try_then (cl_body existing) body_total)) (\<lambda>total.
                ret (\<lparr>so_key = key, so_order_id = order_id, so_total = total, so_created = False\<rparr>, known)))
            else if cl_status existing \<noteq> 404
            then raise (SeedError (''GET '' @ order_path order_id @ '' returned '' @ nat_str (cl_status existing)))
            else seed_create get post key payload known))"

fun seed_entries ::
  "'w client_get \<Rightarrow> 'w client_post \<Rightarrow> (string \<times> json) list \<Rightarrow> (string \<times> string) list \<Rightarrow>
   ('w \<times> state_file, exn, seeded_order list) io" where
  "seed_entries get post [] known = ret []"
| "seed_entries get post ((key, payload) # es) known =
     and_then (seed_entry get post key payload known) (\<lambda>(order, known').
     and_then (seed_entries get post es known') (\<lambda>orders. ret (order # orders)))"

definition seed :: "'w client_get \<Rightarrow> 'w client_post \<Rightarrow> ('w \<times> state_file, exn, seeded_order list) io" where
  "seed get post = (\<lambda>(w, f).
     case load_state f of
       Inl e \<Rightarrow> (Inl e, (w, f))
     | Inr known \<Rightarrow> seed_entries get post SEED_ORDERS known (w, f))"

text \<open>\<open>main\<close> after the arguments are parsed: the exit code, and what is printed.\<close>

definition ljust :: "nat \<Rightarrow> string \<Rightarrow> string" where
  "ljust n s = s @ replicate (n - length s) CHR '' ''"

definition rjust :: "nat \<Rightarrow> string \<Rightarrow> string" where
  "rjust n s = replicate (n - length s) CHR '' '' @ s"

definition seed_report :: "seeded_order list \<Rightarrow> string list" where
  "seed_report seeded =
     (let width = foldl max 0 (map (length \<circ> so_key) seeded)
      in map (\<lambda>ord. ljust width (so_key ord) @ ''  '' @ so_order_id ord @ ''  '' @ rjust 12 (so_total ord) @ ''  ''
                @ (if so_created ord then ''created'' else ''exists'')) seeded)"

fun is_seed_error :: "exn \<Rightarrow> bool" where
  "is_seed_error (Lib (OtherException n m)) = (n = ''SeedError'')"
| "is_seed_error e = (is_httpx_error e \<and> e \<noteq> Lib InvalidURL)"

definition seed_main :: "'w client_get \<Rightarrow> 'w client_post \<Rightarrow> ('w \<times> state_file, exn, nat \<times> string list) io" where
  "seed_main get post =
     catch (and_then (seed get post) (\<lambda>seeded. ret (0, seed_report seeded)))
       (\<lambda>e. if is_seed_error e then ret (1, []) else raise e)"

section \<open>The state file round trip\<close>

lemma insort_key_map: "insort_key f (g x) (map g xs) = map g (insort_key (\<lambda>x. f (g x)) x xs)"
  by (induction xs) auto

lemma sort_key_map: "sort_key f (map g xs) = map g (sort_key (\<lambda>x. f (g x)) xs)"
  by (induction xs) (simp_all add: insort_key_map)

lemma load_save_state:
  assumes "distinct (map fst known)"
  shows "load_state (save_state known) = Inr (sort_key fst known)"
proof -
  have "save_state known = Holds (JObj [(''orders'', JObj (map (\<lambda>(k, v). (k, JStr v)) (sort_key fst known)))])"
    by (simp add: save_state_def sort_key_map comp_def case_prod_beta)
  moreover have "distinct (map fst (sort_key fst known))"
    using assms distinct_map [of fst known] distinct_map [of fst "sort_key fst known"] by simp
  ultimately show ?thesis
    by (simp add: load_state_def json_field_def dict_of_distinct comp_def case_prod_beta)
qed

lemma map_of_sort_key: "distinct (map fst xs) \<Longrightarrow> map_of (sort_key fst xs) = map_of xs"
  using distinct_map [of fst xs] distinct_map [of fst "sort_key fst xs"]
  by (subst map_of_inject_set) simp_all

text \<open>The identifiers a state file holds.\<close>

definition recorded :: "state_file \<Rightarrow> string set" where
  "recorded f = (case load_state f of Inl e \<Rightarrow> {} | Inr known \<Rightarrow> ran (map_of known))"

lemma recorded_save: "distinct (map fst known) \<Longrightarrow> recorded (save_state known) = ran (map_of known)"
  by (simp add: recorded_def load_save_state map_of_sort_key)

lemma dict_of_keys_distinct: "distinct (map fst (dict_of kvs))"
  unfolding dict_of_def by (induction kvs rule: rev_induct) (auto simp: dict_set_distinct)

lemma load_state_distinct:
  assumes "load_state f = Inr known"
  shows "distinct (map fst known)"
proof (cases f)
  case (Holds data)
  then obtain orders where "json_get data ''orders'' (JObj []) = Inr orders"
      "(case orders of JObj kvs \<Rightarrow> Inr (map (\<lambda>(k, v). (k, py_str v)) (dict_of kvs)) | _ \<Rightarrow> Inl (Lib AttributeError)) = Inr known"
    using assms by (auto simp: load_state_def try_then_Inr_iff)
  then obtain kvs where "known = map (\<lambda>(k, v). (k, py_str v)) (dict_of kvs)" by (cases orders) auto
  then have "map fst known = map fst (dict_of kvs)" by (simp add: comp_def case_prod_beta)
  then show ?thesis by (simp only: dict_of_keys_distinct)
qed (use assms in \<open>simp_all add: load_state_def\<close>)

section \<open>What the client relies on\<close>

text \<open>
  \<open>answer w p\<close> is what a GET of \<open>p\<close> is bound to be answered with in the server state \<open>w\<close>: it is known
  once a GET was answered with 200, and it never changes. \<open>created\<close> are the identifiers of the orders.
\<close>

locale seeding =
  fixes get :: "'w client_get" and post :: "'w client_post"
    and answer :: "'w \<Rightarrow> string \<rightharpoonup> client_response"
    and created :: "'w \<Rightarrow> string set"
    and fine :: "'w \<Rightarrow> bool"
  assumes get_keeps: "fine w \<Longrightarrow> get p w = (r, w') \<Longrightarrow> fine w' \<and> answer w \<subseteq>\<^sub>m answer w' \<and> created w' = created w"
    and get_ok: "fine w \<Longrightarrow> get p w = (Inr resp, w') \<Longrightarrow> cl_status resp = 200 \<Longrightarrow> answer w' p = Some resp"
    and get_answers: "fine w \<Longrightarrow> answer w p = Some resp \<Longrightarrow> cl_status resp = 200 \<and> fst (get p w) = Inr resp"
    and post_keeps: "fine w \<Longrightarrow> post p v w = (r, w') \<Longrightarrow> fine w' \<and> answer w \<subseteq>\<^sub>m answer w'"
    and post_created: "fine w \<Longrightarrow> post ORDERS_PATH v w = (Inr resp, w') \<Longrightarrow> cl_status resp = 201 \<Longrightarrow>
      \<exists>body i. cl_json resp = Some body \<and> json_index body ''id'' = Inr (JStr i) \<and> created w' = insert i (created w)
        \<and> (\<exists>got. answer w' (order_path i) = Some got \<and> cl_json got = Some body)"
    and post_other: "fine w \<Longrightarrow> post ORDERS_PATH v w = (r, w') \<Longrightarrow>
      (\<And>resp. r = Inr resp \<Longrightarrow> cl_status resp \<noteq> 201) \<Longrightarrow> created w' = created w"
begin

lemma ensure_receipt_run:
  assumes "fine w" and "ensure_receipt get i (w, f) = (r, (w', f'))"
  shows "f' = f \<and> fine w' \<and> answer w \<subseteq>\<^sub>m answer w' \<and> created w' = created w
    \<and> (\<forall>x. r = Inr x \<longrightarrow> (\<exists>resp. answer w' (receipt_path i) = Some resp))"
proof -
  obtain x w1 where g: "get (receipt_path i) w = (x, w1)" by (metis prod.exhaust)
  show ?thesis
    using assms(2) g get_keeps [OF assms(1) g] get_ok [OF assms(1), of "receipt_path i" _ w1]
    by (cases x) (auto simp: ensure_receipt_def split: if_splits)
qed

text \<open>Creating one order: it is recorded from the moment the service has it.\<close>

lemma seed_create_run:
  assumes "fine w" and "seed_create get post key payload known (w, f) = (r, (w', f'))"
  shows "fine w' \<and> answer w \<subseteq>\<^sub>m answer w'
    \<and> (created w' = created w \<and> f' = f \<and> (\<exists>e. r = Inl e)
       \<or> (\<exists>i. created w' = insert i (created w) \<and> f' = save_state (dict_set known key i)
            \<and> (\<forall>so known'. r = Inr (so, known') \<longrightarrow>
                 known' = dict_set known key i \<and> so_key so = key \<and> so_order_id so = i
                 \<and> (\<exists>resp got. answer w' (receipt_path i) = Some resp \<and> answer w' (order_path i) = Some got
                      \<and> try_then (cl_body got) body_total = Inr (so_total so)))))"
proof -
  obtain x w1 where p: "post ORDERS_PATH payload w = (x, w1)" by (metis prod.exhaust)
  have keeps: "fine w1 \<and> answer w \<subseteq>\<^sub>m answer w1" using post_keeps [OF assms(1) p] .
  show ?thesis
  proof (cases "\<exists>resp. x = Inr resp \<and> cl_status resp = 201")
    case False
    then have "w' = w1" "f' = f" "\<exists>e. r = Inl e"
      using assms(2) p by (cases x; auto simp: seed_create_def split: if_splits)+
    then show ?thesis using keeps post_other [OF assms(1) p] False by auto
  next
    case True
    then obtain resp where resp: "x = Inr resp" "cl_status resp = 201" by blast
    obtain body i got where post: "cl_json resp = Some body" "json_index body ''id'' = Inr (JStr i)"
        "created w1 = insert i (created w)" "answer w1 (order_path i) = Some got" "cl_json got = Some body"
      using post_created [OF assms(1) p [unfolded resp(1)] resp(2)] by blast
    let ?f = "save_state (dict_set known key i)"
    obtain y wf where e: "ensure_receipt get i (w1, ?f) = (y, wf)" by (metis prod.exhaust)
    obtain w2 f2 where wf: "wf = (w2, f2)" by (metis prod.exhaust)
    have after: "f2 = ?f \<and> fine w2 \<and> answer w1 \<subseteq>\<^sub>m answer w2 \<and> created w2 = created w1
        \<and> (\<forall>x. y = Inr x \<longrightarrow> (\<exists>resp. answer w2 (receipt_path i) = Some resp))"
      using keeps by (intro ensure_receipt_run) (simp_all add: e wf)
    have run: "seed_create get post key payload known (w, f) =
        and_then (ensure_receipt get i) (\<lambda>_. and_then (lift_sum (body_total body)) (\<lambda>total.
          ret (\<lparr>so_key = key, so_order_id = i, so_total = total, so_created = True\<rparr>, dict_set known key i))) (w1, ?f)"
      using p resp post(1,2) by (simp add: seed_create_def cl_body_def Let_def)
    have "w' = w2 \<and> f' = ?f \<and> (\<forall>so known'. r = Inr (so, known') \<longrightarrow>
        known' = dict_set known key i \<and> so_key so = key \<and> so_order_id so = i \<and> body_total body = Inr (so_total so)
        \<and> (\<exists>u. y = Inr u))"
      using assms(2) unfolding run and_then_def e wf
      using after by (cases y; cases "body_total body") auto
    moreover have "answer w2 (order_path i) = Some got" using map_leD after post(4) by metis
    ultimately show ?thesis
      using after keeps post(3,5) map_le_trans [of "answer w" "answer w1" "answer w2"] by (auto simp: cl_body_def)
  qed
qed

text \<open>One round. The second alternative is the one that creates an order.\<close>

lemma seed_entry_run:
  assumes "fine w" and "seed_entry get post key payload known (w, f) = (r, (w', f'))"
  shows "fine w' \<and> answer w \<subseteq>\<^sub>m answer w'
    \<and> (\<forall>so known'. r = Inr (so, known') \<longrightarrow>
         so_key so = key \<and> map_of known' key = Some (so_order_id so)
         \<and> (\<exists>resp got. answer w' (receipt_path (so_order_id so)) = Some resp
              \<and> answer w' (order_path (so_order_id so)) = Some got
              \<and> try_then (cl_body got) body_total = Inr (so_total so)))
    \<and> (created w' = created w \<and> f' = f \<and> (\<forall>so known'. r = Inr (so, known') \<longrightarrow> known' = known)
       \<or> (\<exists>i. created w' = insert i (created w) \<and> f' = save_state (dict_set known key i)
            \<and> (\<forall>so known'. r = Inr (so, known') \<longrightarrow> known' = dict_set known key i)))"
proof (cases "map_of known key")
  case None
  then have "seed_create get post key payload known (w, f) = (r, (w', f'))"
    using assms(2) by (simp add: seed_entry_def)
  from seed_create_run [OF assms(1) this] show ?thesis by (elim conjE disjE exE) auto
next
  case (Some i)
  obtain x w1 where g: "get (order_path i) w = (x, w1)" by (metis prod.exhaust)
  have keeps: "fine w1" "answer w \<subseteq>\<^sub>m answer w1" "created w1 = created w" using get_keeps [OF assms(1) g] by auto
  consider (failed) e where "x = Inl e"
    | (there) resp where "x = Inr resp" "cl_status resp = 200"
    | (missing) resp where "x = Inr resp" "cl_status resp = 404"
    | (odd) resp where "x = Inr resp" "cl_status resp \<noteq> 200" "cl_status resp \<noteq> 404"
    by (cases x) auto
  then show ?thesis
  proof cases
    case failed
    then show ?thesis using assms(2) Some g keeps by (auto simp: seed_entry_def)
  next
    case odd
    then show ?thesis using assms(2) Some g keeps by (auto simp: seed_entry_def)
  next
    case missing
    then have "seed_create get post key payload known (w1, f) = (r, (w', f'))"
      using assms(2) Some g by (simp add: seed_entry_def)
    from seed_create_run [OF keeps(1) this] show ?thesis
      using keeps(2,3) map_le_trans [of "answer w" "answer w1" "answer w'"] by (elim conjE disjE exE) auto
  next
    case there
    obtain y wf where e: "ensure_receipt get i (w1, f) = (y, wf)" by (metis prod.exhaust)
    obtain w2 f2 where wf: "wf = (w2, f2)" by (metis prod.exhaust)
    have after: "f2 = f \<and> fine w2 \<and> answer w1 \<subseteq>\<^sub>m answer w2 \<and> created w2 = created w1
        \<and> (\<forall>x. y = Inr x \<longrightarrow> (\<exists>resp. answer w2 (receipt_path i) = Some resp))"
      by (rule ensure_receipt_run [OF keeps(1)]) (simp add: e wf)
    have run: "seed_entry get post key payload known (w, f) =
        and_then (ensure_receipt get i) (\<lambda>_. and_then (lift_sum (try_then (cl_body resp) body_total)) (\<lambda>total.
          ret (\<lparr>so_key = key, so_order_id = i, so_total = total, so_created = False\<rparr>, known))) (w1, f)"
      using Some g there by (simp add: seed_entry_def)
    have "w' = w2 \<and> f' = f \<and> (\<forall>so known'. r = Inr (so, known') \<longrightarrow>
        known' = known \<and> so_key so = key \<and> so_order_id so = i
        \<and> try_then (cl_body resp) body_total = Inr (so_total so) \<and> (\<exists>u. y = Inr u))"
      using assms(2) unfolding run and_then_def e wf
      using after by (cases y; cases "try_then (cl_body resp) body_total") auto
    moreover have "answer w2 (order_path i) = Some resp"
      using map_leD after get_ok [OF assms(1) g [unfolded there(1)] there(2)] by metis
    ultimately show ?thesis
      using after keeps Some map_le_trans [of "answer w" "answer w1" "answer w2"] by auto
  qed
qed

text \<open>What a finished round leaves: the key recorded, the order and its receipt served.\<close>

definition settled :: "'w \<Rightarrow> (string \<times> string) list \<Rightarrow> string \<times> json \<Rightarrow> seeded_order \<Rightarrow> bool" where
  "settled w known e so \<longleftrightarrow>
     so_key so = fst e \<and> map_of known (fst e) = Some (so_order_id so)
     \<and> (\<exists>resp got. answer w (receipt_path (so_order_id so)) = Some resp
          \<and> answer w (order_path (so_order_id so)) = Some got
          \<and> try_then (cl_body got) body_total = Inr (so_total so))"

lemma settled_later:
  assumes "settled w known e so" and "answer w \<subseteq>\<^sub>m answer w'" and "map_of known' (fst e) = map_of known (fst e)"
  shows "settled w' known' e so"
proof -
  let ?i = "so_order_id so"
  obtain resp got where "answer w (receipt_path ?i) = Some resp" "answer w (order_path ?i) = Some got"
      "try_then (cl_body got) body_total = Inr (so_total so)" "so_key so = fst e" "map_of known (fst e) = Some ?i"
    using assms(1) by (auto simp: settled_def)
  then show ?thesis using map_leD [OF assms(2)] assms(3) by (simp add: settled_def)
qed

text \<open>All rounds: what the run created is in the file, and the other keys keep what they had.\<close>

lemma seed_entries_run:
  assumes "fine w" and "distinct (map fst es)" and "distinct (map fst known)"
    and "seed_entries get post es known (w, f) = (r, (w', f'))"
  shows "fine w' \<and> answer w \<subseteq>\<^sub>m answer w'
    \<and> (\<exists>known'. distinct (map fst known') \<and> (f' = f \<and> known' = known \<or> f' = save_state known')
        \<and> created w' \<subseteq> created w \<union> (\<lambda>k. the (map_of known' k)) ` (set (map fst es) \<inter> dom (map_of known'))
        \<and> (\<forall>k. k \<notin> set (map fst es) \<longrightarrow> map_of known' k = map_of known k)
        \<and> (\<forall>sos. r = Inr sos \<longrightarrow> list_all2 (settled w' known') es sos))"
  using assms
proof (induction es arbitrary: w f known r)
  case Nil
  then show ?case by auto
next
  case (Cons e es)
  obtain key payload where e: "e = (key, payload)" by (metis prod.exhaust)
  obtain x wf where one: "seed_entry get post key payload known (w, f) = (x, wf)" by (metis prod.exhaust)
  obtain w1 f1 where wf: "wf = (w1, f1)" by (metis prod.exhaust)
  note step = seed_entry_run [OF Cons.prems(1) one [unfolded wf]]
  have grows: "fine w1" "answer w \<subseteq>\<^sub>m answer w1" using step by blast+
  have key: "key \<notin> set (map fst es)" and des: "distinct (map fst es)" using Cons.prems(2) e by auto
  show ?case
  proof (cases x)
    case (Inl err)
    then have eq: "w' = w1" "f' = f1" "r = Inl err" using Cons.prems(4) e one wf by (simp_all add: and_then_def)
    from step consider "created w1 = created w" "f1 = f"
      | i where "created w1 = insert i (created w)" "f1 = save_state (dict_set known key i)" by blast
    then show ?thesis
    proof cases
      case 1
      then show ?thesis using grows eq Cons.prems(3) by blast
    next
      case 2
      then show ?thesis
        using grows eq Cons.prems(3) e
        by (intro conjI exI [of _ "dict_set known key i"]) (auto simp: dict_set_distinct)
    qed
  next
    case (Inr p)
    obtain so known1 where p: "p = (so, known1)" by (metis prod.exhaust)
    obtain y wf2 where rest: "seed_entries get post es known1 (w1, f1) = (y, wf2)" by (metis prod.exhaust)
    obtain w2 f2 where wf2: "wf2 = (w2, f2)" by (metis prod.exhaust)
    have "(map_sum id (\<lambda>sos. so # sos) y, (w2, f2)) = (r, (w', f'))"
      unfolding Cons.prems(4) [symmetric] e seed_entries.simps and_then_def one [unfolded wf Inr p] prod.case sum.case
        rest [unfolded wf2]
      by (cases y) simp_all
    then have eq: "w' = w2" "f' = f2" and r: "r = map_sum id (\<lambda>sos. so # sos) y" by simp_all
    have known1: "known1 = known \<and> f1 = f \<and> created w1 = created w
        \<or> (\<exists>i. known1 = dict_set known key i \<and> f1 = save_state known1 \<and> created w1 = insert i (created w))"
      using step Inr p by blast
    then have d1: "distinct (map fst known1)" using Cons.prems(3) by (auto simp: dict_set_distinct)
    have here: "settled w1 known1 e so" using step Inr p e by (simp add: settled_def)
    then have k1: "map_of known1 key = Some (so_order_id so)" by (simp add: settled_def e)
    from Cons.IH [OF grows(1) des d1 rest [unfolded wf2, folded eq], unfolded eq]
    obtain known' where ih: "fine w2" "answer w1 \<subseteq>\<^sub>m answer w2" "distinct (map fst known')"
        "f2 = f1 \<and> known' = known1 \<or> f2 = save_state known'"
        "created w2 \<subseteq> created w1 \<union> (\<lambda>k. the (map_of known' k)) ` (set (map fst es) \<inter> dom (map_of known'))"
        "\<forall>k. k \<notin> set (map fst es) \<longrightarrow> map_of known' k = map_of known1 k"
        "\<forall>sos. y = Inr sos \<longrightarrow> list_all2 (settled w2 known') es sos"
      by blast
    have k': "map_of known' key = map_of known1 key" using ih(6) key by simp
    have "created w2 \<subseteq> created w \<union> (\<lambda>k. the (map_of known' k)) ` (set (map fst (e # es)) \<inter> dom (map_of known'))"
    proof -
      have "created w1 \<subseteq> created w \<union> {so_order_id so}" using known1 k1 by auto
      moreover have "so_order_id so \<in> (\<lambda>k. the (map_of known' k)) ` (set (map fst (e # es)) \<inter> dom (map_of known'))"
        using k' k1 e by (intro image_eqI [of _ _ key]) auto
      ultimately show ?thesis using ih(5) by fastforce
    qed
    moreover have "f2 = f \<and> known' = known \<or> f2 = save_state known'" using ih(4) known1 by auto
    moreover have "\<forall>k. k \<notin> set (map fst (e # es)) \<longrightarrow> map_of known' k = map_of known k"
      using ih(6) known1 e by auto
    moreover have "\<forall>sos. r = Inr sos \<longrightarrow> list_all2 (settled w2 known') (e # es) sos"
      using r ih(7) settled_later [OF here ih(2)] k' e by (cases y) auto
    moreover have "answer w \<subseteq>\<^sub>m answer w2" using grows(2) ih(2) by (rule map_le_trans)
    ultimately show ?thesis unfolding eq using ih(1,3) by (intro conjI exI [of _ known'])
  qed
qed

text \<open>No identifier is lost, whatever the outcome.\<close>

lemma seed_records:
  assumes "fine w" and "seed get post (w, f) = (r, (w', f'))"
  shows "fine w' \<and> answer w \<subseteq>\<^sub>m answer w' \<and> created w' \<subseteq> created w \<union> recorded f'"
proof (cases "load_state f")
  case (Inl e)
  then show ?thesis using assms by (simp add: seed_def)
next
  case (Inr known)
  then have run: "seed_entries get post SEED_ORDERS known (w, f) = (r, (w', f'))" using assms(2) by (simp add: seed_def)
  from seed_entries_run [OF assms(1) seed_keys_distinct load_state_distinct [OF Inr] run]
  obtain known' where k: "fine w'" "answer w \<subseteq>\<^sub>m answer w'" "distinct (map fst known')"
      "f' = f \<and> known' = known \<or> f' = save_state known'"
      "created w' \<subseteq> created w \<union> (\<lambda>k. the (map_of known' k)) ` (set (map fst SEED_ORDERS) \<inter> dom (map_of known'))"
    by blast
  have "recorded f' = ran (map_of known')" using k(4) Inr recorded_save [OF k(3)] by (auto simp: recorded_def)
  then show ?thesis using k by (fastforce simp: ran_def)
qed

text \<open>Settled entries are found again: nothing is created and the file is left alone.\<close>

lemma seed_settled:
  assumes "fine w" and "list_all2 (settled w known) es sos"
  shows "\<exists>w'. seed_entries get post es known (w, f) = (Inr (map (\<lambda>so. so\<lparr>so_created := False\<rparr>) sos), (w', f))
    \<and> fine w' \<and> answer w \<subseteq>\<^sub>m answer w' \<and> created w' = created w"
  using assms
proof (induction es arbitrary: w sos)
  case Nil
  then show ?case by auto
next
  case (Cons e es)
  obtain key payload where e: "e = (key, payload)" by (metis prod.exhaust)
  obtain so sos' where sos: "sos = so # sos'" "settled w known e so" "list_all2 (settled w known) es sos'"
    using Cons.prems(2) by (auto simp: list_all2_Cons1)
  let ?i = "so_order_id so"
  obtain resp got where served: "so_key so = key" "map_of known key = Some ?i" "answer w (receipt_path ?i) = Some resp"
      "answer w (order_path ?i) = Some got" "try_then (cl_body got) body_total = Inr (so_total so)"
    using sos(2) e by (auto simp: settled_def)
  obtain w1 where g1: "get (order_path ?i) w = (Inr got, w1)" "cl_status got = 200"
    using get_answers [OF Cons.prems(1) served(4)] by (metis fst_conv surj_pair)
  have k1: "fine w1" "answer w \<subseteq>\<^sub>m answer w1" "created w1 = created w"
    using get_keeps [OF Cons.prems(1) g1(1)] by auto
  have rec: "answer w1 (receipt_path ?i) = Some resp" using map_leD [OF k1(2) served(3)] .
  obtain w2 where g2: "get (receipt_path ?i) w1 = (Inr resp, w2)" "cl_status resp = 200"
    using get_answers [OF k1(1) rec] by (metis fst_conv surj_pair)
  have k2: "fine w2" "answer w1 \<subseteq>\<^sub>m answer w2" "created w2 = created w1"
    using get_keeps [OF k1(1) g2(1)] by auto
  have grows: "answer w \<subseteq>\<^sub>m answer w2" using k1(2) k2(2) by (rule map_le_trans)
  have "list_all2 (settled w2 known) es sos'"
    using sos(3) settled_later [OF _ grows] by (auto elim: list_all2_mono)
  from Cons.IH [OF k2(1) this]
  obtain w3 where ih: "seed_entries get post es known (w2, f) = (Inr (map (\<lambda>so. so\<lparr>so_created := False\<rparr>) sos'), (w3, f))"
      "fine w3" "answer w2 \<subseteq>\<^sub>m answer w3" "created w3 = created w2"
    by blast
  have "seed_entry get post key payload known (w, f) = (Inr (so\<lparr>so_created := False\<rparr>, known), (w2, f))"
    using served(1,2,5) g1 g2 by (simp add: seed_entry_def ensure_receipt_def and_then_def)
  then show ?case
    using ih k1 k2 map_le_trans [OF grows ih(3)] sos(1) e by (simp add: and_then_def)
qed

lemma seed_again:
  assumes "fine w" and "seed get post (w, f) = (Inr sos, (w1, f1))"
  shows "\<exists>w2. seed get post (w1, f1) = (Inr (map (\<lambda>so. so\<lparr>so_created := False\<rparr>) sos), (w2, f1))
    \<and> created w2 = created w1 \<and> map so_key sos = map fst SEED_ORDERS"
proof -
  obtain known where known: "load_state f = Inr known" using assms(2) by (cases "load_state f") (simp_all add: seed_def)
  then have run: "seed_entries get post SEED_ORDERS known (w, f) = (Inr sos, (w1, f1))"
    using assms(2) by (simp add: seed_def)
  from seed_entries_run [OF assms(1) seed_keys_distinct load_state_distinct [OF known] run]
  obtain known' where k: "fine w1" "distinct (map fst known')" "f1 = f \<and> known' = known \<or> f1 = save_state known'"
      "list_all2 (settled w1 known') SEED_ORDERS sos"
    by blast
  obtain again where again: "load_state f1 = Inr again" "map_of again = map_of known'"
    using k(2,3) known load_save_state map_of_sort_key by metis
  have "list_all2 (settled w1 again) SEED_ORDERS sos"
    using k(4) by (rule list_all2_mono) (simp add: settled_def again(2))
  from seed_settled [OF k(1) this] obtain w2 where
    "seed_entries get post SEED_ORDERS again (w1, f1) = (Inr (map (\<lambda>so. so\<lparr>so_created := False\<rparr>) sos), (w2, f1))"
    "created w2 = created w1" by blast
  moreover have "map so_key sos = map fst SEED_ORDERS"
    using k(4) by (auto simp: settled_def list_all2_conv_all_nth intro!: nth_equalityI)
  ultimately show ?thesis using again(1) by (auto simp: seed_def)
qed

end

end
