(* ===== verification/SeedOnService.thy ===== *)
theory SeedOnService
  imports Seed OrderService
begin

text \<open>
  The seeding client and the service together: the service over its in-memory adapters, seen through
  HTTP, keeps the contract the client relies on. What FastAPI does with the paths and bodies of these
  requests (routing, parsing, serialising) is written out for exactly them.
\<close>

section \<open>The service over the in-memory adapters as the client sees it\<close>

text \<open>What FastAPI does for these requests: paths to routes, bodies to the request schema, replies to JSON.\<close>

definition uuid_parse :: "string \<Rightarrow> uuid option" where
  "uuid_parse s =
     (let u = word_of_nat (hex_val (filter (\<lambda>c. c \<noteq> CHR ''-'') s)) :: uuid in if uuid_str u = s then Some u else None)"

lemma uuid_parse_str [simp]: "uuid_parse (uuid_str u) = Some u"
proof -
  have "unat u < 2 ^ LENGTH(128)" by (rule unsigned_less)
  then have "hex_val (uuid_hex u) = unat u" by (simp add: uuid_hex_def hex_val_hex_fixed)
  then show ?thesis by (simp add: uuid_parse_def filter_uuid_str)
qed

lemma uuid_parse_Some: "uuid_parse s = Some u \<longleftrightarrow> s = uuid_str u"
proof
  show "uuid_parse s = Some u \<Longrightarrow> s = uuid_str u" by (auto simp: uuid_parse_def Let_def split: if_splits)
qed simp

definition RECEIPT_SUFFIX :: string where
  "RECEIPT_SUFFIX = ''/receipt''"

definition route :: "string \<Rightarrow> api_request option" where
  "route path =
     (let p = ORDERS_PATH @ ''/''; rest = drop (length p) path
      in if \<not> starts_with path p then None
         else case uuid_parse rest of
           Some i \<Rightarrow> Some (GetOrder i)
         | None \<Rightarrow>
             if ends_with rest RECEIPT_SUFFIX
             then map_option GetOrderReceipt (uuid_parse (take (length rest - length RECEIPT_SUFFIX) rest))
             else None)"

definition dec_parse :: "string \<Rightarrow> decimal option" where
  "dec_parse s =
     (let whole = takeWhile (\<lambda>c. c \<noteq> CHR ''.'') s; frac = drop 1 (dropWhile (\<lambda>c. c \<noteq> CHR ''.'') s)
      in if whole \<noteq> [] \<and> list_all is_digit (whole @ frac) then Some (Dec False (nat_val (whole @ frac)) (- int (length frac)))
         else None)"

fun line_of_json :: "json \<Rightarrow> order_line_in option" where
  "line_of_json (JObj kvs) =
     (case (json_field kvs ''sku'', json_field kvs ''quantity'', json_field kvs ''unit_amount'', json_field kvs ''currency'') of
        (Some (JStr s), Some (JInt q), Some (JStr a), Some (JStr c)) \<Rightarrow>
          map_option (\<lambda>d. \<lparr>in_sku = s, in_quantity = q, in_unit_amount = d, in_currency = c\<rparr>) (dec_parse a)
      | _ \<Rightarrow> None)"
| "line_of_json v = None"

fun request_of_json :: "json \<Rightarrow> place_order_request option" where
  "request_of_json (JObj kvs) =
     (case (json_field kvs ''customer_id'', json_field kvs ''lines'') of
        (Some (JStr u), Some (JArr ls)) \<Rightarrow>
          (case (uuid_parse u, those (map line_of_json ls)) of
             (Some i, Some items) \<Rightarrow> Some \<lparr>req_customer_id = i, req_lines = items\<rparr>
           | _ \<Rightarrow> None)
      | _ \<Rightarrow> None)"
| "request_of_json v = None"

definition money_json :: "money_out \<Rightarrow> json" where
  "money_json m = JObj [(''amount'', JStr (dec_str (out_amount m))), (''currency'', JStr (out_currency m))]"

definition order_json :: "order_response \<Rightarrow> json" where
  "order_json r =
     JObj [(''id'', JStr (uuid_str (out_id r))), (''customer_id'', JStr (uuid_str (out_customer_id r))),
           (''lines'', JArr (map (\<lambda>l. JObj [(''sku'', JStr (out_sku l)), (''quantity'', JInt (out_quantity l)),
              (''unit_price'', money_json (out_unit_price l)), (''subtotal'', money_json (out_subtotal l))]) (out_lines r))),
           (''total'', money_json (out_total r))]"

definition json_answer :: "nat \<Rightarrow> json \<Rightarrow> client_response" where
  "json_answer code v = \<lparr>cl_status = code, cl_json = Some v, cl_text = json_dumps v\<rparr>"

text \<open>The client never parses the bytes of a receipt.\<close>

fun client_of_reply :: "api_reply \<Rightarrow> client_response" where
  "client_of_reply (OrderReply code resp hs) = json_answer code (order_json resp)"
| "client_of_reply (BytesReply code c media) = \<lparr>cl_status = code, cl_json = None, cl_text = c\<rparr>"
| "client_of_reply (ProblemReply r) = json_answer (reply_status r) (reply_content r)"

text \<open>The server: the adapters' states and the identifiers \<open>uuid4\<close> will draw.\<close>

type_synonym mem_server = "(mem_orders \<times> uuid list \<times> mem_receipts) \<times> uuid list"

definition api_get :: "mem_server client_get" where
  "api_get path = (\<lambda>(st, us).
     case route path of
       None \<Rightarrow> (Inr (json_answer 404 (JObj [])), (st, us))
     | Some r \<Rightarrow> (case mem_serve [] order_request r st of (a, st') \<Rightarrow> (Inr (client_of_reply a), (st', us))))"

definition api_post :: "mem_server client_post" where
  "api_post path v = (\<lambda>(st, us).
     case us of
       [] \<Rightarrow> (Inl (Lib ReadTimeout), (st, us))
     | u # us' \<Rightarrow>
         if path \<noteq> ORDERS_PATH then (Inr (json_answer 405 (JObj [])), (st, us))
         else case request_of_json v of
           None \<Rightarrow> (Inr (json_answer 422 (JObj [])), (st, us))
         | Some request \<Rightarrow>
             (case mem_serve [] order_request (PostOrder u request) st of (a, st') \<Rightarrow> (Inr (client_of_reply a), (st', us'))))"

definition api_answer :: "mem_server \<Rightarrow> string \<rightharpoonup> client_response" where
  "api_answer s path =
     (case s of ((w, p, rs), us) \<Rightarrow>
        case route path of
          Some (GetOrder i) \<Rightarrow>
            map_option (\<lambda>ord. client_of_reply (OrderReply 200 (projr (to_response ord)) [])) (mem_order_map w i)
        | Some (GetOrderReceipt i) \<Rightarrow>
            (if mem_order_map w i = None then None
             else map_option (\<lambda>c. client_of_reply (BytesReply 200 c RECEIPT_MEDIA_TYPE)) (mem_receipt_map rs i))
        | _ \<Rightarrow> None)"

definition api_created :: "mem_server \<Rightarrow> string set" where
  "api_created s = uuid_str ` dom (mem_order_map (fst (fst s)))"

definition api_fine :: "mem_server \<Rightarrow> bool" where
  "api_fine s \<longleftrightarrow> mem_service_ok (fst s) \<and> distinct (snd s) \<and> set (snd s) \<inter> dom (mem_order_map (fst (fst s))) = {}"

lemma route_order [simp]: "route (order_path (uuid_str i)) = Some (GetOrder i)"
  by (simp add: route_def order_path_def Let_def starts_with_iff)

lemma route_never_posts: "route path \<noteq> Some (PostOrder i request)"
  by (auto simp: route_def Let_def split: option.splits if_splits)

text \<open>One GET over the in-memory adapters.\<close>

lemma mem_get_order:
  assumes "mem_orders_ok w"
  shows "mem_serve pe rq (GetOrder i) (w, p, s) =
    ((case mem_order_map w i of
        None \<Rightarrow> failed pe rq (Domain (OrderNotFoundError i))
      | Some ord \<Rightarrow> OrderReply 200 (projr (to_response ord)) []), (w, p, s))"
proof (cases "mem_order_map w i")
  case None
  then show ?thesis by (simp add: get_orders_def get_order_def mem_order_get_def and_then_def)
next
  case (Some ord)
  then have "order_valid ord" using assms by (auto simp: mem_orders_ok_def)
  then obtain resp where "to_response ord = Inr resp" using to_response_returns by blast
  then show ?thesis using Some by (simp add: get_orders_def get_order_def mem_order_get_def and_then_def)
qed

lemma mem_get_receipt:
  assumes "mem_orders_ok w"
  shows "mem_serve pe rq (GetOrderReceipt i) (w, p, s) =
    (case mem_order_map w i of
       None \<Rightarrow> (failed pe rq (Domain (OrderNotFoundError i)), (w, p, s))
     | Some ord \<Rightarrow>
         (case mem_receipt_map s i of
            Some c \<Rightarrow> (BytesReply 200 c RECEIPT_MEDIA_TYPE, (w, p, s))
          | None \<Rightarrow> (BytesReply 200 (projr (render_receipt ord)) RECEIPT_MEDIA_TYPE,
              (w, p, s\<lparr>mem_receipt_map := (mem_receipt_map s)(i \<mapsto> projr (render_receipt ord))\<rparr>))))"
proof (cases "mem_order_map w i")
  case None
  then show ?thesis by (simp add: get_orders_receipt_def get_receipt_def mem_order_get_def and_then_def)
next
  case (Some ord)
  then have "order_valid ord" using assms by (auto simp: mem_orders_ok_def)
  then obtain c where "render_receipt ord = Inr c" using render_receipt_returns by blast
  then show ?thesis
    using Some by (auto simp: get_orders_receipt_def get_receipt_def mem_order_get_def mem_receipt_get_def
        mem_receipt_put_def and_then_def split: option.splits)
qed

text \<open>One POST over the in-memory adapters.\<close>

lemma mem_post:
  "mem_serve pe rq (PostOrder i request) (w, p, s) =
    (if place_order_request_valid request
     then (let ord = order_for i (request_command request)
                 \<lparr>auth_id = ''auth_'' @ uuid_hex (case p of [] \<Rightarrow> 0 | u # us \<Rightarrow> u)\<rparr>
           in (OrderReply 201 (projr (to_response ord)) [(''Location'', ''/api/v1/orders/'' @ uuid_str i)],
               (w\<lparr>mem_order_map := (mem_order_map w)(i \<mapsto> ord)\<rparr>, tl p, s)))
     else (failed pe rq (Lib PydanticValidationError), (w, p, s)))"
proof (cases "place_order_request_valid request")
  case True
  then show ?thesis
    by (simp add: post_orders_valid charge_and_save_def mem_authorise_eq mem_order_save_def Let_def)
next
  case False
  then show ?thesis by (simp add: post_orders_def to_command_invalid)
qed

lemma order_for_response:
  assumes "place_order_request_valid request"
  shows "\<exists>resp. to_response (order_for i (request_command request) a) = Inr resp \<and> out_id resp = i"
  using to_response_returns [OF order_for_valid [of "request_command request"]] assms by fastforce

lemma failed_status:
  "reply_code (failed pe rq (Domain (OrderNotFoundError i))) = 404"
  "reply_code (failed pe rq (Lib PydanticValidationError)) = 422"
  by (simp_all add: failed_def on_domain_error_def on_pydantic_error_def problem_reply_def status_for_def STATUS_BY_ERROR_def)

lemma json_answer_parts [simp]: "cl_status (json_answer code v) = code" "cl_json (json_answer code v) = Some v"
  by (simp_all add: json_answer_def)

lemma client_status [simp]: "cl_status (client_of_reply a) = reply_code a"
  by (cases a) (simp_all add: json_answer_def)

lemma api_answer_mono:
  assumes "mem_order_map w \<subseteq>\<^sub>m mem_order_map w'" and "mem_receipt_map rs \<subseteq>\<^sub>m mem_receipt_map rs'"
  shows "api_answer ((w, p, rs), us) \<subseteq>\<^sub>m api_answer ((w', p', rs'), us')"
  using assms
  by (auto simp: api_answer_def map_le_def dom_def split: option.splits api_request.splits if_splits)

text \<open>A GET, as the client sees it, in the terms of \<open>api_answer\<close>.\<close>

lemma api_get_run:
  assumes "api_fine s" and "api_get path s = (r, s')"
  shows "api_fine s' \<and> api_answer s \<subseteq>\<^sub>m api_answer s' \<and> api_created s' = api_created s
    \<and> (\<exists>resp. r = Inr resp \<and> (cl_status resp = 200 \<longrightarrow> api_answer s' path = Some resp)
        \<and> (\<forall>known. api_answer s path = Some known \<longrightarrow> resp = known \<and> cl_status resp = 200))"
proof -
  obtain w p rs us where s: "s = ((w, p, rs), us)" by (metis prod.exhaust)
  have ok: "mem_orders_ok w" and fine: "mem_service_ok (w, p, rs)" using assms(1) by (auto simp: api_fine_def s service_ok_def)
  show ?thesis
  proof (cases "route path")
    case None
    then show ?thesis using assms s by (auto simp: api_get_def api_answer_def json_answer_def)
  next
    case (Some q)
    then consider (order) i where "q = GetOrder i" | (receipt) i where "q = GetOrderReceipt i"
      using route_never_posts by (cases q) auto
    then show ?thesis
    proof cases
      case order
      then have "s' = s" and "r = Inr (client_of_reply (case mem_order_map w i of
          None \<Rightarrow> failed [] order_request (Domain (OrderNotFoundError i))
        | Some ord \<Rightarrow> OrderReply 200 (projr (to_response ord)) []))"
        using assms(2) Some mem_get_order [OF ok] by (simp_all add: api_get_def s)
      then show ?thesis
        using assms(1) Some order by (cases "mem_order_map w i") (simp_all add: api_answer_def s failed_status)
    next
      case receipt
      obtain a st' where run: "mem_serve [] order_request (GetOrderReceipt i) (w, p, rs) = (a, st')" by (metis prod.exhaust)
      have res: "r = Inr (client_of_reply a)" "s' = (st', us)"
        using assms(2) Some receipt run by (simp_all add: api_get_def s)
      have "fresh_draws (mem_order_map (fst (w, p, rs))) [GetOrderReceipt i]" by (simp add: fresh_draws_def)
      from mem_service.serve_good [OF fine this run] have good: "mem_service_ok st'" by blast
      obtain rs' where st': "st' = (w, p, rs')" and rec: "mem_receipt_map rs \<subseteq>\<^sub>m mem_receipt_map rs'"
        using run unfolding mem_get_receipt [OF ok] by (auto simp: map_le_def dom_def split: option.splits)
      have grows: "api_answer s \<subseteq>\<^sub>m api_answer s'"
        unfolding s res st' by (rule api_answer_mono [OF _ rec]) simp
      have "api_fine s'" using assms(1) good by (simp add: api_fine_def s res st')
      moreover have "api_created s' = api_created s" by (simp add: api_created_def s res st')
      moreover have "(cl_status (client_of_reply a) = 200 \<longrightarrow> api_answer s' path = Some (client_of_reply a))
          \<and> (\<forall>known. api_answer s path = Some known \<longrightarrow> client_of_reply a = known \<and> cl_status (client_of_reply a) = 200)"
        using run Some receipt unfolding mem_get_receipt [OF ok]
        by (auto simp: api_answer_def s res failed_status split: option.splits)
      ultimately show ?thesis using grows res by auto
    qed
  qed
qed

lemma api_post_run:
  assumes "api_fine s" and "api_post path v s = (r, s')"
  shows "api_fine s' \<and> api_answer s \<subseteq>\<^sub>m api_answer s'
    \<and> (api_created s' = api_created s \<and> (\<forall>resp. r = Inr resp \<longrightarrow> cl_status resp \<noteq> 201)
       \<or> (\<exists>resp body i got. r = Inr resp \<and> cl_status resp = 201 \<and> cl_json resp = Some body
            \<and> json_index body ''id'' = Inr (JStr i) \<and> api_created s' = insert i (api_created s)
            \<and> api_answer s' (order_path i) = Some got \<and> cl_json got = Some body))"
proof -
  obtain w p rs us where s: "s = ((w, p, rs), us)" by (metis prod.exhaust)
  have fine: "mem_service_ok (w, p, rs)" using assms(1) by (simp add: api_fine_def s)
  show ?thesis
  proof (cases "us = [] \<or> path \<noteq> ORDERS_PATH \<or> request_of_json v = None")
    case True
    then show ?thesis
      using assms by (cases us) (auto simp: api_post_def s json_answer_def split: if_splits)
  next
    case False
    then obtain u us' request where us: "us = u # us'" and path: "path = ORDERS_PATH" and req: "request_of_json v = Some request"
      by (cases us) auto
    obtain a st' where run: "mem_serve [] order_request (PostOrder u request) (w, p, rs) = (a, st')" by (metis prod.exhaust)
    have res: "r = Inr (client_of_reply a)" "s' = (st', us')"
      using assms(2) us path req run by (simp_all add: api_post_def s)
    have free: "mem_order_map w u = None" and fresh: "fresh_draws (mem_order_map (fst (w, p, rs))) [PostOrder u request]"
      using assms(1) by (auto simp: api_fine_def s us fresh_draws_def domIff)
    from mem_service.serve_good [OF fine fresh run]
    have good: "mem_service_ok st'" "mem_order_map w \<subseteq>\<^sub>m mem_order_map (fst st')"
        "dom (mem_order_map (fst st')) \<subseteq> dom (mem_order_map w) \<union> {u}" "mem_receipt_map rs \<subseteq>\<^sub>m mem_receipt_map (snd (snd st'))"
      by auto
    obtain w' p' rs' where st': "st' = (w', p', rs')" by (metis prod.exhaust)
    have "api_fine s'" using assms(1) good(1,3) by (auto simp: api_fine_def s us res st')
    moreover have "api_answer s \<subseteq>\<^sub>m api_answer s'"
      unfolding s res st' by (rule api_answer_mono) (use good(2,4) in \<open>simp_all add: st'\<close>)
    moreover have "api_created s' = api_created s \<and> (\<forall>resp. r = Inr resp \<longrightarrow> cl_status resp \<noteq> 201)
       \<or> (\<exists>resp body i got. r = Inr resp \<and> cl_status resp = 201 \<and> cl_json resp = Some body
            \<and> json_index body ''id'' = Inr (JStr i) \<and> api_created s' = insert i (api_created s)
            \<and> api_answer s' (order_path i) = Some got \<and> cl_json got = Some body)"
    proof (cases "place_order_request_valid request")
      case False
      then have "a = failed [] order_request (Lib PydanticValidationError)" "st' = (w, p, rs)"
        using run unfolding mem_post by simp_all
      then show ?thesis by (simp add: res api_created_def s failed_status)
    next
      case True
      define ord where "ord = order_for u (request_command request)
        \<lparr>auth_id = ''auth_'' @ uuid_hex (case p of [] \<Rightarrow> 0 | u # us \<Rightarrow> u)\<rparr>"
      obtain resp where resp: "to_response ord = Inr resp" "out_id resp = u"
        using order_for_response [OF True] unfolding ord_def by blast
      have a: "a = OrderReply 201 resp [(''Location'', ''/api/v1/orders/'' @ uuid_str u)]"
          and w': "mem_order_map w' = (mem_order_map w)(u \<mapsto> ord)"
        using run True resp unfolding mem_post st' ord_def [symmetric] by (auto simp: Let_def)
      have "json_index (order_json resp) ''id'' = Inr (JStr (uuid_str u))"
        by (simp add: order_json_def json_field_def resp(2))
      moreover have "api_created s' = insert (uuid_str u) (api_created s)" by (simp add: api_created_def s res st' w')
      moreover have "api_answer s' (order_path (uuid_str u)) = Some (json_answer 200 (order_json resp))"
        by (simp add: api_answer_def res st' w' resp(1))
      ultimately show ?thesis
        by (intro disjI2 exI [of _ "json_answer 201 (order_json resp)"] exI [of _ "order_json resp"] exI [of _ "uuid_str u"]
            exI [of _ "json_answer 200 (order_json resp)"]) (simp add: res a)
    qed
    ultimately show ?thesis by blast
  qed
qed

interpretation api_seeding: seeding api_get api_post api_answer api_created api_fine
proof
  fix s p r s' assume "api_fine s" and "api_get p s = (r, s')"
  then show "api_fine s' \<and> api_answer s \<subseteq>\<^sub>m api_answer s' \<and> api_created s' = api_created s"
    using api_get_run by blast
next
  fix s p resp s' assume "api_fine s" and "api_get p s = (Inr resp, s')" and "cl_status resp = 200"
  then show "api_answer s' p = Some resp" using api_get_run [of s p "Inr resp" s'] by auto
next
  fix s p resp assume "api_fine s" and "api_answer s p = Some resp"
  moreover obtain r s' where "api_get p s = (r, s')" by (metis prod.exhaust)
  ultimately show "cl_status resp = 200 \<and> fst (api_get p s) = Inr resp" using api_get_run [of s p r s'] by auto
next
  fix s p v r s' assume "api_fine s" and "api_post p v s = (r, s')"
  then show "api_fine s' \<and> api_answer s \<subseteq>\<^sub>m api_answer s'" using api_post_run by blast
next
  fix s v resp s' assume "api_fine s" and "api_post ORDERS_PATH v s = (Inr resp, s')" and "cl_status resp = 201"
  then show "\<exists>body i. cl_json resp = Some body \<and> json_index body ''id'' = Inr (JStr i) \<and> api_created s' = insert i (api_created s)
      \<and> (\<exists>got. api_answer s' (order_path i) = Some got \<and> cl_json got = Some body)"
    using api_post_run [of s ORDERS_PATH v "Inr resp" s'] by auto
next
  fix s v r s' assume "api_fine s" and "api_post ORDERS_PATH v s = (r, s')" and "\<And>resp. r = Inr resp \<Longrightarrow> cl_status resp \<noteq> 201"
  then show "api_created s' = api_created s" using api_post_run [of s ORDERS_PATH v r s'] by auto
qed

section \<open>The seed orders are orders the service takes\<close>

lemma order_line_in_valid_2:
  assumes "c < 10 ^ 14" and "0 < q" and "q \<le> 2147483647" and "sku_ok s" and "currency_ok u"
  shows "order_line_in_valid \<lparr>in_sku = s, in_quantity = q, in_unit_amount = Dec False c (-2), in_currency = u\<rparr>"
  using assms line_in_command_valid [of "\<lparr>in_sku = s, in_quantity = q, in_unit_amount = Dec False c (-2), in_currency = u\<rparr>"]
  by (simp add: place_order_line_valid_def line_in_command_def quantity_ok_def dec_val_2 amount_ok_2)

text \<open>The total the seed order asks for, for requests whose amounts are written with two places.\<close>

definition request_cents :: "place_order_request \<Rightarrow> nat" where
  "request_cents r = (\<Sum>l\<leftarrow>req_lines r. dcoef (in_unit_amount l) * nat (in_quantity l))"

lemma line_of_seed_line:
  "line_of_json (seed_line s q a c) =
     map_option (\<lambda>d. \<lparr>in_sku = s, in_quantity = q, in_unit_amount = d, in_currency = c\<rparr>) (dec_parse a)"
  by (simp add: seed_line_def json_field_def)

lemma request_of_seed_payload:
  "request_of_json (seed_payload u ls) =
     (case (uuid_parse u, those (map line_of_json ls)) of
        (Some i, Some items) \<Rightarrow> Some \<lparr>req_customer_id = i, req_lines = items\<rparr> | _ \<Rightarrow> None)"
  by (simp add: seed_payload_def json_field_def)

lemma dec_parse_seed:
  "dec_parse ''18.50'' = Some (Dec False 1850 (-2))" "dec_parse ''4.25'' = Some (Dec False 425 (-2))"
  "dec_parse ''249.00'' = Some (Dec False 24900 (-2))" "dec_parse ''9.90'' = Some (Dec False 990 (-2))"
  "dec_parse ''12.40'' = Some (Dec False 1240 (-2))"
  by (simp_all add: dec_parse_def Let_def is_digit_def nat_val_def digit_val_def)

text \<open>A UUID in its canonical form parses.\<close>

definition is_hex :: "char \<Rightarrow> bool" where
  "is_hex c \<longleftrightarrow> c \<in> set ''0123456789abcdef''"

lemma hex_digit: "is_hex c \<Longrightarrow> hex_digit_val c < 16 \<and> hex_char (hex_digit_val c) = c \<and> c \<noteq> CHR ''-''"
  by (auto simp: is_hex_def hex_digit_val_def hex_char_def char_of_def bit_0)

lemma hex_val_snoc: "hex_val (s @ [c]) = 16 * hex_val s + hex_digit_val c"
  by (simp add: hex_val_def)

lemma hex_fixed_hex_val: "list_all is_hex s \<Longrightarrow> hex_fixed (length s) (hex_val s) = s \<and> hex_val s < 16 ^ length s"
proof (induction s rule: rev_induct)
  case Nil
  then show ?case by (simp add: hex_val_def)
next
  case (snoc c s)
  then show ?case using hex_digit [of c] by (auto simp: hex_val_snoc)
qed

lemma uuid_parse_groups:
  assumes "list_all is_hex (a @ b @ c @ d @ e)"
    and "length a = 8" "length b = 4" "length c = 4" "length d = 4" "length e = 12"
  shows "uuid_parse (a @ ''-'' @ b @ ''-'' @ c @ ''-'' @ d @ ''-'' @ e) = Some (word_of_nat (hex_val (a @ b @ c @ d @ e)))"
proof -
  let ?h = "a @ b @ c @ d @ e" and ?s = "a @ ''-'' @ b @ ''-'' @ c @ ''-'' @ d @ ''-'' @ e"
  have "x \<noteq> CHR ''-''" if "x \<in> set ?h" for x using assms(1) that hex_digit by (auto simp: list_all_iff)
  then have filter: "filter (\<lambda>x. x \<noteq> CHR ''-'') ?s = ?h" by (auto simp: filter_id_conv)
  have h: "hex_fixed 32 (hex_val ?h) = ?h" "hex_val ?h < 16 ^ 32"
    using hex_fixed_hex_val [OF assms(1)] assms(2-) by simp_all
  then have "unat (word_of_nat (hex_val ?h) :: uuid) = hex_val ?h" by (simp add: unsigned_of_nat take_bit_nat_eq_self)
  then have "uuid_hex (word_of_nat (hex_val ?h)) = ?h" using h(1) by (simp add: uuid_hex_def)
  then have "uuid_str (word_of_nat (hex_val ?h)) = ?s" using assms(2-) by (simp add: uuid_str_def Let_def)
  then show ?thesis unfolding uuid_parse_def filter Let_def by simp
qed

lemma seed_customers:
  "\<exists>u. uuid_parse ''0f1d2c3b-4a59-4e6f-8a7b-9c0d1e2f3a4b'' = Some u"
  "\<exists>u. uuid_parse ''7e6d5c4b-3a29-4180-9f8e-7d6c5b4a3928'' = Some u"
  "\<exists>u. uuid_parse ''c1b2a394-8576-4e6f-a0b1-c2d3e4f5a6b7'' = Some u"
  using uuid_parse_groups [of "''0f1d2c3b''" "''4a59''" "''4e6f''" "''8a7b''" "''9c0d1e2f3a4b''"]
    uuid_parse_groups [of "''7e6d5c4b''" "''3a29''" "''4180''" "''9f8e''" "''7d6c5b4a3928''"]
    uuid_parse_groups [of "''c1b2a394''" "''8576''" "''4e6f''" "''a0b1''" "''c2d3e4f5a6b7''"]
  by (simp_all add: is_hex_def)

text \<open>A request of one or two lines in one currency.\<close>

lemma request_valid_lines:
  assumes "list_all order_line_in_valid ls" and "ls \<noteq> []" and "\<forall>l \<in> set ls. in_currency l = c"
    and "lines_value (command_lines (request_command \<lparr>req_customer_id = u, req_lines = ls\<rparr>)) < 10 ^ 12"
  shows "place_order_request_valid \<lparr>req_customer_id = u, req_lines = ls\<rparr>"
proof -
  let ?r = "\<lparr>req_customer_id = u, req_lines = ls\<rparr>"
  have "list_all place_order_line_valid (cmd_lines (request_command ?r))"
    using assms(1) by (simp add: request_command_def list_all_iff)
  moreover have "one_currency (pl_currency (hd (cmd_lines (request_command ?r)))) (command_lines (request_command ?r))"
    using assms(2,3)
    by (cases ls) (auto simp: request_command_def command_lines_def one_currency_def line_of_def line_in_command_def list_all_iff)
  ultimately have "place_order_command_valid (request_command ?r)"
    using assms(2,4) by (simp add: command_valid_iff request_command_def)
  then show ?thesis by simp
qed

lemma seed_payload_accepted:
  assumes "\<exists>u. uuid_parse customer = Some u" and "those (map line_of_json ls) = Some items"
    and "list_all order_line_in_valid items" and "items \<noteq> []" and "\<forall>l \<in> set items. in_currency l = c"
    and "lines_value (map (line_of \<circ> line_in_command) items) < 10 ^ 12"
  shows "\<exists>request. request_of_json (seed_payload customer ls) = Some request \<and> place_order_request_valid request"
proof -
  obtain u where u: "uuid_parse customer = Some u" using assms(1) by blast
  have "command_lines (request_command \<lparr>req_customer_id = u, req_lines = items\<rparr>) = map (line_of \<circ> line_in_command) items"
    by (simp add: command_lines_def request_command_def)
  then have "place_order_request_valid \<lparr>req_customer_id = u, req_lines = items\<rparr>"
    using assms(3-6) request_valid_lines by metis
  then show ?thesis using u assms(2) by (simp add: request_of_seed_payload)
qed

lemma seed_orders_accepted:
  "(key, payload) \<in> set SEED_ORDERS \<Longrightarrow>
     \<exists>request. request_of_json payload = Some request \<and> place_order_request_valid request"
  unfolding SEED_ORDERS_def
  by (auto simp: line_of_seed_line dec_parse_seed seed_customers line_of_def line_in_command_def lines_value_simps
      line_value_def dec_val_2 sku_ok_def currency_ok_def char_between_def
      intro!: seed_payload_accepted order_line_in_valid_2)

section \<open>Seeding succeeds\<close>

lemma length_uuid_str [simp]: "length (uuid_str u) = 36"
  by (simp add: uuid_str_def uuid_hex_def Let_def)

lemma route_receipt [simp]: "route (receipt_path (uuid_str i)) = Some (GetOrderReceipt i)"
proof -
  have "uuid_parse (uuid_str i @ RECEIPT_SUFFIX) = None"
  proof (rule ccontr)
    assume "uuid_parse (uuid_str i @ RECEIPT_SUFFIX) \<noteq> None"
    then obtain u where "uuid_str i @ RECEIPT_SUFFIX = uuid_str u" by (auto simp: uuid_parse_Some)
    then have "length (uuid_str i @ RECEIPT_SUFFIX) = length (uuid_str u)" by simp
    then show False by (simp add: RECEIPT_SUFFIX_def)
  qed
  then show ?thesis
    by (simp add: route_def receipt_path_def Let_def starts_with_iff ends_with_iff RECEIPT_SUFFIX_def)
qed

lemma body_total_order: "\<exists>t. body_total (order_json resp) = Inr t"
  by (simp add: body_total_def order_json_def money_text_def money_json_def json_field_def)

lemma seed_create_succeeds:
  assumes "api_fine (st, u # us)" and "request_of_json payload = Some request" and "place_order_request_valid request"
  shows "\<exists>so st'. seed_create api_get api_post key payload known ((st, u # us), f) =
      (Inr (so, dict_set known key (uuid_str u)), ((st', us), save_state (dict_set known key (uuid_str u))))
    \<and> so_created so \<and> api_fine (st', us)"
proof -
  obtain w p rs where st: "st = (w, p, rs)" by (metis prod.exhaust)
  define ord where "ord = order_for u (request_command request)
    \<lparr>auth_id = ''auth_'' @ uuid_hex (case p of [] \<Rightarrow> 0 | u # us \<Rightarrow> u)\<rparr>"
  obtain resp where resp: "to_response ord = Inr resp" "out_id resp = u"
    using order_for_response [OF assms(3)] unfolding ord_def by blast
  let ?w = "w\<lparr>mem_order_map := (mem_order_map w)(u \<mapsto> ord)\<rparr>"
  let ?f = "save_state (dict_set known key (uuid_str u))"
  have post: "api_post ORDERS_PATH payload (st, u # us) = (Inr (json_answer 201 (order_json resp)), ((?w, tl p, rs), us))"
    using assms(2,3) resp(1) unfolding api_post_def st by (simp add: mem_post Let_def ord_def resp(1) [unfolded ord_def] del: serve.simps)
  have fine: "api_fine ((?w, tl p, rs), us)" using api_post_run [OF assms(1) post] by blast
  then have ok: "mem_orders_ok ?w" by (auto simp: api_fine_def service_ok_def)
  obtain r st' where get: "api_get (receipt_path (uuid_str u)) ((?w, tl p, rs), us) = (Inr r, (st', us))" and r: "cl_status r = 200"
    unfolding api_get_def
    by (cases "mem_receipt_map rs u") (simp_all add: mem_get_receipt [OF ok] del: serve.simps)
  have "api_fine (st', us)" using api_get_run [OF fine get] by blast
  moreover obtain t where "body_total (order_json resp) = Inr t" using body_total_order by blast
  moreover have "json_index (order_json resp) ''id'' = Inr (JStr (uuid_str u))"
    by (simp add: order_json_def json_field_def resp(2))
  ultimately show ?thesis
    using post get r by (simp add: seed_create_def cl_body_def Let_def ensure_receipt_def and_then_def)
qed

lemma seed_entries_succeed:
  assumes "api_fine (st, us)" and "length es \<le> length us" and "distinct (map fst es)"
    and "\<forall>(key, payload) \<in> set es. map_of known key = None
      \<and> (\<exists>request. request_of_json payload = Some request \<and> place_order_request_valid request)"
  shows "\<exists>sos s' f'. seed_entries api_get api_post es known ((st, us), f) = (Inr sos, (s', f')) \<and> list_all so_created sos"
  using assms
proof (induction es arbitrary: st us known f)
  case Nil
  then show ?case by (cases st) simp
next
  case (Cons e es)
  obtain key payload where e: "e = (key, payload)" by (metis prod.exhaust)
  obtain u us' where us: "us = u # us'" using Cons.prems(2) by (cases us) auto
  obtain request where "request_of_json payload = Some request" "place_order_request_valid request"
    using Cons.prems(4) e by auto
  from seed_create_succeeds [OF Cons.prems(1) [unfolded us] this]
  obtain so st' where one: "seed_create api_get api_post key payload known ((st, us), f) =
      (Inr (so, dict_set known key (uuid_str u)), ((st', us'), save_state (dict_set known key (uuid_str u))))"
      "so_created so" "api_fine (st', us')"
    unfolding us by blast
  have "\<forall>(k, payload) \<in> set es. map_of (dict_set known key (uuid_str u)) k = None
      \<and> (\<exists>request. request_of_json payload = Some request \<and> place_order_request_valid request)"
  proof (clarify, intro conjI)
    fix k v assume kv: "(k, v) \<in> set es"
    then have "k \<noteq> key" using Cons.prems(3) e by (force simp: image_iff)
    then show "map_of (dict_set known key (uuid_str u)) k = None" using Cons.prems(4) kv by auto
    show "\<exists>request. request_of_json v = Some request \<and> place_order_request_valid request" using Cons.prems(4) kv by auto
  qed
  note free = this
  have "length es \<le> length us'" and "distinct (map fst es)" using Cons.prems(2,3) us by auto
  from Cons.IH [OF one(3) this free, of "save_state (dict_set known key (uuid_str u))"]
  obtain sos s' f' where "seed_entries api_get api_post es (dict_set known key (uuid_str u))
      ((st', us'), save_state (dict_set known key (uuid_str u))) = (Inr sos, (s', f'))" "list_all so_created sos"
    by blast
  moreover have "map_of known key = None" using Cons.prems(4) e by auto
  ultimately show ?case using one(1,2) e by (simp add: seed_entry_def and_then_def)
qed

lemma seed_run:
  assumes "api_fine (st, us)" and "5 \<le> length us"
  shows "\<exists>sos s' f'. seed api_get api_post ((st, us), Missing) = (Inr sos, (s', f')) \<and> list_all so_created sos"
proof -
  have "\<forall>(key, payload) \<in> set SEED_ORDERS. map_of [] key = (None :: string option)
      \<and> (\<exists>request. request_of_json payload = Some request \<and> place_order_request_valid request)"
    using seed_orders_accepted by auto
  moreover have "length SEED_ORDERS \<le> length us" using assms(2) by (simp add: SEED_ORDERS_def)
  ultimately show ?thesis
    using seed_entries_succeed [OF assms(1) _ seed_keys_distinct, of "[]" Missing] by (simp add: seed_def load_state_def)
qed

definition mem_server :: mem_server where
  "mem_server = (mem_start, [1, 2, 3, 4, 5])"

lemma mem_server_fine: "api_fine mem_server"
  using mem_start_ok by (simp add: api_fine_def mem_server_def mem_start_def mem_orders_init_def)

lemma mem_server_run: "\<exists>sos s' f'. seed api_get api_post (mem_server, Missing) = (Inr sos, (s', f')) \<and> list_all so_created sos"
  using seed_run [of mem_start "[1, 2, 3, 4, 5]"] mem_server_fine by (simp add: mem_server_def)

section \<open>Properties\<close>





text \<open>
  On a service over the in-memory adapters that holds no order and has identifiers left, the first
  run with no state file succeeds and creates every seed order; so all of them pass the validation of
  the API.
\<close>

theorem seed_creates_all:
  assumes "api_fine (st, us)" and "5 \<le> length us"
  shows "\<exists>sos s' f'. seed api_get api_post ((st, us), Missing) = (Inr sos, (s', f')) \<and> list_all so_created sos
    \<and> map so_key sos = map fst SEED_ORDERS"
  using seed_run [OF assms] api_seeding.seed_again [OF assms(1)] by blast

theorem seed_creates_all_witness:
  "\<exists>sos s' f'. seed api_get api_post (mem_server, Missing) = (Inr sos, (s', f')) \<and> list_all so_created sos
    \<and> map so_key sos = [''espresso-beans'', ''filter-papers'', ''grinder'', ''mixed-basket'', ''bulk-order'']"
  using seed_creates_all [of mem_start "[1, 2, 3, 4, 5]"] mem_server_fine by (simp add: mem_server_def SEED_ORDERS_def)

end
