(* ===== verification/OpenApi.thy ===== *)
theory OpenApi
  imports SeedOnService
begin

text \<open>
  The published contract: what the OpenAPI document promises of the responses (\<open>api/errors.py\<close>, the
  \<open>responses\<close> of \<open>api/v1/router.py\<close>), of an amount in a request and of a receipt (\<open>api/v1/schemas.py\<close>).
  The parts of the document that Pydantic and FastAPI generate are arguments.

  The lemmas show that the service keeps what it publishes: every status it answers with is documented
  for its route (\<open>replies_are_documented\<close>), every amount the published pattern admits is accepted
  (\<open>published_amounts_are_accepted\<close>), and every receipt has the published shape
  (\<open>receipts_have_published_shape\<close>).
\<close>

section \<open>Documented responses\<close>

definition problem_content :: "json \<Rightarrow> json" where
  "problem_content schema = JObj [(PROBLEM_MEDIA_TYPE, JObj [(''schema'', schema)])]"

definition problem_response :: "json \<Rightarrow> string \<Rightarrow> json" where
  "problem_response schema description =
     JObj [(''description'', JStr description), (''content'', problem_content schema)]"

definition DEFAULT_PROBLEM_RESPONSES :: "json \<Rightarrow> (nat \<times> json) list" where
  "DEFAULT_PROBLEM_RESPONSES schema =
     [(400, problem_response schema ''Malformed request''),
      (404, problem_response schema ''No such resource''),
      (405, problem_response schema ''Method not allowed''),
      (422, problem_response schema ''Request validation failed''),
      (500, problem_response schema ''Internal server error'')]"

text \<open>The \<open>status_code\<close> and the \<open>responses\<close> of the three routes; \<open>model\<close> is \<open>ReceiptResponse\<close>'s schema.\<close>

definition place_order_responses :: "json \<Rightarrow> (nat \<times> json) list" where
  "place_order_responses schema =
     [(402, problem_response schema ''Payment declined''),
      (503, problem_response schema ''Payment provider unavailable'')]"

definition get_order_responses :: "json \<Rightarrow> (nat \<times> json) list" where
  "get_order_responses schema = [(404, problem_response schema ''Order not found'')]"

definition get_receipt_responses :: "json \<Rightarrow> json \<Rightarrow> (nat \<times> json) list" where
  "get_receipt_responses model schema =
     [(200, JObj [(''model'', model), (''description'', JStr ''The receipt for this order''),
                  (''content'', JObj [(RECEIPT_MEDIA_TYPE, JObj [])])]),
      (404, problem_response schema ''Order not found''),
      (503, problem_response schema ''Receipt storage unavailable'')]"

text \<open>What the document lists for the route of a request; a route's own entry comes before the default.\<close>

fun route_responses :: "json \<Rightarrow> json \<Rightarrow> api_request \<Rightarrow> nat \<times> (nat \<times> json) list" where
  "route_responses model schema (PostOrder i request) = (201, place_order_responses schema)"
| "route_responses model schema (GetOrder i) = (200, get_order_responses schema)"
| "route_responses model schema (GetOrderReceipt i) = (200, get_receipt_responses model schema)"

definition documented_statuses :: "json \<Rightarrow> json \<Rightarrow> api_request \<Rightarrow> nat list" where
  "documented_statuses model schema r =
     fst (route_responses model schema r)
     # map fst (snd (route_responses model schema r) @ DEFAULT_PROBLEM_RESPONSES schema)"

section \<open>The published amount\<close>

text \<open>\<open>^(0|[1-9][0-9]{0,11})(\.[0-9]{1,2})?$\<close>\<close>

definition unit_amount_pattern :: "string \<Rightarrow> bool" where
  "unit_amount_pattern s \<longleftrightarrow>
     (let whole = takeWhile is_digit s; rest = dropWhile is_digit s
      in (whole = ''0'' \<or> whole \<noteq> [] \<and> hd whole \<noteq> CHR ''0'' \<and> length whole \<le> 12)
         \<and> (rest = [] \<or> hd rest = CHR ''.'' \<and> length (tl rest) \<in> {1, 2} \<and> list_all is_digit (tl rest)))"

text \<open>
  The number branch: \<open>minimum\<close>, \<open>maximum\<close> and \<open>multipleOf\<close>. A JSON number is the decimal its text denotes,
  which is what Pydantic makes of it; \<open>float(MAX_MONEY)\<close> has that text.
\<close>

definition unit_amount_number :: "decimal \<Rightarrow> bool" where
  "unit_amount_number d \<longleftrightarrow>
     0 \<le> dec_val d \<and> dec_val d \<le> dec_val MAX_MONEY \<and> is_integer (dec_val d / (1 / 100))"

datatype json_amount = NumberAmount decimal | TextAmount string

text \<open>The \<open>anyOf\<close> of both, and the decimal that is read from a value.\<close>

fun unit_amount_schema :: "json_amount \<Rightarrow> bool" where
  "unit_amount_schema (NumberAmount d) = unit_amount_number d"
| "unit_amount_schema (TextAmount s) = unit_amount_pattern s"

fun amount_of :: "json_amount \<Rightarrow> decimal option" where
  "amount_of (NumberAmount d) = Some d"
| "amount_of (TextAmount s) = dec_parse s"

section \<open>The published receipt\<close>

text \<open>The types of the fields of \<open>ReceiptLine\<close> and \<open>ReceiptResponse\<close>; every field is required.\<close>

datatype field_type = TInt | TStr | TUuid | TOptStr | TListOf "(string \<times> field_type) list"

definition RECEIPT_LINE :: "(string \<times> field_type) list" where
  "RECEIPT_LINE = [(''sku'', TStr), (''quantity'', TInt), (''unit_price'', TStr), (''subtotal'', TStr)]"

definition RECEIPT_RESPONSE :: "(string \<times> field_type) list" where
  "RECEIPT_RESPONSE =
     [(''schema_version'', TInt), (''order_id'', TUuid), (''customer_id'', TUuid), (''authorisation_id'', TOptStr),
      (''currency'', TStr), (''total'', TStr), (''lines'', TListOf RECEIPT_LINE)]"

text \<open>A value is of a type; an object has exactly the fields, each of its type.\<close>

fun of_type :: "field_type \<Rightarrow> json \<Rightarrow> bool" where
  "of_type TInt (JInt i) = True"
| "of_type TStr (JStr s) = True"
| "of_type TUuid (JStr s) = (uuid_parse s \<noteq> None)"
| "of_type TOptStr JNull = True"
| "of_type TOptStr (JStr s) = True"
| "of_type (TListOf fs) (JArr vs) =
     list_all (\<lambda>v. case v of
       JObj kvs \<Rightarrow> distinct (map fst kvs) \<and> set (map fst kvs) = set (map fst fs)
         \<and> list_all (\<lambda>(k, t). case map_of kvs k of None \<Rightarrow> False | Some v' \<Rightarrow> of_type t v') fs
     | _ \<Rightarrow> False) vs"
| "of_type t v = False"

definition has_shape :: "(string \<times> field_type) list \<Rightarrow> json \<Rightarrow> bool" where
  "has_shape fs v = of_type (TListOf fs) (JArr [v])"

lemma has_shape_object:
  "has_shape fs (JObj kvs) \<longleftrightarrow> distinct (map fst kvs) \<and> set (map fst kvs) = set (map fst fs)
     \<and> list_all (\<lambda>(k, t). case map_of kvs k of None \<Rightarrow> False | Some v \<Rightarrow> of_type t v) fs"
  by (simp add: has_shape_def)

section \<open>Amounts\<close>

lemma nat_val_bound: "list_all is_digit s \<Longrightarrow> nat_val s < 10 ^ length s"
proof (induction s rule: rev_induct)
  case (snoc c s)
  then have "digit_val c < 10" and "nat_val s < 10 ^ length s" by (auto simp: is_digit_def digit_val_def)
  then show ?case by simp
qed simp

lemma digits_parse:
  assumes "whole \<noteq> []" and "list_all is_digit whole" and "rest = [] \<or> rest = CHR ''.'' # places" and "list_all is_digit places"
  shows "dec_parse (whole @ rest) = Some (Dec False (nat_val (whole @ tl rest)) (- int (length (tl rest))))"
proof -
  have "CHR ''.'' \<notin> set whole" using assms(2) by (auto simp: list_all_iff is_digit_def)
  then have dots: "takeWhile (\<lambda>c. c \<noteq> CHR ''.'') whole = whole" "dropWhile (\<lambda>c. c \<noteq> CHR ''.'') whole = []"
    by (simp_all add: takeWhile_eq_all_conv dropWhile_eq_Nil_conv) (metis (full_types))+
  show ?thesis
  proof (cases "rest = []")
    case True
    have "dec_parse whole = Some (Dec False (nat_val whole) 0)"
      unfolding dec_parse_def Let_def dots using assms(1,2) by simp
    then show ?thesis using True by simp
  next
    case False
    then have rest: "rest = CHR ''.'' # places" using assms(3) by blast
    have all: "\<And>c. c \<in> set whole \<Longrightarrow> c \<noteq> CHR ''.''" using \<open>CHR ''.'' \<notin> set whole\<close> by metis
    have "takeWhile (\<lambda>c. c \<noteq> CHR ''.'') (whole @ rest) = whole" "dropWhile (\<lambda>c. c \<noteq> CHR ''.'') (whole @ rest) = rest"
      using takeWhile_append2 [of whole "\<lambda>c. c \<noteq> CHR ''.''" rest] dropWhile_append2 [of whole "\<lambda>c. c \<noteq> CHR ''.''" rest] all
      by (simp_all add: rest)
    note split = this
    show ?thesis
      unfolding dec_parse_def Let_def split using assms(1,2,4) by (simp add: rest)
  qed
qed

lemma cents_ok:
  assumes "n < 10 ^ (12 + k)" and "k \<le> 2"
  shows "unit_amount_ok (Dec False n (- int k))"
proof -
  have "dec_val (Dec False n (- int k)) = of_nat (n * 10 ^ (2 - k)) / 100"
    using assms(2) by (auto simp: dec_val_def power_int_minus le_Suc_eq numeral_2_eq_2 divide_simps)
  moreover have "n * 10 ^ (2 - k) < 10 ^ (12 + k) * 10 ^ (2 - k)" using assms(1) by simp
  then have "n * 10 ^ (2 - k) < 10 ^ 14" using assms(2) by (simp flip: power_add)
  ultimately show ?thesis by (auto simp: amount_ok_cents)
qed

section \<open>Statuses\<close>

text \<open>An exception answered with 500: internal, and not one of the two that mean "try again".\<close>

definition plain_failure :: "exn \<Rightarrow> bool" where
  "plain_failure e \<longleftrightarrow> internal_exn e
     \<and> (\<forall>m. e \<noteq> Infra (PaymentUnavailableError m)) \<and> (\<forall>m. e \<noteq> Infra (StorageUnavailableError m))"

lemma plain_failure_status: "plain_failure e \<Longrightarrow> reply_code (failed pe rq e) = 500"
  by (cases "(pe, rq, e)" rule: handle_exception.cases)
    (auto simp: plain_failure_def failed_def on_unexpected_error_def problem_reply_def)

lemma not_found_status: "reply_code (failed pe rq (Domain (OrderNotFoundError i))) = 404"
  by (simp add: failed_def on_domain_error_def problem_reply_def status_for_def STATUS_BY_ERROR_def)

lemma storage_status: "reply_code (failed pe rq (Infra (StorageUnavailableError m))) = 503"
  by (simp add: failed_def on_storage_unavailable_def problem_reply_def)

lemma documented_post: "set (documented_statuses model schema (PostOrder i request)) = {201, 400, 402, 404, 405, 422, 500, 503}"
  and documented_get: "set (documented_statuses model schema (GetOrder i)) = {200, 400, 404, 405, 422, 500}"
  and documented_receipt: "set (documented_statuses model schema (GetOrderReceipt i)) = {200, 400, 404, 405, 422, 500, 503}"
  by (auto simp: documented_statuses_def DEFAULT_PROBLEM_RESPONSES_def place_order_responses_def get_order_responses_def
      get_receipt_responses_def)

context order_service
begin

lemma get_code:
  assumes "consistent w" and "\<And>e w'. get i w = (Inl e, w') \<Longrightarrow> plain_failure e"
    and "answer pe rq (GetOrder i) (w, p, s) = (a, st')"
  shows "reply_code a \<in> {200, 404, 500}"
proof (cases "orders w i")
  case (Some ord)
  then show ?thesis using get_reply [OF assms(1) _ assms(3)] assms(2) plain_failure_status by fastforce
next
  case None
  obtain x w1 where g: "get i w = (x, w1)" by (metis prod.exhaust)
  show ?thesis
  proof (cases x)
    case (Inl e)
    then show ?thesis
      using assms(3) g assms(2) plain_failure_status by (auto simp: get_orders_def get_order_def and_then_def)
  next
    case (Inr found)
    then have "found = None" using get_returns [OF assms(1)] g None by fastforce
    then show ?thesis
      using assms(3) g Inr not_found_status by (auto simp: get_orders_def get_order_def and_then_def raise_def)
  qed
qed

lemma get_receipt_errors:
  assumes "consistent w" and "get_receipt get rget rput i (w, s) = (Inl e, ws)"
  shows "(\<exists>w'. get i w = (Inl e, w')) \<or> e = Domain (OrderNotFoundError i) \<and> orders w i = None
    \<or> (\<exists>m. e = Infra (StorageUnavailableError m))"
proof -
  obtain x w1 where g: "get i w = (x, w1)" by (metis prod.exhaust)
  show ?thesis
  proof (cases x)
    case (Inl e')
    then show ?thesis using assms(2) g by (simp add: get_receipt_def and_then_def)
  next
    case (Inr found)
    have returned: "found = orders w i" using get_returns [OF assms(1)] g Inr by simp
    show ?thesis
    proof (cases found)
      case None
      then show ?thesis using assms(2) g Inr returned by (simp add: get_receipt_def and_then_def raise_def)
    next
      case (Some ord)
      then have "order_valid ord" using get_returns [OF assms(1)] g Inr keyed [OF assms(1)] by metis
      then obtain c where c: "render_receipt ord = Inr c" using render_receipt_returns by blast
      obtain y s1 where y: "rget i s = (y, s1)" by (metis prod.exhaust)
      obtain z s2 where z: "rput i c s1 = (z, s2)" by (metis prod.exhaust)
      show ?thesis
      proof (cases y)
        case (Inl e')
        then show ?thesis using assms(2) g Inr Some y store.get_fails by (auto simp: get_receipt_def and_then_def)
      next
        case (Inr stored)
        then show ?thesis
          using assms(2) g \<open>x = Inr found\<close> Some y z c store.put_fails
          by (cases stored; cases z) (auto simp: get_receipt_def and_then_def lift_sum_def)
      qed
    qed
  qed
qed

lemma receipt_code:
  assumes "consistent w" and "\<And>e w'. get i w = (Inl e, w') \<Longrightarrow> plain_failure e"
    and "answer pe rq (GetOrderReceipt i) (w, p, s) = (a, st')"
  shows "reply_code a \<in> {200, 404, 500, 503}"
proof -
  obtain x ws where run: "get_orders_receipt get rget rput i (w, s) = (x, ws)" by (metis prod.exhaust)
  obtain w1 s1 where ws: "ws = (w1, s1)" by (metis prod.exhaust)
  obtain y where y: "get_receipt get rget rput i (w, s) = (y, ws)" "x = map_sum id (\<lambda>c. (c, RECEIPT_MEDIA_TYPE)) y"
    using get_orders_receipt_run [OF run] by blast
  show ?thesis
  proof (cases y)
    case (Inl e)
    then have a: "a = failed pe rq e" using assms(3) run y(2) ws by simp
    show ?thesis
      using get_receipt_errors [OF assms(1) y(1) [unfolded Inl]] assms(2) plain_failure_status not_found_status
        storage_status by (auto simp: a)
  next
    case (Inr c)
    then show ?thesis using assms(3) run y(2) ws by auto
  qed
qed

end

lemma posted_code:
  assumes "order_service get save orders consistent authorise ready rget rput receipts"
    and "service_ok consistent ready orders receipts (w, p, s)" and "orders w i = None"
    and "\<And>ord e w w'. save ord w = (Inl e, w') \<Longrightarrow> plain_failure e"
    and "serve get save authorise rget rput pe rq (PostOrder i request) (w, p, s) = (a, st')"
  shows "reply_code a \<in> {201, 402, 422, 500, 503}"
proof -
  obtain w' p' s' where st': "st' = (w', p', s')" by (metis prod.exhaust)
  from order_service.post_outcomes [OF assms(1-3) assms(5) [unfolded st']] show ?thesis
    using assms(4) plain_failure_status by fastforce
qed

section \<open>Properties\<close>

text \<open>
  C12: The service answers only what it publishes. Over any adapters that keep their contracts, with a
  repository that fails only with errors of its own (not the two that ask the client to retry), each
  request is answered with a status its route documents.
\<close>

theorem replies_are_documented:
  assumes "order_service get save orders consistent authorise ready rget rput receipts"
    and "service_ok consistent ready orders receipts st" and "fresh_draws (orders (fst st)) [r]"
    and "\<And>i e w w'. get i w = (Inl e, w') \<Longrightarrow> plain_failure e"
    and "\<And>ord e w w'. save ord w = (Inl e, w') \<Longrightarrow> plain_failure e"
    and "serve get save authorise rget rput pe rq r st = (a, st')"
  shows "reply_code a \<in> set (documented_statuses model schema r)"
proof -
  obtain w p s where st: "st = (w, p, s)" by (metis prod.exhaust)
  have c: "consistent w" using assms(2) by (simp add: service_ok_def st)
  show ?thesis
  proof (cases r)
    case (PostOrder i request)
    then have "orders w i = None" using assms(3) by (simp add: fresh_draws_def st)
    from posted_code [OF assms(1) assms(2) [unfolded st] this assms(5) assms(6) [unfolded st PostOrder]]
    show ?thesis using PostOrder documented_post by auto
  next
    case (GetOrder i)
    have "reply_code a \<in> {200, 404, 500}"
      by (rule order_service.get_code [OF assms(1) c _ assms(6) [unfolded st GetOrder]]) (erule assms(4))
    then show ?thesis using GetOrder documented_get by auto
  next
    case (GetOrderReceipt i)
    have "reply_code a \<in> {200, 404, 500, 503}"
      by (rule order_service.receipt_code [OF assms(1) c _ assms(6) [unfolded st GetOrderReceipt]]) (erule assms(4))
    then show ?thesis using GetOrderReceipt documented_receipt by auto
  qed
qed

theorem replies_are_documented_witness:
  "\<exists>a st'. mem_serve [] order_request (GetOrderReceipt 7) mem_start = (a, st')
     \<and> reply_code a \<in> set (documented_statuses JNull JNull (GetOrderReceipt 7)) \<and> reply_code a = 404"
proof -
  obtain a st' where run: "mem_serve [] order_request (GetOrderReceipt 7) mem_start = (a, st')" by (metis prod.exhaust)
  have "reply_code a \<in> set (documented_statuses JNull JNull (GetOrderReceipt 7))"
    using replies_are_documented [OF mem_service.order_service_axioms mem_start_ok mem_start_fresh _ _ run]
    by (simp add: mem_order_get_def mem_order_save_def)
  moreover have "reply_code a = 404"
    using run not_found_status [of "[]" order_request 7]
    by (auto simp: mem_start_def mem_orders_init_def get_orders_receipt_def get_receipt_def mem_order_get_def and_then_def
        raise_def on_fst_def failed_def)
  ultimately show ?thesis using run by blast
qed

lemma pattern_accepted:
  assumes "unit_amount_pattern s"
  shows "\<exists>d. dec_parse s = Some d \<and> unit_amount_ok d"
proof -
  define whole where "whole = takeWhile is_digit s"
  define rest where "rest = dropWhile is_digit s"
  have s: "s = whole @ rest" by (simp add: whole_def rest_def)
  have digits: "list_all is_digit whole" by (auto simp: whole_def list_all_iff dest: set_takeWhileD)
  have shape: "whole \<noteq> []" "length whole \<le> 12" "rest = [] \<or> rest = CHR ''.'' # tl rest" "list_all is_digit (tl rest)"
      "length (tl rest) \<le> 2"
    using assms by (auto simp: unit_amount_pattern_def Let_def simp flip: whole_def rest_def)
      (cases rest; auto)+
  let ?n = "nat_val (whole @ tl rest)"
  have "?n < 10 ^ length (whole @ tl rest)" using digits shape(4) by (intro nat_val_bound) simp
  also have "\<dots> \<le> 10 ^ (12 + length (tl rest))" using shape(2) by (intro power_increasing) simp_all
  finally show ?thesis
    using digits_parse [OF shape(1) digits shape(3,4)] cents_ok [of ?n "length (tl rest)"] shape(5) s by simp
qed

lemma number_accepted: "unit_amount_number d \<longleftrightarrow> unit_amount_ok d"
proof -
  have max: "dec_val MAX_MONEY = 99999999999999 / 100" by (simp add: MAX_MONEY_def dec_val_def power_int_minus)
  have bound: "\<bar>dec_val d\<bar> < 10 ^ (14 - 2)" if "0 \<le> dec_val d" "dec_val d \<le> dec_val MAX_MONEY"
    using that(1) le_less_trans [OF that(2) [unfolded max], of "10 ^ 12"] by simp
  have units: "dec_val d / (1 / 100) = dec_val d * 10 ^ 2" by simp
  show ?thesis
    unfolding unit_amount_number_def unit_amount_ok_def fits_digits_def is_integer_def less_eq_decimal_def units
    using bound by blast
qed

text \<open>
  C15: The published schema of an amount admits nothing the service refuses: a text that matches its pattern
  is a decimal which the schema of a request accepts, and the numbers it admits are exactly the accepted
  ones.
\<close>

theorem published_amounts_are_accepted:
  assumes "unit_amount_schema a"
  shows "(\<exists>d. amount_of a = Some d \<and> unit_amount_ok d)
    \<and> {d. unit_amount_schema (NumberAmount d)} = {d. unit_amount_ok d}"
  using assms pattern_accepted number_accepted by (cases a) simp_all

theorem published_amounts_are_accepted_witness:
  "unit_amount_schema (TextAmount ''999999999999.9'') \<and> \<not> unit_amount_schema (TextAmount ''070'')
   \<and> \<not> unit_amount_schema (TextAmount ''1000000000000'')
   \<and> (\<exists>d. amount_of (TextAmount ''999999999999.9'') = Some d \<and> unit_amount_ok d)"
proof -
  have "unit_amount_schema (TextAmount ''999999999999.9'')" "\<not> unit_amount_schema (TextAmount ''070'')"
      "\<not> unit_amount_schema (TextAmount ''1000000000000'')"
    by code_simp+
  then show ?thesis using published_amounts_are_accepted [of "TextAmount ''999999999999.9''"] by blast
qed

text \<open>
  C14: Every receipt is of the published type: the document of a valid order has exactly the fields of
  \<open>ReceiptResponse\<close>, each of its type, and each line exactly those of \<open>ReceiptLine\<close>.
\<close>

theorem receipts_have_published_shape:
  assumes "order_valid ord"
  shows "\<exists>d. receipt_document ord = Inr d \<and> has_shape RECEIPT_RESPONSE d"
proof -
  obtain d where d: "receipt_document ord = Inr d" using receipt_document_returns [OF assms] by blast
  obtain ls where ls: "map_sum_list render_line (lines ord) = Inr ls"
    using d by (auto simp: receipt_document_def try_then_Inr_iff)
  have line: "has_shape RECEIPT_LINE v" if "v \<in> set ls" for v
  proof -
    have "list_all2 (\<lambda>l v. render_line l = Inr v) (lines ord) ls" using ls by (simp add: map_sum_list_Inr)
    moreover obtain k where "k < length ls" "ls ! k = v" using \<open>v \<in> set ls\<close> by (auto simp: in_set_conv_nth)
    ultimately have "render_line (lines ord ! k) = Inr v" using list_all2_nthD2 by fastforce
    then show ?thesis by (auto simp: render_line_def try_then_Inr_iff has_shape_def RECEIPT_LINE_def)
  qed
  have lines: "of_type (TListOf RECEIPT_LINE) (JArr ls)" using line by (simp add: has_shape_def list_all_iff)
  have opt: "of_type TOptStr (json_opt v)" for v by (simp add: json_opt_def split: option.split)
  have "has_shape RECEIPT_RESPONSE d"
    using d ls lines opt
    by (auto simp: receipt_document_def try_then_Inr_iff has_shape_object RECEIPT_RESPONSE_def simp del: of_type.simps(6))
  then show ?thesis using d by blast
qed

theorem receipts_have_published_shape_witness:
  "\<exists>d. receipt_document basket_order = Inr d \<and> has_shape RECEIPT_RESPONSE d \<and> \<not> has_shape RECEIPT_LINE d"
proof -
  obtain d where d: "receipt_document basket_order = Inr d" "has_shape RECEIPT_RESPONSE d"
    using receipts_have_published_shape [OF basket_order_valid] by blast
  then have "\<not> has_shape RECEIPT_LINE d"
    by (auto simp: receipt_document_def try_then_Inr_iff has_shape_def RECEIPT_LINE_def)
  then show ?thesis using d by blast
qed

end
