(* ===== verification/AppFactory.thy ===== *)
theory AppFactory
  imports Application OtelSetup Logging OpenApi
begin

text \<open>
  The application factory (\<open>main.py\<close>, \<open>create_app\<close>) and the registration of the exception handlers
  (\<open>api/errors.py\<close>, \<open>register_error_handlers\<close>). A created application is the record of what FastAPI is
  given. How FastAPI serves it is the interface \<open>web_framework\<close>: its two exception middlewares and the
  order of the middleware between them.

  The lemmas show that looking a handler up by class is the case distinction \<open>handle_exception\<close>
  (\<open>registered_handlers_dispatch\<close>), that a creation which fails leaves the process as it was, and that
  every reply of a created application carries the correlation identifier under which it is logged
  (\<open>every_reply_is_correlated\<close>).
\<close>

section \<open>Exception handlers\<close>

type_synonym error_handler = "request_ctx \<Rightarrow> exn \<Rightarrow> http_reply \<times> log_line list"

text \<open>
  The handlers by the class they are registered for, in the order of the code. A handler is only called
  with an exception of its class; the other branches are never taken.
\<close>

definition register_error_handlers :: "string \<Rightarrow> (string \<times> error_handler) list" where
  "register_error_handlers pydantic_errors =
     [(''DomainError'', \<lambda>rq e. case e of Domain d \<Rightarrow> on_domain_error rq d | _ \<Rightarrow> on_unexpected_error rq),
      (''PaymentUnavailableError'', \<lambda>rq e. on_payment_unavailable rq),
      (''StorageUnavailableError'', \<lambda>rq e. on_storage_unavailable rq),
      (''HTTPException'', \<lambda>rq e. case e of
         Lib (StarletteHTTPException code det headers) \<Rightarrow> on_http_exception rq code det headers
       | _ \<Rightarrow> on_unexpected_error rq),
      (''RequestValidationError'', \<lambda>rq e. case e of
         Lib (RequestValidationError errors) \<Rightarrow> on_validation_error rq errors | _ \<Rightarrow> on_unexpected_error rq),
      (''ValidationError'', \<lambda>rq e. on_pydantic_error rq pydantic_errors),
      (''Exception'', \<lambda>rq e. on_unexpected_error rq)]"

text \<open>\<open>type(exc).__mro__\<close> by class name; of a library exception, the names the service knows.\<close>

fun exn_mro :: "exn \<Rightarrow> string list" where
  "exn_mro (Domain d) = error_mro d"
| "exn_mro (Lib PydanticValidationError) = [''ValidationError'', ''ValueError'', ''Exception'', ''BaseException'', ''object'']"
| "exn_mro e = [exn_name e, ''Exception'', ''BaseException'', ''object'']"

definition lookup_handler :: "(string \<times> error_handler) list \<Rightarrow> exn \<Rightarrow> error_handler option" where
  "lookup_handler handlers e =
     (case find (\<lambda>c. map_of handlers c \<noteq> None) (exn_mro e) of None \<Rightarrow> None | Some c \<Rightarrow> map_of handlers c)"

text \<open>Starlette keeps the handler for \<open>Exception\<close> apart from the others.\<close>

definition specific_handlers :: "(string \<times> error_handler) list \<Rightarrow> (string \<times> error_handler) list" where
  "specific_handlers = filter (\<lambda>(c, h). c \<noteq> ''Exception'')"

definition handled_classes :: "string list" where
  "handled_classes = [''DomainError'', ''PaymentUnavailableError'', ''StorageUnavailableError'', ''HTTPException'',
     ''RequestValidationError'', ''ValidationError'']"

text \<open>
  A further domain error is a \<open>DomainError\<close> before it is anything else a handler knows, and a further
  library exception is none of the classes the service imports.
\<close>

fun class_known :: "exn \<Rightarrow> bool" where
  "class_known (Domain (OtherDomainError mro c t m)) \<longleftrightarrow> find (\<lambda>k. k \<in> set handled_classes) mro = Some ''DomainError''"
| "class_known (Lib (OtherHTTPError n)) \<longleftrightarrow> n \<notin> set handled_classes"
| "class_known (Lib (OtherException n m)) \<longleftrightarrow> n \<notin> set handled_classes"
| "class_known e \<longleftrightarrow> True"

lemma specific_known: "map_of (specific_handlers (register_error_handlers pe)) c \<noteq> None \<longleftrightarrow> c \<in> set handled_classes"
  by (auto simp: specific_handlers_def register_error_handlers_def handled_classes_def)

lemma lookup_specific:
  "lookup_handler (specific_handlers (register_error_handlers pe)) e =
     (case find (\<lambda>c. c \<in> set handled_classes) (exn_mro e) of
        None \<Rightarrow> None | Some c \<Rightarrow> map_of (specific_handlers (register_error_handlers pe)) c)"
  by (simp only: lookup_handler_def specific_known)

lemma specific_handler:
  "map_of (specific_handlers (register_error_handlers pe)) ''DomainError''
     = Some (\<lambda>rq e. case e of Domain d \<Rightarrow> on_domain_error rq d | _ \<Rightarrow> on_unexpected_error rq)"
  "map_of (specific_handlers (register_error_handlers pe)) ''PaymentUnavailableError'' = Some (\<lambda>rq e. on_payment_unavailable rq)"
  "map_of (specific_handlers (register_error_handlers pe)) ''StorageUnavailableError'' = Some (\<lambda>rq e. on_storage_unavailable rq)"
  "map_of (specific_handlers (register_error_handlers pe)) ''HTTPException'' = Some (\<lambda>rq e. case e of
      Lib (StarletteHTTPException code det headers) \<Rightarrow> on_http_exception rq code det headers | _ \<Rightarrow> on_unexpected_error rq)"
  "map_of (specific_handlers (register_error_handlers pe)) ''RequestValidationError'' = Some (\<lambda>rq e. case e of
      Lib (RequestValidationError errors) \<Rightarrow> on_validation_error rq errors | _ \<Rightarrow> on_unexpected_error rq)"
  "map_of (specific_handlers (register_error_handlers pe)) ''ValidationError'' = Some (\<lambda>rq e. on_pydantic_error rq pe)"
  by (simp_all add: specific_handlers_def register_error_handlers_def)

text \<open>The class by which an exception is handled, if it is not the last.\<close>

fun handled_as :: "exn \<Rightarrow> string option" where
  "handled_as (Domain d) = Some ''DomainError''"
| "handled_as (Infra (PaymentUnavailableError m)) = Some ''PaymentUnavailableError''"
| "handled_as (Infra (StorageUnavailableError m)) = Some ''StorageUnavailableError''"
| "handled_as (Lib (StarletteHTTPException c m hs)) = Some ''HTTPException''"
| "handled_as (Lib (RequestValidationError m)) = Some ''RequestValidationError''"
| "handled_as (Lib PydanticValidationError) = Some ''ValidationError''"
| "handled_as e = None"

lemma first_handled_class:
  assumes "class_known e"
  shows "find (\<lambda>c. c \<in> set handled_classes) (exn_mro e) = handled_as e"
proof (cases "\<exists>mro c t m. e = Domain (OtherDomainError mro c t m)")
  case True
  then show ?thesis using assms by auto
next
  case False
  show ?thesis
  proof (cases "\<exists>v. e = Infra v")
    case True
    then obtain v where "e = Infra v" by blast
    then show ?thesis by (cases v) (simp_all add: handled_classes_def)
  next
    case not_infra: False
    then show ?thesis
      using assms False by (cases e rule: class_known.cases) (auto simp: handled_classes_def)
  qed
qed

text \<open>
  Finding the handler through the classes of an exception, and the one for \<open>Exception\<close> when there is no
  other, gives the reply and the log lines of \<open>handle_exception\<close>.
\<close>

theorem registered_handlers_dispatch:
  assumes "class_known e"
  shows "(case lookup_handler (specific_handlers (register_error_handlers pe)) e of
      Some h \<Rightarrow> h rq e | None \<Rightarrow> on_unexpected_error rq) = handle_exception pe rq e"
  unfolding lookup_specific first_handled_class [OF assms]
  by (cases "(pe, rq, e)" rule: handle_exception.cases) (simp_all add: specific_handler)

theorem registered_handlers_dispatch_witness:
  "lookup_handler (specific_handlers (register_error_handlers [])) (Lib KeyError) = None
   \<and> on_unexpected_error (order_request) = handle_exception [] order_request (Lib KeyError)"
proof -
  have "lookup_handler (specific_handlers (register_error_handlers [])) (Lib KeyError) = None"
    by (simp add: lookup_specific handled_classes_def)
  then show ?thesis using registered_handlers_dispatch [of "Lib KeyError" order_request "[]"] by simp
qed

section \<open>Creating the application\<close>

datatype middleware = CorrelationIdMiddleware | AccessLogMiddleware

datatype api_router = HealthRouter | V1Router

text \<open>
  The application as FastAPI is told to build it: the middleware outermost first, the routers with the
  prefix each is mounted under, and \<open>app.state.otel\<close>. The settings are the ones its lifespan starts with.
\<close>

record created_app =
  ca_title :: string
  ca_version :: string
  ca_responses :: "(nat \<times> json) list"
  ca_handlers :: "(string \<times> error_handler) list"
  ca_routers :: "(string \<times> api_router) list"
  ca_middleware :: "middleware list"
  ca_otel :: "(provider_setup \<times> otel_runtime) option"
  ca_settings :: settings

definition new_app :: "json \<Rightarrow> settings \<Rightarrow> string \<Rightarrow> created_app" where
  "new_app schema s version =
     \<lparr>ca_title = service_name s, ca_version = version, ca_responses = DEFAULT_PROBLEM_RESPONSES schema,
      ca_handlers = [], ca_routers = [], ca_middleware = [], ca_otel = None, ca_settings = s\<rparr>"

text \<open>\<open>add_middleware\<close> puts a middleware outside those that are there.\<close>

definition add_middleware :: "middleware \<Rightarrow> created_app \<Rightarrow> created_app" where
  "add_middleware m a = a\<lparr>ca_middleware := m # ca_middleware a\<rparr>"

definition include_router :: "string \<Rightarrow> api_router \<Rightarrow> created_app \<Rightarrow> created_app" where
  "include_router prefix r a = a\<lparr>ca_routers := ca_routers a @ [(prefix, r)]\<rparr>"

text \<open>What a process has: the global providers, the state of logging, the environment and the instrumented targets.\<close>

record 'l app_process =
  ap_globals :: otel_globals
  ap_logging :: logging_state
  ap_instrumented :: "'l process"

datatype start_failure = Exits int string | Raises exn

definition resolve_settings :: "settings option \<Rightarrow> settings_result \<Rightarrow> start_failure + settings" where
  "resolve_settings given environment_read =
     (case given of
        Some s \<Rightarrow> Inr s
      | None \<Rightarrow>
          (case load_settings environment_read of
             load_result.Loaded s \<Rightarrow> Inr s
           | load_result.ExitWith code message \<Rightarrow> Inl (Exits code message)
           | load_result.Escapes e \<Rightarrow> Inl (Raises e)))"

definition create_app ::
  "(string \<Rightarrow> bool) \<Rightarrow> 'l instrumentor_call \<Rightarrow> json \<Rightarrow> string \<Rightarrow> string \<Rightarrow> nat \<Rightarrow> settings option \<Rightarrow> settings_result \<Rightarrow>
   ('l app_process, start_failure, created_app) io" where
  "create_app bracketed_ok instrument schema pydantic_errors version runtime given environment_read = (\<lambda>st.
     case resolve_settings given environment_read of
       Inl failure \<Rightarrow> (Inl failure, st)
     | Inr resolved \<Rightarrow>
         (case configure_otel bracketed_ok resolved version (ap_globals st) of
            (Inl e, g) \<Rightarrow> (Inl (Raises e), st\<lparr>ap_globals := g\<rparr>)
          | (Inr otel, g) \<Rightarrow>
              let ls = configure_logging (environment resolved) (log_level (log_conf resolved))
                    (log_level_overrides (log_conf resolved)) (log_redact_fields (log_conf resolved))
                    (service_name resolved) version
                    (case otel of None \<Rightarrow> False | Some (setup, r) \<Rightarrow> has_logger_provider r) (ap_logging st);
                  created = (new_app schema resolved version)\<lparr>ca_handlers := register_error_handlers pydantic_errors\<rparr>;
                  routed = include_router ''/api/v1'' V1Router (include_router [] HealthRouter created);
                  app = (add_middleware CorrelationIdMiddleware (add_middleware AccessLogMiddleware routed))\<lparr>ca_otel := otel\<rparr>;
                  p = (if otel = None then ap_instrumented st
                       else instrument_fastapi instrument (ca_title app) runtime (ap_instrumented st))
              in (Inr app, \<lparr>ap_globals = g, ap_logging = ls, ap_instrumented = p\<rparr>)))"

text \<open>The lifespan that FastAPI runs for a created application.\<close>

definition app_lifespan ::
  "(string \<Rightarrow> bool) \<Rightarrow> (life_event \<Rightarrow> exn option) \<Rightarrow> created_app \<Rightarrow> life_event step" where
  "app_lifespan bracketed_ok fails a = run_app bracketed_ok fails (ca_otel a \<noteq> None) (ca_settings a)"

lemma create_app_shape:
  assumes "create_app bracketed_ok instrument schema pe version n given env st = (Inr a, st')"
  shows "ca_middleware a = [CorrelationIdMiddleware, AccessLogMiddleware]"
    and "ca_handlers a = register_error_handlers pe"
    and "ca_routers a = [([], HealthRouter), (''/api/v1'', V1Router)]"
    and "ca_responses a = DEFAULT_PROBLEM_RESPONSES schema"
    and "resolve_settings given env = Inr (ca_settings a)"
  using assms
  by (auto simp: create_app_def Let_def new_app_def include_router_def add_middleware_def
      split: sum.splits prod.splits)

lemma configure_otel_failing: "configure_otel bracketed_ok s version g = (Inl e, g') \<Longrightarrow> g' = g"
  by (auto simp: configure_otel_def split: if_splits sum.splits)

text \<open>
  A creation that fails leaves the process as it was. One that succeeds built the application for the
  settings given, or else for those of the environment; exactly one handler writes to the standard
  output, and records reach the collector exactly when the settings ask for it.
\<close>

theorem create_app_is_atomic:
  assumes "create_app bracketed_ok instrument schema pe version n given env st = (r, st')"
  shows "case r of
      Inl failure \<Rightarrow> st' = st
    | Inr a \<Rightarrow> resolve_settings given env = Inr (ca_settings a)
        \<and> lg_handlers (ls_loggers (ap_logging st') []) =
            root_handlers (environment (ca_settings a)) (log_redact_fields (log_conf (ca_settings a)))
              (service_name (ca_settings a)) version
              (otel_enabled (otel_conf (ca_settings a)) \<and> otel_logs_enabled (otel_conf (ca_settings a)))"
proof (cases "resolve_settings given env")
  case (Inl failure)
  then show ?thesis using assms by (auto simp: create_app_def)
next
  case (Inr s)
  obtain x g where otel: "configure_otel bracketed_ok s version (ap_globals st) = (x, g)" by (metis prod.exhaust)
  show ?thesis
  proof (cases x)
    case (Inl e)
    then show ?thesis using assms Inr otel configure_otel_failing [of bracketed_ok s version "ap_globals st" e g]
      by (auto simp: create_app_def)
  next
    case some: (Inr made)
    have otlp: "(case made of None \<Rightarrow> False | Some (setup, r) \<Rightarrow> has_logger_provider r)
        \<longleftrightarrow> otel_enabled (otel_conf s) \<and> otel_logs_enabled (otel_conf s)"
      using otel some by (auto simp: configure_otel_def build_providers_def Let_def split: if_splits sum.splits option.splits)
    show ?thesis
      using assms Inr otel some otlp
      by (auto simp: create_app_def Let_def new_app_def include_router_def add_middleware_def configured_root)
  qed
qed

section \<open>Serving a request\<close>

fun wrap :: "string \<Rightarrow> string \<Rightarrow> middleware \<Rightarrow> asgi_app \<Rightarrow> asgi_app" where
  "wrap fresh duration CorrelationIdMiddleware app = correlation_middleware fresh app"
| "wrap fresh duration AccessLogMiddleware app = access_log_middleware duration app"

fun starts :: "asgi_message \<Rightarrow> bool" where
  "starts (ResponseStart code hs) = True"
| "starts (OtherMessage b) = False"

definition started :: "asgi_message list \<Rightarrow> bool" where
  "started ms = list_ex starts ms"

text \<open>Lines are written with the context variables that are bound at the time.\<close>

definition write_lines :: "log_line list \<Rightarrow> task_state \<Rightarrow> task_state" where
  "write_lines ls ts = ts\<lparr>ts_log := rev (map (\<lambda>(event, kvs). (event, ts_context ts @ kvs)) ls) @ ts_log ts\<rparr>"

text \<open>
  What Starlette promises. The application's middleware runs between two that handle exceptions:
  \<open>guard\<close> around the routes, which answers an exception of a class with a handler, and \<open>outer\<close> around
  everything, which answers any other and raises it again. Neither answers once a response was started.
  \<open>render\<close> are the messages of a reply.
\<close>

locale web_framework =
  fixes render :: "http_reply \<Rightarrow> asgi_message list"
    and guard :: "(string \<times> error_handler) list \<Rightarrow> (scope \<Rightarrow> request_ctx) \<Rightarrow> asgi_app \<Rightarrow> asgi_app"
    and outer :: "(string \<times> error_handler) list \<Rightarrow> (scope \<Rightarrow> request_ctx) \<Rightarrow> asgi_app \<Rightarrow> asgi_app"
    and respond :: "created_app \<Rightarrow> (scope \<Rightarrow> request_ctx) \<Rightarrow> string \<Rightarrow> string \<Rightarrow> asgi_app \<Rightarrow> asgi_app"
  assumes built: "respond a ctx fresh duration endpoint =
      outer (ca_handlers a) ctx
        (foldr (wrap fresh duration) (ca_middleware a) (guard (specific_handlers (ca_handlers a)) ctx endpoint))"
    and renders: "\<exists>hs rest. render r = ResponseStart (reply_status r) hs # rest \<and> \<not> started rest
      \<and> (\<forall>k v. header_get (reply_headers r) k = Some v \<longrightarrow> header_get hs k = Some v)"
    and guard_returns: "app sc ts = ((ms, None, sc'), ts') \<Longrightarrow> guard handlers ctx app sc ts = ((ms, None, sc'), ts')"
    and guard_handles: "sc_type sc = ''http'' \<Longrightarrow> app sc ts = ((ms, Some e, sc'), ts') \<Longrightarrow> \<not> started ms
      \<Longrightarrow> lookup_handler handlers e = Some h
      \<Longrightarrow> guard handlers ctx app sc ts = ((ms @ render (fst (h (ctx sc') e)), None, sc'), write_lines (snd (h (ctx sc') e)) ts')"
    and guard_passes: "app sc ts = ((ms, Some e, sc'), ts') \<Longrightarrow> started ms \<or> lookup_handler handlers e = None
      \<Longrightarrow> \<exists>e'. guard handlers ctx app sc ts = ((ms, Some e', sc'), ts')"
    and outer_returns: "app sc ts = ((ms, None, sc'), ts') \<Longrightarrow> outer handlers ctx app sc ts = ((ms, None, sc'), ts')"
    and outer_handles: "sc_type sc = ''http'' \<Longrightarrow> app sc ts = ((ms, Some e, sc'), ts') \<Longrightarrow> \<not> started ms
      \<Longrightarrow> map_of handlers ''Exception'' = Some h
      \<Longrightarrow> outer handlers ctx app sc ts = ((ms @ render (fst (h (ctx sc') e)), Some e, sc'), write_lines (snd (h (ctx sc') e)) ts')"
    and outer_passes: "app sc ts = ((ms, Some e, sc'), ts') \<Longrightarrow> started ms
      \<Longrightarrow> outer handlers ctx app sc ts = ((ms, Some e, sc'), ts')"
begin

lemma started_render: "started (ms @ render r)"
  using renders [of r] by (auto simp: started_def)

lemma sent_status_append: "sent_status d (xs @ ys) = sent_status (sent_status d xs) ys"
  by (induction d xs rule: sent_status.induct) simp_all

lemma not_started_status: "\<not> started ms \<Longrightarrow> sent_status d ms = d"
  by (induction d ms rule: sent_status.induct) (auto simp: started_def)

lemma sent_status_render: "sent_status d (ms @ render r) = reply_status r"
  using renders [of r] not_started_status by (auto simp: sent_status_append)

text \<open>The routes and their guard end with an exception only when it is for the outer handler.\<close>

lemma guarded:
  assumes "sc_type sc = ''http''" and "endpoint sc ts = ((ms, e, sc'), ts')"
    and "guard handlers ctx endpoint sc ts = ((ms', e', sc''), ts'')"
  shows "sc'' = sc' \<and> ts_context ts'' = ts_context ts' \<and> (e \<noteq> None \<longrightarrow> started ms' \<or> e' \<noteq> None)
    \<and> (\<exists>added. ts_log ts'' = added @ ts_log ts' \<and> (\<forall>l \<in> set added. set (ts_context ts') \<subseteq> set (snd l)))"
proof (cases e)
  case None
  then show ?thesis using guard_returns assms(2,3) by fastforce
next
  case (Some exc)
  show ?thesis
  proof (cases "started ms \<or> lookup_handler handlers exc = None")
    case True
    then show ?thesis using guard_passes [of endpoint sc ts ms exc sc' ts' handlers ctx] assms(2,3) Some by auto
  next
    case False
    then obtain h where h: "lookup_handler handlers exc = Some h" "\<not> started ms" by auto
    show ?thesis
      using guard_handles [of sc endpoint ts ms exc sc' ts' handlers h ctx] h assms Some started_render
      by (auto simp: write_lines_def)
  qed
qed

lemma answered_by_outer:
  assumes "sc_type sc = ''http''" and "app sc ts = ((ms, e, sc'), ts')" and "map_of handlers ''Exception'' = Some h"
    and "outer handlers ctx app sc ts = ((sent, ended, sc''), ts'')"
  shows "if e = None \<or> started ms then sent = ms \<and> ts'' = ts'
    else \<exists>exc. e = Some exc \<and> sent = ms @ render (fst (h (ctx sc') exc)) \<and> ts'' = write_lines (snd (h (ctx sc') exc)) ts'"
proof (cases e)
  case None
  then show ?thesis using outer_returns [of app sc ts ms sc' ts' handlers ctx] assms by simp
next
  case (Some exc)
  then show ?thesis
    using outer_passes [of app sc ts ms exc sc' ts' handlers ctx] outer_handles [of sc app ts ms exc sc' ts' handlers h ctx] assms
    by (cases "started ms") simp_all
qed

end

text \<open>Starlette as far as it is described: an instance that does just that.\<close>

definition sim_render :: "http_reply \<Rightarrow> asgi_message list" where
  "sim_render r =
     [ResponseStart (reply_status r) (reply_headers r @ [(''content-type'', reply_media_type r)]),
      OtherMessage (json_dumps (reply_content r))]"

definition sim_guard :: "(string \<times> error_handler) list \<Rightarrow> (scope \<Rightarrow> request_ctx) \<Rightarrow> asgi_app \<Rightarrow> asgi_app" where
  "sim_guard handlers ctx app sc ts =
     (case app sc ts of
        ((ms, Some e, sc'), ts') \<Rightarrow>
          (case lookup_handler handlers e of
             Some h \<Rightarrow>
               if started ms \<or> sc_type sc \<noteq> ''http'' then ((ms, Some e, sc'), ts')
               else ((ms @ sim_render (fst (h (ctx sc') e)), None, sc'), write_lines (snd (h (ctx sc') e)) ts')
           | None \<Rightarrow> ((ms, Some e, sc'), ts'))
      | ((ms, None, sc'), ts') \<Rightarrow> ((ms, None, sc'), ts'))"

definition sim_outer :: "(string \<times> error_handler) list \<Rightarrow> (scope \<Rightarrow> request_ctx) \<Rightarrow> asgi_app \<Rightarrow> asgi_app" where
  "sim_outer handlers ctx app sc ts =
     (case app sc ts of
        ((ms, Some e, sc'), ts') \<Rightarrow>
          (case map_of handlers ''Exception'' of
             Some h \<Rightarrow>
               if started ms \<or> sc_type sc \<noteq> ''http'' then ((ms, Some e, sc'), ts')
               else ((ms @ sim_render (fst (h (ctx sc') e)), Some e, sc'), write_lines (snd (h (ctx sc') e)) ts')
           | None \<Rightarrow> ((ms, Some e, sc'), ts'))
      | ((ms, None, sc'), ts') \<Rightarrow> ((ms, None, sc'), ts'))"

definition sim_respond :: "created_app \<Rightarrow> (scope \<Rightarrow> request_ctx) \<Rightarrow> string \<Rightarrow> string \<Rightarrow> asgi_app \<Rightarrow> asgi_app" where
  "sim_respond a ctx fresh duration endpoint =
     sim_outer (ca_handlers a) ctx
       (foldr (wrap fresh duration) (ca_middleware a) (sim_guard (specific_handlers (ca_handlers a)) ctx endpoint))"

lemma header_get_append: "header_get hs k = Some v \<Longrightarrow> header_get (hs @ hs2) k = Some v"
  by (induction hs) (auto simp: header_get_def split: if_splits)

interpretation sim_web: web_framework sim_render sim_guard sim_outer sim_respond
  by unfold_locales
    (auto simp: sim_respond_def sim_render_def sim_guard_def sim_outer_def started_def header_get_append split: option.splits)

section \<open>Correlation\<close>

lemma set_correlation_keeps [simp]:
  "started (map (set_correlation c) ms) = started ms"
  "sent_status d (map (set_correlation c) ms) = sent_status d ms"
proof -
  have "starts (set_correlation c m) = starts m" for m by (cases m) simp_all
  then show "started (map (set_correlation c) ms) = started ms" by (simp add: started_def list_ex_iff)
  show "sent_status d (map (set_correlation c) ms) = sent_status d ms"
    by (induction d ms rule: sent_status.induct) simp_all
qed

definition correlated :: "string \<Rightarrow> asgi_message list \<Rightarrow> bool" where
  "correlated c ms \<longleftrightarrow>
     list_all (\<lambda>m. case m of ResponseStart code hs \<Rightarrow> header_get hs CORRELATION_HEADER = Some c | _ \<Rightarrow> True) ms"

lemma correlated_map: "correlated c (map (set_correlation c) ms)"
proof -
  have "case set_correlation c m of ResponseStart code hs \<Rightarrow> header_get hs CORRELATION_HEADER = Some c | _ \<Rightarrow> True" for m
    by (cases m) (simp_all add: header_get_set)
  then show ?thesis by (simp add: correlated_def list_all_iff)
qed

lemma correlated_silent: "\<not> started ms \<Longrightarrow> correlated c ms"
  by (auto simp: correlated_def started_def list_ex_iff list_all_iff split: asgi_message.splits)

lemma correlated_append [simp]: "correlated c (xs @ ys) \<longleftrightarrow> correlated c xs \<and> correlated c ys"
  by (simp add: correlated_def)

text \<open>The line of the access log, if the route is not excluded.\<close>

definition access_lines :: "string \<Rightarrow> string \<Rightarrow> scope \<Rightarrow> asgi_message list \<Rightarrow> log_line list" where
  "access_lines c duration sc ms =
     (if route_template sc \<in> set EXCLUDED_FROM_ACCESS_LOG then []
      else [access_line [(''correlation_id'', c)] (case sc_method sc of None \<Rightarrow> [] | Some m \<Rightarrow> m)
              (route_template sc) (sent_status 500 ms) duration])"

lemma access_lines_correlated: "l \<in> set (access_lines c duration sc ms) \<Longrightarrow> (''correlation_id'', c) \<in> set (snd l)"
  by (auto simp: access_lines_def access_line_def split: if_splits)

lemma access_lines_status:
  "route_template sc \<notin> set EXCLUDED_FROM_ACCESS_LOG \<Longrightarrow> \<exists>kvs. (''http.access'', kvs) \<in> set (access_lines c duration sc ms)
     \<and> (''http.response.status_code'', nat_str (sent_status 500 ms)) \<in> set kvs"
  by (simp add: access_lines_def access_line_def)

lemma middleware_result:
  assumes "sc_type sc = ''http''" and "c = correlation_id_for fresh sc"
    and "app (sc\<lparr>sc_correlation_id := Some c\<rparr>) (ts\<lparr>ts_context := [(''correlation_id'', c)]\<rparr>) = ((ms, e, sc1), ts1)"
    and "ts_context ts1 = [(''correlation_id'', c)]"
  shows "correlation_middleware fresh (access_log_middleware duration app) sc ts
    = ((map (set_correlation c) ms, e, sc1), ts1\<lparr>ts_context := [], ts_log := access_lines c duration sc1 ms @ ts_log ts1\<rparr>)"
  using assms by (simp add: correlation_middleware_def access_log_middleware_def access_lines_def Let_def)

text \<open>The reply to an exception nobody expected has the identifier that is in the scope, and so has its line.\<close>

lemma unexpected_is_correlated:
  assumes "web_framework render guard outer respond" and "rq_scope rq = sc" and "sc_correlation_id sc = Some c"
  shows "correlated c (render (fst (on_unexpected_error rq)))" and "sent_status d (ms @ render (fst (on_unexpected_error rq))) = 500"
    and "l \<in> set (snd (on_unexpected_error rq)) \<Longrightarrow> (''correlation_id'', c) \<in> set (snd l)"
proof -
  let ?r = "fst (on_unexpected_error rq)"
  obtain hs rest where r: "render ?r = ResponseStart (reply_status ?r) hs # rest" "\<not> started rest"
      "\<And>k v. header_get (reply_headers ?r) k = Some v \<Longrightarrow> header_get hs k = Some v"
    using web_framework.renders [OF assms(1), of ?r] by blast
  have reply: "header_get (reply_headers ?r) CORRELATION_HEADER = Some c" "reply_status ?r = 500"
    using assms(2,3) by (simp_all add: on_unexpected_error_def header_get_def)
  show "correlated c (render ?r)" using r reply(1) correlated_silent [OF r(2)] by (simp add: correlated_def)
  show "sent_status d (ms @ render ?r) = 500" using web_framework.sent_status_render [OF assms(1)] reply(2) by simp
  show "l \<in> set (snd (on_unexpected_error rq)) \<Longrightarrow> (''correlation_id'', c) \<in> set (snd l)"
    using assms(2,3) by (auto simp: on_unexpected_error_def)
qed

text \<open>
  C29: Whatever becomes of a request, one identifier is on everything the client and the operator see of it.
  Take the application that \<open>create_app\<close> built and any framework that keeps Starlette's promises, and let
  the routes answer or raise whatever they like, as long as they keep the context they found. Then every
  response carries the identifier, the caller's own if one was sent, also the reply to an exception
  nobody expected, which is written outside the middleware that bound it; so does every line the
  handlers and the access log write; the access log has the status that was sent; a request that failed
  is answered; and nothing stays bound.
\<close>

theorem every_reply_is_correlated:
  assumes "web_framework render guard outer respond"
    and "create_app bracketed_ok instrument schema pe version n given env st = (Inr a, st')"
    and "sc_type sc = ''http''" and "c = correlation_id_for fresh sc" and "\<And>x. rq_scope (ctx x) = x"
    and "endpoint (sc\<lparr>sc_correlation_id := Some c\<rparr>) (ts\<lparr>ts_context := [(''correlation_id'', c)]\<rparr>) = ((ms, e, sc1), ts1)"
    and "ts_context ts1 = [(''correlation_id'', c)]" and "sc_correlation_id sc1 = Some c"
    and "respond a ctx fresh duration endpoint sc ts = ((sent, ended, sc2), ts2)"
  shows "ts_context ts2 = [] \<and> correlated c sent \<and> (e \<noteq> None \<longrightarrow> started sent)
    \<and> (\<exists>added. ts_log ts2 = added @ ts_log ts1 \<and> (\<forall>l \<in> set added. (''correlation_id'', c) \<in> set (snd l))
        \<and> (route_template sc1 \<notin> set EXCLUDED_FROM_ACCESS_LOG \<longrightarrow>
            (\<exists>kvs. (''http.access'', kvs) \<in> set added
              \<and> (''http.response.status_code'', nat_str (sent_status 500 sent)) \<in> set kvs)))"
proof -
  note laws = assms(1) and failure = unexpected_is_correlated [OF assms(1) assms(5) assms(8)]
  let ?sc = "sc\<lparr>sc_correlation_id := Some c\<rparr>" and ?ts = "ts\<lparr>ts_context := [(''correlation_id'', c)]\<rparr>"
  let ?handlers = "register_error_handlers pe"
  let ?guarded = "guard (specific_handlers ?handlers) ctx endpoint"
  obtain ms' e' sc'' ts'' where g: "?guarded ?sc ?ts = ((ms', e', sc''), ts'')" by (metis prod.exhaust)
  obtain added where inner: "sc'' = sc1" "ts_context ts'' = [(''correlation_id'', c)]" "e \<noteq> None \<longrightarrow> started ms' \<or> e' \<noteq> None"
      "ts_log ts'' = added @ ts_log ts1" "\<forall>l \<in> set added. (''correlation_id'', c) \<in> set (snd l)"
    using web_framework.guarded [OF laws _ assms(6) g] assms(3,7) by auto
  let ?lines = "access_lines c duration sc1 ms'"
  define ts3 where "ts3 = ts''\<lparr>ts_context := [], ts_log := ?lines @ ts_log ts''\<rparr>"
  have stack: "correlation_middleware fresh (access_log_middleware duration ?guarded) sc ts
      = ((map (set_correlation c) ms', e', sc1), ts3)"
    using middleware_result [of sc c fresh ?guarded ts ms' e' sc'' ts'' duration] assms(3,4) g inner(1,2) by (simp add: ts3_def)
  have run: "outer ?handlers ctx (correlation_middleware fresh (access_log_middleware duration ?guarded)) sc ts = ((sent, ended, sc2), ts2)"
    using assms(9) web_framework.built [OF laws] create_app_shape(1,2) [OF assms(2)] by simp
  have last: "map_of ?handlers ''Exception'' = Some (\<lambda>rq e. on_unexpected_error rq)"
    by (simp add: register_error_handlers_def)
  note final = web_framework.answered_by_outer [OF laws assms(3) stack last run]
  have line: "\<forall>l \<in> set (?lines @ added). (''correlation_id'', c) \<in> set (snd l)"
    using inner(5) access_lines_correlated by auto
  note status = access_lines_status [of sc1 c duration ms']
  show ?thesis
  proof (cases "e' = None \<or> started ms'")
    case True
    then have "sent = map (set_correlation c) ms'" "ts2 = ts3" using final by simp_all
    then show ?thesis using inner(3,4) line status True correlated_map by (auto simp: ts3_def)
  next
    case False
    then have sent: "sent = map (set_correlation c) ms' @ render (fst (on_unexpected_error (ctx sc1)))"
        "ts2 = write_lines (snd (on_unexpected_error (ctx sc1))) ts3"
      using final by auto
    have "correlated c sent" "started sent" "sent_status 500 sent = 500"
      using sent(1) failure(1,2) correlated_map web_framework.started_render [OF laws] by simp_all
    moreover have "sent_status 500 ms' = 500" using web_framework.not_started_status [OF laws] False by simp
    ultimately show ?thesis
      using sent(2) line status inner(4) failure(3) by (fastforce simp: ts3_def write_lines_def)
  qed
qed

definition crashing_app :: asgi_app where
  "crashing_app sc ts = (([], Some (Lib KeyError), sc\<lparr>sc_route := Some ''/orders/{order_id}''\<rparr>), ts)"

definition fresh_process :: "sim_lib app_process" where
  "fresh_process = \<lparr>ap_globals = no_globals, ap_logging = \<lparr>ls_structlog = None, ls_loggers = \<lambda>n. fresh_logger\<rparr>,
     ap_instrumented = (Map.empty, \<lparr>sl_conventions = None, sl_patched = None, sl_targets = []\<rparr>)\<rparr>"

lemma default_app: "\<exists>a st'. create_app (\<lambda>n. True) sim_instrument JNull [] ''0.1.0'' 1 (Some default_settings) env fresh_process = (Inr a, st')"
  by (simp add: create_app_def resolve_settings_def configure_otel_def default_settings_def Let_def)

theorem every_reply_is_correlated_witness:
  "\<exists>a st' sent ended sc2 ts2.
     create_app (\<lambda>n. True) sim_instrument JNull [] ''0.1.0'' 1 (Some default_settings) (NotReadable (Lib KeyError)) fresh_process
       = (Inr a, st')
     \<and> sim_respond a (context_of None) ''f00d'' ''1.5'' crashing_app (order_scope ''42'') \<lparr>ts_context = [], ts_log = []\<rparr>
       = ((sent, ended, sc2), ts2)
     \<and> started sent \<and> correlated ''f00d'' sent \<and> ts_context ts2 = [] \<and> ts_log ts2 \<noteq> []"
proof -
  let ?ts = "\<lparr>ts_context = [], ts_log = []\<rparr>"
  obtain a st' where a: "create_app (\<lambda>n. True) sim_instrument JNull [] ''0.1.0'' 1 (Some default_settings) (NotReadable (Lib KeyError))
      fresh_process = (Inr a, st')"
    using default_app by blast
  obtain sent ended sc2 ts2 where run: "sim_respond a (context_of None) ''f00d'' ''1.5'' crashing_app (order_scope ''42'') ?ts
      = ((sent, ended, sc2), ts2)"
    by (metis prod.exhaust)
  have http: "sc_type (order_scope ''42'') = ''http''" and c: "''f00d'' = correlation_id_for ''f00d'' (order_scope ''42'')"
    and ctx: "rq_scope (context_of None x) = x" for x
    by (simp_all add: order_scope_def correlation_id_for_def header_get_def context_of_def)
  let ?sc1 = "(order_scope ''42'')\<lparr>sc_correlation_id := Some ''f00d'', sc_route := Some ''/orders/{order_id}''\<rparr>"
  have crash: "crashing_app ((order_scope ''42'')\<lparr>sc_correlation_id := Some ''f00d''\<rparr>) (?ts\<lparr>ts_context := [(''correlation_id'', ''f00d'')]\<rparr>)
      = (([], Some (Lib KeyError), ?sc1), ?ts\<lparr>ts_context := [(''correlation_id'', ''f00d'')]\<rparr>)"
    by (simp add: crashing_app_def)
  have template: "route_template ?sc1 = ''/api/v1/orders/{order_id}''"
    by (rule route_template_prefix [of _ "''/orders/{order_id}''" "''/api/v1''", simplified])
      (simp_all add: order_scope_def fill_order)
  from every_reply_is_correlated [OF sim_web.web_framework_axioms a http c ctx crash _ _ run] template
  show ?thesis using a run by (fastforce simp: EXCLUDED_FROM_ACCESS_LOG_def)
qed

end
