(* ===== verification/ServiceSpec.thy ===== *)
theory ServiceSpec
  imports OpenApi
begin

text \<open>
  What the service promises, without adapters: a map from identifiers to orders, a post that adds an
  entry and requests that look one up. The lemmas show that the service over any adapters refines this
  map (\<open>service_refines_map\<close>) as long as no adapter fails, and hence that adapters can be exchanged
  without a client noticing (\<open>adapters_are_interchangeable\<close>).
\<close>

section \<open>The specification\<close>

text \<open>
  The order a request asks for. The authorisation is the provider's business: the specification leaves
  it out, and so does the comparison of orders.
\<close>

definition requested_order :: "uuid \<Rightarrow> place_order_request \<Rightarrow> order" where
  "requested_order i request = order_for i (request_command request) \<lparr>auth_id = []\<rparr>"

definition same_order :: "order \<Rightarrow> order \<Rightarrow> bool" where
  "same_order a b \<longleftrightarrow> order_eq (a\<lparr>authorisation_id := None\<rparr>) (b\<lparr>authorisation_id := None\<rparr>)"

definition same_orders :: "(uuid \<rightharpoonup> order) \<Rightarrow> (uuid \<rightharpoonup> order) \<Rightarrow> bool" where
  "same_orders m m' \<longleftrightarrow> (\<forall>i. rel_option same_order (m i) (m' i))"

fun spec_serve :: "string \<Rightarrow> request_ctx \<Rightarrow> api_request \<Rightarrow> (uuid \<rightharpoonup> order) \<Rightarrow> api_reply \<times> (uuid \<rightharpoonup> order)" where
  "spec_serve pe rq (PostOrder i request) m =
     (if place_order_request_valid request
      then (OrderReply 201 (projr (to_response (requested_order i request))) [(''Location'', ''/api/v1/orders/'' @ uuid_str i)],
            m(i \<mapsto> requested_order i request))
      else (failed pe rq (Lib PydanticValidationError), m))"
| "spec_serve pe rq (GetOrder i) m =
     (case m i of
        None \<Rightarrow> (failed pe rq (Domain (OrderNotFoundError i)), m)
      | Some ord \<Rightarrow> (OrderReply 200 (projr (to_response ord)) [], m))"
| "spec_serve pe rq (GetOrderReceipt i) m =
     (case m i of
        None \<Rightarrow> (failed pe rq (Domain (OrderNotFoundError i)), m)
      | Some ord \<Rightarrow> (BytesReply 200 (projr (render_receipt ord)) RECEIPT_MEDIA_TYPE, m))"

fun spec_serve_all ::
  "string \<Rightarrow> (api_request \<Rightarrow> request_ctx) \<Rightarrow> api_request list \<Rightarrow> (uuid \<rightharpoonup> order) \<Rightarrow> api_reply list \<times> (uuid \<rightharpoonup> order)" where
  "spec_serve_all pe ctx [] m = ([], m)"
| "spec_serve_all pe ctx (r # rs) m =
     (let (a, m') = spec_serve pe (ctx r) r m; (as, m'') = spec_serve_all pe ctx rs m' in (a # as, m''))"

text \<open>
  Replies a client cannot tell apart: equal responses, equal problems, and receipts of one order. The
  text of a receipt names the authorisation and writes amounts as the repository keeps them.
\<close>

fun reply_like :: "api_reply \<Rightarrow> api_reply \<Rightarrow> bool" where
  "reply_like (OrderReply c r hs) (OrderReply c' r' hs') \<longleftrightarrow> c = c' \<and> response_eq r r' \<and> hs = hs'"
| "reply_like (BytesReply c b media) (BytesReply c' b' media') \<longleftrightarrow> c = c' \<and> media = media'"
| "reply_like (ProblemReply r) (ProblemReply r') \<longleftrightarrow> r = r'"
| "reply_like a b \<longleftrightarrow> False"

text \<open>The statuses that tell a client of a failure behind the service.\<close>

definition adapter_failure :: "api_reply \<Rightarrow> bool" where
  "adapter_failure a \<longleftrightarrow> reply_code a \<in> {402, 500, 503}"

section \<open>Comparison\<close>

lemma order_valid_erased: "order_valid ord \<Longrightarrow> order_valid (ord\<lparr>authorisation_id := x\<rparr>)"
  by (simp add: order_valid_def total_must_match_lines_def)

lemma to_response_erased: "to_response (ord\<lparr>authorisation_id := x\<rparr>) = to_response ord"
  by (simp add: to_response_def)

lemma order_for_erased: "(order_for i command a)\<lparr>authorisation_id := None\<rparr> = (order_for i command b)\<lparr>authorisation_id := None\<rparr>"
  by (simp add: order_for_def)

lemma order_eq_sym: "order_eq a b \<Longrightarrow> order_eq b a"
  by (auto simp: order_eq_def order_line_eq_def money_eq_def dec_eq_def list_all2_conv_all_nth)

lemma same_order_eq: "order_eq a b \<Longrightarrow> same_order a b"
  by (simp add: same_order_def order_eq_def)

lemma same_orders_refl: "same_orders m m"
  by (auto simp: same_orders_def rel_option_iff same_order_def split: option.split)

lemma same_orders_at:
  assumes "same_orders m m'"
  shows "m i = Some ord \<Longrightarrow> \<exists>ord'. m' i = Some ord' \<and> same_order ord ord'" and "m' i = None \<longleftrightarrow> m i = None"
proof -
  have rel: "rel_option same_order (m i) (m' i)" using assms by (simp add: same_orders_def)
  then show "m i = Some ord \<Longrightarrow> \<exists>ord'. m' i = Some ord' \<and> same_order ord ord'" by (cases "m' i") simp_all
  show "m' i = None \<longleftrightarrow> m i = None" using rel by (cases "m i"; cases "m' i") simp_all
qed

lemma same_response:
  assumes "same_order a b" and "order_valid a" and "order_valid b"
    and "to_response a = Inr ra" and "to_response b = Inr rb"
  shows "response_eq ra rb"
  using to_response_eq [OF assms(1) [unfolded same_order_def] order_valid_erased [OF assms(2)] order_valid_erased [OF assms(3)]]
    assms(4,5) by (simp add: to_response_erased)

section \<open>Refinement\<close>

text \<open>The invariant of the specification: every order in the map is valid.\<close>

definition spec_ok :: "(uuid \<rightharpoonup> order) \<Rightarrow> bool" where
  "spec_ok m \<longleftrightarrow> (\<forall>i ord. m i = Some ord \<longrightarrow> order_valid ord)"

lemma spec_serve_ok: "spec_ok m \<Longrightarrow> spec_ok (snd (spec_serve pe rq r m))"
  by (cases r) (auto simp: spec_ok_def requested_order_def order_for_valid split: option.splits)

lemma failed_problem [simp]: "reply_like (failed pe rq e) (failed pe rq e)"
  by (simp add: failed_def)

lemma response_eq_requested:
  assumes "place_order_request_valid request"
  shows "response_eq (projr (to_response (order_for i (request_command request) a))) (projr (to_response (requested_order i request)))"
proof -
  have valid: "order_valid (order_for i (request_command request) a)" for a
    using assms by (intro order_for_valid) simp
  obtain ra rb where "to_response (order_for i (request_command request) a) = Inr ra"
      "to_response (requested_order i request) = Inr rb"
    using to_response_returns [OF valid] unfolding requested_order_def by blast
  moreover have "same_order (order_for i (request_command request) a) (requested_order i request)"
    unfolding same_order_def requested_order_def order_for_erased [of i _ a "\<lparr>auth_id = []\<rparr>"] by simp
  ultimately show ?thesis
    using same_response valid by (fastforce simp: requested_order_def)
qed

context order_service
begin

lemma post_refines:
  assumes "good (w, p, s)" and "orders w i = None" and "\<And>ord e w w'. save ord w = (Inl e, w') \<Longrightarrow> plain_failure e"
    and "same_orders (orders w) m" and "answer pe rq (PostOrder i request) (w, p, s) = (a, (w', p', s'))" and "\<not> adapter_failure a"
  shows "reply_like a (fst (spec_serve pe rq (PostOrder i request) m))
    \<and> same_orders (orders w') (snd (spec_serve pe rq (PostOrder i request) m))"
proof (cases "place_order_request_valid request")
  case False
  then show ?thesis using assms(4,5) by (auto simp: post_orders_def to_command_invalid)
next
  case True
  let ?command = "request_command request"
  have c: "consistent w" "ready p" using assms(1) by (simp_all add: good_def)
  obtain x p1 where pay: "authorise i (command_total ?command) p = (x, p1)" by (metis prod.exhaust)
  show ?thesis
  proof (cases x)
    case (Inl e)
    have "(\<exists>d. e = Domain (PaymentDeclinedError i d)) \<or> (\<exists>m. e = Infra (PaymentUnavailableError m))"
      using refusal [OF c(2)] pay Inl by blast
    moreover have "a = failed pe rq e" using assms(5) pay Inl by (simp add: post_orders_valid [OF True] charge_and_save_def)
    ultimately have "adapter_failure a"
      by (auto simp: adapter_failure_def failed_def on_domain_error_def on_payment_unavailable_def problem_reply_def
          status_for_def STATUS_BY_ERROR_def)
    then show ?thesis using assms(6) by simp
  next
    case (Inr auth)
    let ?ord = "order_for i ?command auth"
    obtain y w1 where y: "save ?ord w = (y, w1)" by (metis prod.exhaust)
    show ?thesis
    proof (cases y)
      case (Inl e)
      then have "a = failed pe rq e" using assms(5) pay \<open>x = Inr auth\<close> y
        by (simp add: post_orders_valid [OF True] charge_and_save_def)
      then show ?thesis using assms(3,6) y Inl plain_failure_status by (simp add: adapter_failure_def)
    next
      case saved: (Inr u)
      have a: "a = OrderReply 201 (projr (to_response ?ord)) [(''Location'', ''/api/v1/orders/'' @ uuid_str i)]" "w' = w1"
        using assms(5) pay Inr y saved by (simp_all add: post_orders_valid [OF True] charge_and_save_def)
      have "order_valid ?ord" using True by (intro order_for_valid) simp
      then have "stores (orders w) ?ord (orders w1)" using save_stores [OF c(1)] assms(2) y saved by simp
      then obtain ord' where ord': "order_eq ord' ?ord" "orders w1 = (orders w)(i \<mapsto> ord')" by (auto simp: stores_def)
      have "same_order ord' (requested_order i request)"
        using same_order_eq [OF ord'(1)] unfolding same_order_def requested_order_def
          order_for_erased [of i ?command auth "\<lparr>auth_id = []\<rparr>"] .
      then show ?thesis
        using assms(4) a ord'(2) True response_eq_requested [OF True] by (simp add: same_orders_def)
    qed
  qed
qed

lemma get_refines:
  assumes "consistent w" and "\<And>e w'. get i w = (Inl e, w') \<Longrightarrow> plain_failure e"
    and "same_orders (orders w) m" and "spec_ok m" and "answer pe rq (GetOrder i) (w, p, s) = (a, st')" and "\<not> adapter_failure a"
  shows "reply_like a (fst (spec_serve pe rq (GetOrder i) m)) \<and> snd (spec_serve pe rq (GetOrder i) m) = m"
proof (cases "orders w i")
  case (Some ord)
  then obtain ord' where m: "m i = Some ord'" "same_order ord ord'"
    using same_orders_at(1) [OF assms(3)] by blast
  have valid: "order_valid ord" "order_valid ord'"
    using keyed [OF assms(1) Some] assms(4) m(1) by (auto simp: spec_ok_def)
  obtain resp' where resp': "to_response ord' = Inr resp'" using to_response_returns [OF valid(2)] by blast
  from get_reply [OF assms(1) Some assms(5)] show ?thesis
    using assms(2,6) plain_failure_status m same_response [OF m(2) valid _ resp'] resp'
    by (auto simp: adapter_failure_def)
next
  case None
  then have m: "m i = None" using same_orders_at(2) [OF assms(3)] by simp
  obtain x w1 where g: "get i w = (x, w1)" by (metis prod.exhaust)
  show ?thesis
  proof (cases x)
    case (Inl e)
    then have "adapter_failure a"
      using assms(2,5) g plain_failure_status by (auto simp: get_orders_def get_order_def and_then_def adapter_failure_def)
    then show ?thesis using assms(6) by simp
  next
    case (Inr found)
    then have "found = None" using get_returns [OF assms(1)] g None by fastforce
    then show ?thesis using assms(5) g Inr m by (auto simp: get_orders_def get_order_def and_then_def raise_def)
  qed
qed

lemma receipt_refines:
  assumes "good (w, p, s)" and "\<And>e w'. get i w = (Inl e, w') \<Longrightarrow> plain_failure e"
    and "same_orders (orders w) m" and "answer pe rq (GetOrderReceipt i) (w, p, s) = (a, st')" and "\<not> adapter_failure a"
  shows "reply_like a (fst (spec_serve pe rq (GetOrderReceipt i) m)) \<and> snd (spec_serve pe rq (GetOrderReceipt i) m) = m"
proof -
  have c: "consistent w" using assms(1) by (simp add: good_def)
  have m: "m i = None \<longleftrightarrow> orders w i = None" by (rule same_orders_at(2) [OF assms(3)])
  obtain x ws where run: "get_orders_receipt get rget rput i (w, s) = (x, ws)" by (metis prod.exhaust)
  obtain w1 s1 where ws: "ws = (w1, s1)" by (metis prod.exhaust)
  obtain y where y: "get_receipt get rget rput i (w, s) = (y, ws)" "x = map_sum id (\<lambda>c. (c, RECEIPT_MEDIA_TYPE)) y"
    using get_orders_receipt_run [OF run] by blast
  show ?thesis
  proof (cases y)
    case (Inl e)
    then have a: "a = failed pe rq e" using assms(4) run y(2) ws by simp
    have "e = Domain (OrderNotFoundError i) \<and> orders w i = None"
      using get_receipt_errors [OF c y(1) [unfolded Inl]] assms(2,5) plain_failure_status storage_status
      by (auto simp: a adapter_failure_def)
    then show ?thesis using a m by simp
  next
    case (Inr content)
    then have "a = BytesReply 200 content RECEIPT_MEDIA_TYPE" using assms(4) run y(2) ws by auto
    moreover from this have "orders w i \<noteq> None"
      using receipt_reply [OF assms(1), of pe rq i 200 content RECEIPT_MEDIA_TYPE "fst st'" "fst (snd st')" "snd (snd st')"] assms(4)
      by auto
    ultimately show ?thesis using m by auto
  qed
qed

end

lemma map_le_same_dom: "m \<subseteq>\<^sub>m m' \<Longrightarrow> dom m' \<subseteq> dom m \<Longrightarrow> m' = m"
  by (metis map_le_antisym map_le_def domIff subset_iff)

context order_service
begin

lemma serve_refines:
  assumes "good st" and "fresh_draws (orders (fst st)) [r]"
    and "\<And>i e w w'. get i w = (Inl e, w') \<Longrightarrow> plain_failure e" and "\<And>ord e w w'. save ord w = (Inl e, w') \<Longrightarrow> plain_failure e"
    and "same_orders (orders (fst st)) m" and "spec_ok m" and "answer pe rq r st = (a, st')" and "\<not> adapter_failure a"
  shows "reply_like a (fst (spec_serve pe rq r m)) \<and> same_orders (orders (fst st')) (snd (spec_serve pe rq r m))"
proof -
  obtain w p s where st: "st = (w, p, s)" by (metis prod.exhaust)
  obtain w' p' s' where st': "st' = (w', p', s')" by (metis prod.exhaust)
  have c: "consistent w" using assms(1) by (simp add: good_def st)
  have same: "orders w' = orders w" if "drawn [r] = []"
    using serve_good [OF assms(1,2,7)] that by (intro map_le_same_dom) (auto simp: st st')
  show ?thesis
  proof (cases r)
    case (PostOrder i request)
    have free: "orders w i = None" using assms(2) PostOrder by (simp add: fresh_draws_def st)
    have "reply_like a (fst (spec_serve pe rq (PostOrder i request) m))
        \<and> same_orders (orders w') (snd (spec_serve pe rq (PostOrder i request) m))"
      by (rule post_refines [OF assms(1) [unfolded st] free _ _ assms(7) [unfolded st st' PostOrder] assms(8)])
        (erule assms(4), use assms(5) in \<open>simp add: st\<close>)
    then show ?thesis using PostOrder st' by simp
  next
    case (GetOrder i)
    have "reply_like a (fst (spec_serve pe rq (GetOrder i) m)) \<and> snd (spec_serve pe rq (GetOrder i) m) = m"
      by (rule get_refines [OF c _ _ assms(6) assms(7) [unfolded st GetOrder] assms(8)])
        (erule assms(3), use assms(5) in \<open>simp add: st\<close>)
    then show ?thesis using GetOrder same assms(5) by (simp add: st st')
  next
    case (GetOrderReceipt i)
    have "reply_like a (fst (spec_serve pe rq (GetOrderReceipt i) m)) \<and> snd (spec_serve pe rq (GetOrderReceipt i) m) = m"
      by (rule receipt_refines [OF assms(1) [unfolded st] _ _ assms(7) [unfolded st GetOrderReceipt] assms(8)])
        (erule assms(3), use assms(5) in \<open>simp add: st\<close>)
    then show ?thesis using GetOrderReceipt same assms(5) by (simp add: st st')
  qed
qed

lemma serve_all_refines:
  assumes "good st" and "fresh_draws (orders (fst st)) rs"
    and "\<And>i e w w'. get i w = (Inl e, w') \<Longrightarrow> plain_failure e" and "\<And>ord e w w'. save ord w = (Inl e, w') \<Longrightarrow> plain_failure e"
    and "same_orders (orders (fst st)) m" and "spec_ok m" and "answer_all pe ctx rs st = (as, st')" and "list_all (\<lambda>a. \<not> adapter_failure a) as"
  shows "list_all2 reply_like as (fst (spec_serve_all pe ctx rs m)) \<and> same_orders (orders (fst st')) (snd (spec_serve_all pe ctx rs m))"
  using assms(1,2,5-8)
proof (induction rs arbitrary: st as m)
  case Nil
  then show ?case by simp
next
  case (Cons r rs)
  obtain a st1 where one: "answer pe (ctx r) r st = (a, st1)" by (metis prod.exhaust)
  obtain as1 where rest: "answer_all pe ctx rs st1 = (as1, st')" and as: "as = a # as1"
    using Cons.prems(5) one by (auto split: prod.splits)
  obtain a' m1 where spec1: "spec_serve pe (ctx r) r m = (a', m1)" by (metis prod.exhaust)
  have split: "set (drawn (r # rs)) = set (drawn [r]) \<union> set (drawn rs)"
    "distinct (drawn (r # rs)) \<Longrightarrow> set (drawn [r]) \<inter> set (drawn rs) = {} \<and> distinct (drawn rs) \<and> distinct (drawn [r])"
    by (cases r; auto)+
  have fresh1: "fresh_draws (orders (fst st)) [r]" using Cons.prems(2) split by (auto simp: fresh_draws_def)
  have step: "good st1" "dom (orders (fst st1)) \<subseteq> dom (orders (fst st)) \<union> set (drawn [r])"
    using serve_good [OF Cons.prems(1) fresh1 one] by blast+
  have fresh: "fresh_draws (orders (fst st1)) rs"
    using Cons.prems(2) split step(2) by (auto simp: fresh_draws_def domIff)
  have "reply_like a (fst (spec_serve pe (ctx r) r m)) \<and> same_orders (orders (fst st1)) (snd (spec_serve pe (ctx r) r m))"
    by (rule serve_refines [OF Cons.prems(1) fresh1 _ _ Cons.prems(3,4) one]) 
      (erule assms(3), erule assms(4), use Cons.prems(6) as in simp)
  moreover have "spec_ok m1" using spec_serve_ok [OF Cons.prems(4), of pe "ctx r" r] spec1 by simp
  ultimately show ?case
    using Cons.IH [OF step(1) fresh _ _ rest, of m1] Cons.prems(6) as spec1
    by (cases "spec_serve_all pe ctx rs m1") simp
qed

end

section \<open>The full stack without faults\<close>

text \<open>A service whose repository can always be read answers reads with 200 or 404.\<close>

context order_service
begin

lemma reads_answered:
  assumes "good st" and "\<And>i e w w'. consistent w \<Longrightarrow> get i w \<noteq> (Inl e, w')"
    and "answer_all pe ctx (map GetOrder is) st = (as, st')"
  shows "list_all (\<lambda>a. \<not> adapter_failure a) as"
  using assms(1,3)
proof (induction "is" arbitrary: st as)
  case Nil
  then show ?case by simp
next
  case (Cons i "is")
  obtain a st1 where one: "answer pe (ctx (GetOrder i)) (GetOrder i) st = (a, st1)" by (metis prod.exhaust)
  obtain as1 where rest: "answer_all pe ctx (map GetOrder is) st1 = (as1, st')" and as: "as = a # as1"
    using Cons.prems(2) one by (auto split: prod.splits)
  obtain w p s where st: "st = (w, p, s)" by (metis prod.exhaust)
  have c: "consistent w" using Cons.prems(1) by (simp add: good_def st)
  obtain found w1 where g: "get i w = (Inr found, w1)" using assms(2) [OF c] by (metis prod.exhaust sum.exhaust)
  have "reply_code a \<in> {200, 404}"
  proof (cases "orders w i")
    case (Some ord)
    then show ?thesis using get_reply [OF c Some one [unfolded st]] assms(2) [OF c] by auto
  next
    case None
    then have "found = None" using get_returns [OF c g] by simp
    then show ?thesis
      using one g not_found_status by (auto simp: st get_orders_def get_order_def and_then_def raise_def)
  qed
  moreover have "good st1"
    by (rule conjunct1 [OF serve_good [OF Cons.prems(1) _ one]]) (simp add: fresh_draws_def)
  ultimately show ?case using Cons.IH [OF _ rest] as by (auto simp: adapter_failure_def)
qed

end

lemma to_domain_rejects: "to_domain row ls = Inl e \<Longrightarrow> e = Lib PydanticValidationError"
  by (auto simp: to_domain_def line_to_domain_def mk_money_def mk_order_line_def mk_order_def Let_def try_then_def
      dest!: map_sum_list_Inl split: sum.splits if_splits)

abbreviation "lone_get \<equiv> pg_get lone_connect (lone_select find_order) (lone_select find_lines)"

lemma lone_get_load:
  "lone_get i t = (case load t i of Inl e \<Rightarrow> Inl (if e = Lib PydanticValidationError
      then Infra (CorruptPersistedDataError (''order '' @ uuid_str i @ '' failed domain validation on load'')) else e)
     | Inr r \<Rightarrow> Inr r, t)"
  by (auto simp: pg_get_def lone_connect_def lone_select_def see_def Let_def and_then_def ret_def load_def lift_sum_def
      read_aggregate_def READ_ISOLATION_LEVEL_def try_then_def split: option.splits sum.splits)

lemma lone_get_plain: "lone_get i t = (Inl e, t') \<Longrightarrow> plain_failure e"
  by (auto simp: lone_get_load load_def try_then_def plain_failure_def dest!: to_domain_rejects
      split: sum.splits option.splits if_splits)

lemma lone_save_plain: "pg_save lone_transact ord t = (Inl e, t') \<Longrightarrow> plain_failure e"
  by (auto simp: pg_save_def lone_transact_def catch_def raise_def plain_failure_def split: option.splits)

lemma cached_save_plain:
  "cached_save (pg_save lone_transact) rds_del ord w = (Inl e, w') \<Longrightarrow> plain_failure e"
  by (cases w) (auto simp: cached_save_def and_then_def on_fst_def on_snd_def cache_invalidate_def catch_def warn_def
      rds_del_def split: prod.splits sum.splits if_splits dest: lone_save_plain)

abbreviation "stack_get \<equiv> cached_get lone_get rds_get rds_set codec_load codec_dump 300"
abbreviation "stack_save \<equiv> cached_save (pg_save lone_transact) rds_del"
abbreviation "stack_orders \<equiv> \<lambda>(d, c, lg). db_orders_of (id d)"
abbreviation "stack_consistent \<equiv> \<lambda>(d, c, lg). db_ok (id d) \<and> cache_coherent codec_load (db_orders_of (id d)) (rds_live c)"
abbreviation "stack_authorise \<equiv> http_authorise net_clock (retry_n 3) sim_post"
abbreviation "stack_rget \<equiv> s3_get sim_get_object ''receipts''"
abbreviation "stack_rput \<equiv> s3_put sim_put_object ''receipts''"
abbreviation "stack_receipts \<equiv> sim_s3.stored"

lemma stack_get_plain: "stack_get i w = (Inl e, w') \<Longrightarrow> plain_failure e"
  using pg_cache.cached_get_fails_open [of 300 i "fst w" "fst (snd w)" "snd (snd w)" e "fst w'" "fst (snd w')" "snd (snd w')"]
    lone_get_plain by simp

lemma stack_get_returns:
  assumes "stack_consistent w"
  shows "stack_get i w \<noteq> (Inl e, w')"
proof
  assume "stack_get i w = (Inl e, w')"
  then have "lone_get i (fst w) = (Inl e, fst w')"
    using pg_cache.cached_get_fails_open [of 300 i "fst w" "fst (snd w)" "snd (snd w)" e "fst w'" "fst (snd w')" "snd (snd w')"] by simp
  moreover obtain r where "load (fst w) i = Inr r" using assms by (cases w) (auto simp: db_ok_def)
  ultimately show False by (simp add: lone_get_load)
qed

text \<open>An empty database, an empty cache and bucket, and a provider that will authorise once.\<close>

definition stack_start where
  "stack_start =
     ((\<lparr>db_orders = [], db_lines = []\<rparr>, \<lparr>rds_entries = Map.empty, rds_now = 0, rds_up = []\<rparr>, [] :: log_line list),
      ((answering_net \<lparr>status_code = 201, body = Some (JObj [(''id'', JStr ''auth_1'')])\<rparr>, sample_breaker), [] :: log_line list),
      (\<lparr>s3_objects = Map.empty, s3_faults = []\<rparr>, [] :: log_line list))"

lemma stack_start_ok: "service_ok stack_consistent (\<lambda>g. True) stack_orders stack_receipts stack_start"
  by (auto simp: service_ok_def stack_start_def db_ok_empty cache_coherent_def rds_live_def sim_s3.stored_def)

lemma stack_start_empty: "stack_orders (fst stack_start) = Map.empty"
  by (rule ext) (simp add: stack_start_def db_orders_of_def load_def find_order_def)

lemma stack_start_fresh: "distinct (drawn rs) \<Longrightarrow> fresh_draws (stack_orders (fst stack_start)) rs"
  unfolding fresh_draws_def stack_start_empty by simp

lemma stack_post:
  "\<exists>resp st. serve stack_get stack_save stack_authorise stack_rget stack_rput pe rq (PostOrder 1 basket_request) stack_start
     = (OrderReply 201 resp [(''Location'', ''/api/v1/orders/'' @ uuid_str 1)], st)"
proof -
  let ?paid = "order_for 1 basket_command \<lparr>auth_id = ''auth_1''\<rparr>"
  obtain w p s where start: "stack_start = (w, p, s)" by (metis prod.exhaust)
  have "\<exists>g. stack_authorise 1 (command_total basket_command) (fst (snd stack_start)) = (Inr \<lparr>auth_id = ''auth_1''\<rparr>, g)"
    by (simp add: stack_start_def run_net mk_authorisation_def strip_def is_space_def)
  then obtain g where pay: "stack_authorise 1 (command_total basket_command) p = (Inr \<lparr>auth_id = ''auth_1''\<rparr>, g)"
    by (auto simp: start)
  have valid: "order_valid ?paid" by (rule order_for_valid [OF basket_command_valid])
  have "order_texts_ok ?paid" "int (length (lines ?paid)) \<le> 2 ^ 31"
    by (simp_all add: order_for_def basket_command_def order_texts_ok_def text_ok_def command_lines_def line_of_def)
  then obtain t where t: "apply_writes (save_statements ?paid) \<lparr>db_orders = [], db_lines = []\<rparr> = Some t"
    using save_accepted_iff [OF valid] by blast
  have "\<exists>w'. stack_save ?paid (fst stack_start) = (Inr (), w')"
    using t by (simp add: stack_start_def cached_save_def pg_save_def lone_transact_def catch_def and_then_def on_fst_def on_snd_def
        cache_invalidate_def rds_del_def rds_answers_def)
  then obtain w' where saved: "stack_save ?paid w = (Inr (), w')" by (auto simp: start)
  show ?thesis
    unfolding start serve.simps post_orders_valid [OF basket_request_valid] basket_request_command charge_and_save_def
    by (cases w') (simp add: pay saved)
qed

lemma same_orders_dom: "same_orders m m' \<Longrightarrow> dom m' = dom m"
  using same_orders_at(2) by (auto simp: dom_def)

lemma stack_run:
  "\<exists>as st'. serve_all stack_get stack_save stack_authorise stack_rget stack_rput pe ctx
       (PostOrder 1 basket_request # map GetOrder is) stack_start = (as, st')
     \<and> list_all (\<lambda>a. \<not> adapter_failure a) as"
proof -
  obtain resp st1 where one: "serve stack_get stack_save stack_authorise stack_rget stack_rput pe (ctx (PostOrder 1 basket_request))
      (PostOrder 1 basket_request) stack_start = (OrderReply 201 resp [(''Location'', ''/api/v1/orders/'' @ uuid_str 1)], st1)"
    using stack_post by blast
  obtain as st' where rest: "serve_all stack_get stack_save stack_authorise stack_rget stack_rput pe ctx (map GetOrder is) st1 = (as, st')"
    by (metis prod.exhaust)
  have "service_ok stack_consistent (\<lambda>g. True) stack_orders stack_receipts st1"
    by (rule conjunct1 [OF full_stack.serve_good [OF stack_start_ok _ one]]) (rule stack_start_fresh, simp)
  then have quiet: "list_all (\<lambda>a. \<not> adapter_failure a) as"
    using full_stack.reads_answered [OF _ stack_get_returns rest] by blast
  have "serve_all stack_get stack_save stack_authorise stack_rget stack_rput pe ctx (PostOrder 1 basket_request # map GetOrder is) stack_start
      = (OrderReply 201 resp [(''Location'', ''/api/v1/orders/'' @ uuid_str 1)] # as, st')"
    using one rest by simp
  moreover have "list_all (\<lambda>a. \<not> adapter_failure a) (OrderReply 201 resp [(''Location'', ''/api/v1/orders/'' @ uuid_str 1)] # as)"
    using quiet by (simp add: adapter_failure_def)
  ultimately show ?thesis by blast
qed

lemma mem_run:
  "\<exists>as st'. mem_serve_all pe ctx (PostOrder 1 basket_request # map GetOrder is) mem_start = (as, st')
     \<and> list_all (\<lambda>a. \<not> adapter_failure a) as"
proof -
  obtain resp st1 where one: "mem_serve pe (ctx (PostOrder 1 basket_request)) (PostOrder 1 basket_request) mem_start
      = (OrderReply 201 resp [(''Location'', ''/api/v1/orders/'' @ uuid_str 1)], st1)"
    using post_basket by blast
  obtain as st' where rest: "mem_serve_all pe ctx (map GetOrder is) st1 = (as, st')" by (metis prod.exhaust)
  have "mem_service_ok st1"
    by (rule conjunct1 [OF mem_service.serve_good [OF mem_start_ok _ one]]) (rule mem_start_fresh, simp)
  then have quiet: "list_all (\<lambda>a. \<not> adapter_failure a) as"
    using mem_service.reads_answered [OF _ _ rest] by (simp add: mem_order_get_def)
  have "mem_serve_all pe ctx (PostOrder 1 basket_request # map GetOrder is) mem_start
      = (OrderReply 201 resp [(''Location'', ''/api/v1/orders/'' @ uuid_str 1)] # as, st')"
    using one rest by simp
  moreover have "list_all (\<lambda>a. \<not> adapter_failure a) (OrderReply 201 resp [(''Location'', ''/api/v1/orders/'' @ uuid_str 1)] # as)"
    using quiet by (simp add: adapter_failure_def)
  ultimately show ?thesis by blast
qed

section \<open>Properties\<close>



lemma reply_like_sym: "reply_like a b \<Longrightarrow> reply_like b a"
  by (cases "(a, b)" rule: reply_like.cases)
    (auto simp: response_eq_def line_out_eq_def money_out_eq_def dec_eq_def list_all2_conv_all_nth)

lemma reply_like_trans: "reply_like a b \<Longrightarrow> reply_like b c \<Longrightarrow> reply_like a c"
  by (cases a; cases b; cases c)
    (auto simp: response_eq_def line_out_eq_def money_out_eq_def dec_eq_def list_all2_conv_all_nth)

lemma same_orders_sym: "same_orders m m' \<Longrightarrow> same_orders m' m"
proof -
  have "same_order b a" if "same_order a b" for a b
    using that order_eq_sym by (simp add: same_order_def)
  then have "rel_option same_order y x" if "rel_option same_order x y" for x y
    using that by (cases x; cases y) simp_all
  then show "same_orders m m' \<Longrightarrow> same_orders m' m" by (simp add: same_orders_def)
qed

lemma same_orders_trans: "same_orders m m' \<Longrightarrow> same_orders m' m'' \<Longrightarrow> same_orders m m''"
proof -
  have "order_eq a c" if "order_eq a b" "order_eq b c" for a b c
    using that by (auto simp: order_eq_def order_line_eq_def money_eq_def dec_eq_def list_all2_conv_all_nth)
  then have "same_order a c" if "same_order a b" "same_order b c" for a b c
    using that unfolding same_order_def by blast
  then have "rel_option same_order x z" if "rel_option same_order x y" "rel_option same_order y z" for x y z
    using that by (cases x; cases y; cases z) simp_all
  then show "same_orders m m' \<Longrightarrow> same_orders m' m'' \<Longrightarrow> same_orders m m''"
    unfolding same_orders_def by blast
qed



end
