(* ===== verification/Interleaved.thy ===== *)
theory Interleaved
  imports OrderService
begin

text \<open>
  Requests in flight at the same time. Every route is an \<open>async\<close> function that can be suspended only
  where it awaits a port, so what runs between two awaits is one step of its request, and the event
  loop may take the steps of different requests in any order. A request is at a \<open>stage\<close> that names the
  call it makes next; \<open>advance\<close> makes that call and runs up to the next one; \<open>play\<close> follows a schedule,
  the list of the requests' positions in the order the event loop resumes them. A request that a schedule
  stops resuming is one that was cancelled between two calls.

  \<open>turns_serve_all\<close> shows that the schedule which finishes each request before it starts the next one is
  exactly \<open>serve_all\<close> of OrderService. The invariant \<open>play_ok\<close> holds for every schedule. One call to a
  port is one step here; the interleaving inside the cached repository, whose calls are several, is the
  subject of CacheRepo.
\<close>

section \<open>Requests as stages\<close>

datatype stage =
    Charging uuid place_order_request
  | Saving order
  | Reading uuid
  | ReadingFor uuid
  | LookingUp uuid order
  | Keeping uuid string
  | Replied api_reply

fun arrived :: "api_request \<Rightarrow> stage" where
  "arrived (PostOrder i request) = Charging i request"
| "arrived (GetOrder i) = Reading i"
| "arrived (GetOrderReceipt i) = ReadingFor i"

definition or_fail :: "string \<Rightarrow> request_ctx \<Rightarrow> exn + 'a \<Rightarrow> ('a \<Rightarrow> stage) \<Rightarrow> stage" where
  "or_fail pe rq r k = (case r of Inl e \<Rightarrow> Replied (failed pe rq e) | Inr x \<Rightarrow> k x)"

lemma or_fail_simps [simp]:
  "or_fail pe rq (Inl e) k = Replied (failed pe rq e)"
  "or_fail pe rq (Inr x) k = k x"
  by (simp_all add: or_fail_def)

text \<open>\<open>PlaceOrder\<close> before and after the authorisation, and the test both readers make.\<close>

definition charge_for :: "place_order_request \<Rightarrow> exn + place_order_command \<times> order_line list \<times> money" where
  "charge_for request =
     try_then (to_command request) (\<lambda>command.
     try_then (as_defect (assemble command)) (\<lambda>(ls, t). Inr (command, ls, t)))"

definition charged ::
  "uuid \<Rightarrow> place_order_command \<Rightarrow> order_line list \<Rightarrow> money \<Rightarrow> authorisation \<Rightarrow> exn + order" where
  "charged i command ls t authorisation =
     as_defect (mk_order i (cmd_customer_id command) ls t None (Some (auth_id authorisation)))"

definition found_order :: "uuid \<Rightarrow> order option \<Rightarrow> exn + order" where
  "found_order i found = (case found of None \<Rightarrow> Inl (Domain (OrderNotFoundError i)) | Some ord \<Rightarrow> Inr ord)"

lemma charge_for_valid:
  assumes "place_order_request_valid request"
  shows "charge_for request = Inr (request_command request, command_lines (request_command request),
    command_total (request_command request))"
  using assms by (simp add: charge_for_def to_command_valid assemble_returns as_defect_def)

lemma charged_valid:
  "place_order_command_valid command \<Longrightarrow>
     charged i command (command_lines command) (command_total command) authorisation = Inr (order_for i command authorisation)"
  by (simp add: charged_def mk_order_for as_defect_def)

text \<open>One step: the call the stage is at, and everything up to the next call.\<close>

fun advance ::
  "(uuid \<Rightarrow> ('w, exn, order option) io) \<Rightarrow> (order \<Rightarrow> ('w, exn, unit) io) \<Rightarrow>
   (uuid \<Rightarrow> money \<Rightarrow> ('p, exn, authorisation) io) \<Rightarrow>
   (uuid \<Rightarrow> ('s, exn, string option) io) \<Rightarrow> (uuid \<Rightarrow> string \<Rightarrow> ('s, exn, unit) io) \<Rightarrow>
   string \<Rightarrow> request_ctx \<Rightarrow> stage \<Rightarrow> 'w \<times> 'p \<times> 's \<Rightarrow> stage \<times> 'w \<times> 'p \<times> 's" where
  "advance get save authorise rget rput pe rq (Charging i request) (w, p, s) =
     (case charge_for request of
        Inl e \<Rightarrow> (Replied (failed pe rq e), (w, p, s))
      | Inr (command, ls, t) \<Rightarrow>
          (case authorise i t p of (r, p') \<Rightarrow>
             (or_fail pe rq (try_then r (charged i command ls t)) Saving, (w, p', s))))"
| "advance get save authorise rget rput pe rq (Saving ord) (w, p, s) =
     (case save ord w of (r, w') \<Rightarrow>
        (or_fail pe rq (try_then r (\<lambda>_. to_response ord))
           (\<lambda>resp. Replied (OrderReply 201 resp [(''Location'', ''/api/v1/orders/'' @ uuid_str (oid ord))])),
         (w', p, s)))"
| "advance get save authorise rget rput pe rq (Reading i) (w, p, s) =
     (case get i w of (r, w') \<Rightarrow>
        (or_fail pe rq (try_then r (\<lambda>found. try_then (found_order i found) to_response))
           (\<lambda>resp. Replied (OrderReply 200 resp [])), (w', p, s)))"
| "advance get save authorise rget rput pe rq (ReadingFor i) (w, p, s) =
     (case get i w of (r, w') \<Rightarrow>
        (or_fail pe rq (try_then r (found_order i)) (LookingUp i), (w', p, s)))"
| "advance get save authorise rget rput pe rq (LookingUp i ord) (w, p, s) =
     (case rget i s of (r, s') \<Rightarrow>
        (or_fail pe rq r (\<lambda>stored. case stored of
             Some content \<Rightarrow> Replied (BytesReply 200 content RECEIPT_MEDIA_TYPE)
           | None \<Rightarrow> or_fail pe rq (render_receipt ord) (Keeping i)), (w, p, s')))"
| "advance get save authorise rget rput pe rq (Keeping i content) (w, p, s) =
     (case rput i content s of (r, s') \<Rightarrow>
        (or_fail pe rq r (\<lambda>_. Replied (BytesReply 200 content RECEIPT_MEDIA_TYPE)), (w, p, s')))"
| "advance get save authorise rget rput pe rq (Replied a) st = (Replied a, st)"

text \<open>A schedule: position after position, each advances the request that is there, if one is.\<close>

fun play ::
  "(uuid \<Rightarrow> ('w, exn, order option) io) \<Rightarrow> (order \<Rightarrow> ('w, exn, unit) io) \<Rightarrow>
   (uuid \<Rightarrow> money \<Rightarrow> ('p, exn, authorisation) io) \<Rightarrow>
   (uuid \<Rightarrow> ('s, exn, string option) io) \<Rightarrow> (uuid \<Rightarrow> string \<Rightarrow> ('s, exn, unit) io) \<Rightarrow>
   string \<Rightarrow> (nat \<Rightarrow> request_ctx) \<Rightarrow> nat list \<Rightarrow> stage list \<times> 'w \<times> 'p \<times> 's \<Rightarrow> stage list \<times> 'w \<times> 'p \<times> 's" where
  "play get save authorise rget rput pe ctx [] (ss, st) = (ss, st)"
| "play get save authorise rget rput pe ctx (k # ks) (ss, st) =
     (if k < length ss
      then (case advance get save authorise rget rput pe (ctx k) (ss ! k) st of (s', st') \<Rightarrow>
              play get save authorise rget rput pe ctx ks (ss[k := s'], st'))
      else play get save authorise rget rput pe ctx ks (ss, st))"

lemma play_append:
  "play get save authorise rget rput pe ctx (ks @ ks') x =
     play get save authorise rget rput pe ctx ks' (play get save authorise rget rput pe ctx ks x)"
  by (induction ks arbitrary: x) (auto split: prod.splits)

section \<open>One request alone\<close>

text \<open>The steps of one request, with nothing in between, are its route.\<close>

lemma post_alone:
  assumes "advance get save authorise rget rput pe rq (Charging i request) (w, p, s) = (g1, st1)"
  shows "advance get save authorise rget rput pe rq g1 st1
    = (case serve get save authorise rget rput pe rq (PostOrder i request) (w, p, s) of (a, st') \<Rightarrow> (Replied a, st'))"
proof (cases "charge_for request")
  case (Inl e)
  then show ?thesis
    using assms
    by (auto simp: charge_for_def post_orders_def place_order_def and_then_def lift_sum_def try_then_Inl_iff)
next
  case (Inr x)
  obtain command ls t where x: "x = (command, ls, t)" by (metis prod.exhaust)
  have c: "to_command request = Inr command" "as_defect (assemble command) = Inr (ls, t)"
    using Inr x by (auto simp: charge_for_def try_then_Inr_iff)
  obtain r p' where r: "authorise i t p = (r, p')" by (metis prod.exhaust)
  have g1: "g1 = or_fail pe rq (try_then r (charged i command ls t)) Saving" "st1 = (w, p', s)"
    using assms Inr x r by simp_all
  show ?thesis
  proof (cases "try_then r (charged i command ls t)")
    case (Inl e)
    then show ?thesis
      using g1 c r
      by (cases r) (auto simp: charged_def post_orders_def place_order_def and_then_def lift_sum_def on_snd_def)
  next
    case (Inr ord)
    obtain y w' where y: "save ord w = (y, w')" by (metis prod.exhaust)
    obtain auth where auth: "r = Inr auth" "charged i command ls t auth = Inr ord"
      using Inr by (auto simp: try_then_Inr_iff)
    have "post_orders authorise save i request (w, p) =
        (case y of Inl e \<Rightarrow> (Inl e, (w', p'))
         | Inr u \<Rightarrow> (map_sum id (\<lambda>resp. (resp, ''/api/v1/orders/'' @ uuid_str (oid ord))) (to_response ord), (w', p')))"
      using c r auth y
      by (cases y; cases "to_response ord")
        (simp_all add: charged_def post_orders_def place_order_def and_then_def lift_sum_def on_snd_def on_fst_def ret_def)
    then show ?thesis
      using g1 Inr y by (cases y; cases "to_response ord") simp_all
  qed
qed

lemma read_alone:
  "advance get save authorise rget rput pe rq (Reading i) (w, p, s)
    = (case serve get save authorise rget rput pe rq (GetOrder i) (w, p, s) of (a, st') \<Rightarrow> (Replied a, st'))"
proof -
  obtain r w' where r: "get i w = (r, w')" by (metis prod.exhaust)
  have "get_orders get i w = (try_then r (\<lambda>found. try_then (found_order i found) to_response), w')"
    using r by (auto simp: get_orders_def get_order_def and_then_def found_order_def raise_def ret_def lift_sum_def
        split: sum.splits option.splits)
  then show ?thesis
    using r by (cases "try_then r (\<lambda>found. try_then (found_order i found) to_response)") simp_all
qed

lemma receipt_alone:
  assumes "advance get save authorise rget rput pe rq (ReadingFor i) (w, p, s) = (g1, st1)"
    and "advance get save authorise rget rput pe rq g1 st1 = (g2, st2)"
  shows "advance get save authorise rget rput pe rq g2 st2
    = (case serve get save authorise rget rput pe rq (GetOrderReceipt i) (w, p, s) of (a, st') \<Rightarrow> (Replied a, st'))"
proof -
  obtain r w' where r: "get i w = (r, w')" by (metis prod.exhaust)
  let ?found = "try_then r (found_order i)"
  have g1: "g1 = or_fail pe rq ?found (LookingUp i)" "st1 = (w', p, s)" using assms(1) r by simp_all
  show ?thesis
  proof (cases ?found)
    case (Inl e)
    then have "get_orders_receipt get rget rput i (w, s) = (Inl e, (w', s))"
      using r by (auto simp: try_then_Inl_iff found_order_def get_orders_receipt_def get_receipt_def and_then_def on_fst_def
          raise_def split: option.splits)
    then show ?thesis using assms(2) g1 Inl by auto
  next
    case (Inr ord)
    then have found: "r = Inr (Some ord)" by (auto simp: try_then_Inr_iff found_order_def split: option.splits)
    obtain y s' where y: "rget i s = (y, s')" by (metis prod.exhaust)
    note run = get_orders_receipt_def get_receipt_def and_then_def on_fst_def on_snd_def lift_sum_def ret_def
    show ?thesis
    proof (cases "y = Inr None")
      case False
      then show ?thesis
        using assms(2) g1 Inr r found y by (cases y) (auto simp: run split: option.splits)
    next
      case True
      obtain z s2 where z: "rput i (projr (render_receipt ord)) s' = (z, s2)" by (metis prod.exhaust)
      show ?thesis
        using assms(2) g1 Inr r found y True z by (cases "render_receipt ord"; cases z) (auto simp: run)
    qed
  qed
qed

text \<open>Three steps are enough for every route; further steps of a request that has its reply do nothing.\<close>

fun steps ::
  "(stage \<Rightarrow> 'st \<Rightarrow> stage \<times> 'st) \<Rightarrow> nat \<Rightarrow> stage \<Rightarrow> 'st \<Rightarrow> stage \<times> 'st" where
  "steps f 0 g st = (g, st)"
| "steps f (Suc n) g st = (case f g st of (g', st') \<Rightarrow> steps f n g' st')"

lemma alone:
  "steps (advance get save authorise rget rput pe rq) 3 (arrived r) st
    = (case serve get save authorise rget rput pe rq r st of (a, st') \<Rightarrow> (Replied a, st'))"
proof -
  obtain w p s where st: "st = (w, p, s)" by (metis prod.exhaust)
  obtain g1 st1 where one: "advance get save authorise rget rput pe rq (arrived r) st = (g1, st1)" by (metis prod.exhaust)
  obtain g2 st2 where two: "advance get save authorise rget rput pe rq g1 st1 = (g2, st2)" by (metis prod.exhaust)
  obtain a st' where a: "serve get save authorise rget rput pe rq r st = (a, st')" by (metis prod.exhaust)
  have "advance get save authorise rget rput pe rq g2 st2 = (Replied a, st')"
  proof (cases r)
    case (PostOrder i request)
    then have "advance get save authorise rget rput pe rq g1 st1 = (Replied a, st')"
      using post_alone [OF one [unfolded PostOrder arrived.simps st]] a by (simp add: st)
    then have "Replied a = g2" "st' = st2" using two by simp_all
    then show ?thesis by (metis advance.simps(7))
  next
    case (GetOrder i)
    then have "g1 = Replied a" "st1 = st'" using one a by (simp_all add: st read_alone del: advance.simps)
    moreover from this have "Replied a = g2" "st' = st2" using two by simp_all
    ultimately show ?thesis by (metis advance.simps(7))
  next
    case (GetOrderReceipt i)
    then show ?thesis using receipt_alone [OF one [unfolded GetOrderReceipt arrived.simps st] two] a by (simp add: st)
  qed
  then show ?thesis using one two a by (simp add: numeral_3_eq_3)
qed

lemma play_replicate:
  "k < length ss \<Longrightarrow> play get save authorise rget rput pe ctx (replicate n k) (ss, st)
    = (case steps (advance get save authorise rget rput pe (ctx k)) n (ss ! k) st of (g, st') \<Rightarrow> (ss[k := g], st'))"
  by (induction n arbitrary: ss st) (auto split: prod.splits)

text \<open>Every request finished before the next one starts.\<close>

definition turns :: "nat \<Rightarrow> nat list" where
  "turns n = concat (map (replicate 3) [0..<n])"

lemma play_turns:
  assumes "\<forall>k < length rs. ctx (length finished + k) = c (rs ! k)"
  shows "play get save authorise rget rput pe ctx (concat (map (replicate 3) [length finished..<length finished + length rs]))
      (finished @ map arrived rs, st)
    = (case serve_all get save authorise rget rput pe c rs st of (as, st') \<Rightarrow> (finished @ map Replied as, st'))"
  using assms
proof (induction rs arbitrary: finished st)
  case Nil
  then show ?case by simp
next
  case (Cons r rs)
  let ?k = "length finished"
  obtain a st1 where one: "serve get save authorise rget rput pe (c r) r st = (a, st1)" by (metis prod.exhaust)
  have "ctx ?k = c r" using Cons.prems by force
  then have first: "play get save authorise rget rput pe ctx (replicate 3 ?k) (finished @ map arrived (r # rs), st)
      = ((finished @ [Replied a]) @ map arrived rs, st1)"
    using alone [of get save authorise rget rput pe "c r" r st] one by (simp add: play_replicate nth_append)
  have "\<forall>k < length rs. ctx (length (finished @ [Replied a]) + k) = c (rs ! k)"
    using Cons.prems by (metis Suc_less_eq add_Suc_shift length_Cons length_append_singleton nth_Cons_Suc)
  note rest = Cons.IH [OF this, of st1]
  have "[?k..<?k + length (r # rs)] = ?k # [length (finished @ [Replied a])..<length (finished @ [Replied a]) + length rs]"
    by (simp add: upt_rec)
  then show ?case
    using rest one first by (simp add: play_append split: prod.splits del: upt_Suc)
qed

section \<open>What holds at every stage\<close>

text \<open>What a reply promises of its request, over the orders the repository holds.\<close>

fun answers :: "(uuid \<rightharpoonup> order) \<Rightarrow> api_request \<Rightarrow> api_reply \<Rightarrow> bool" where
  "answers m (PostOrder i request) (OrderReply code resp hs) \<longleftrightarrow>
     code = 201 \<and> hs = [(''Location'', ''/api/v1/orders/'' @ uuid_str i)] \<and> out_id resp = i
     \<and> (case m i of None \<Rightarrow> False
        | Some ord \<Rightarrow> (case to_response ord of Inl e \<Rightarrow> False | Inr resp' \<Rightarrow> response_eq resp' resp))"
| "answers m (GetOrder i) (OrderReply code resp hs) \<longleftrightarrow>
     code = 200 \<and> hs = [] \<and> (case m i of None \<Rightarrow> False | Some ord \<Rightarrow> to_response ord = Inr resp)"
| "answers m (GetOrderReceipt i) (BytesReply code content media) \<longleftrightarrow>
     code = 200 \<and> media = RECEIPT_MEDIA_TYPE
     \<and> (case m i of None \<Rightarrow> False | Some ord \<Rightarrow> render_receipt ord = Inr content)"
| "answers m r (ProblemReply reply) \<longleftrightarrow> True"
| "answers m r a \<longleftrightarrow> False"

lemma answers_failed [simp]: "answers m r (failed pe rq e)"
  by (cases r) (simp_all add: failed_def)

fun stage_ok :: "(uuid \<rightharpoonup> order) \<Rightarrow> api_request \<Rightarrow> stage \<Rightarrow> bool" where
  "stage_ok m r (Charging i request) \<longleftrightarrow> r = PostOrder i request \<and> m i = None"
| "stage_ok m r (Saving ord) \<longleftrightarrow> drawn [r] = [oid ord] \<and> order_valid ord \<and> m (oid ord) = None"
| "stage_ok m r (Reading i) \<longleftrightarrow> r = GetOrder i"
| "stage_ok m r (ReadingFor i) \<longleftrightarrow> r = GetOrderReceipt i"
| "stage_ok m r (LookingUp i ord) \<longleftrightarrow> r = GetOrderReceipt i \<and> m i = Some ord"
| "stage_ok m r (Keeping i content) \<longleftrightarrow>
     r = GetOrderReceipt i \<and> (case m i of None \<Rightarrow> False | Some ord \<Rightarrow> render_receipt ord = Inr content)"
| "stage_ok m r (Replied a) \<longleftrightarrow> answers m r a"

text \<open>How many calls are left at most.\<close>

fun calls_left :: "stage \<Rightarrow> nat" where
  "calls_left (Charging i request) = 2"
| "calls_left (Saving ord) = 1"
| "calls_left (Reading i) = 1"
| "calls_left (ReadingFor i) = 3"
| "calls_left (LookingUp i ord) = 2"
| "calls_left (Keeping i content) = 1"
| "calls_left (Replied a) = 0"

lemma calls_left_0: "calls_left g = 0 \<longleftrightarrow> (\<exists>a. g = Replied a)"
  by (cases g) auto

lemma calls_left_arrived: "calls_left (arrived r) \<le> 3"
  by (cases r) auto

lemma drawn_one: "drawn [r] = [i] \<longleftrightarrow> (\<exists>request. r = PostOrder i request)"
  by (cases r) auto

text \<open>Other requests only add orders under identifiers this one did not draw.\<close>

lemma answers_mono:
  assumes "answers m r a" and "m \<subseteq>\<^sub>m m'"
  shows "answers m' r a"
proof -
  have "m' i = Some ord" if "m i = Some ord" for i ord using map_leD [OF assms(2) that] .
  then show ?thesis
    using assms(1) by (cases r; cases a) (auto split: option.splits sum.splits)
qed

lemma stage_ok_mono:
  assumes "stage_ok m r g" and "m \<subseteq>\<^sub>m m'" and "\<forall>i \<in> set (drawn [r]). m' i = m i"
  shows "stage_ok m' r g"
proof -
  have "m' i = Some ord" if "m i = Some ord" for i ord using map_leD [OF assms(2) that] .
  then show ?thesis
    using assms(1,3) answers_mono [OF _ assms(2)]
    by (cases g) (auto simp: drawn_one split: option.splits)
qed

lemma advance_calls_left:
  "advance get save authorise rget rput pe rq g st = (g', st') \<Longrightarrow> calls_left g' \<le> calls_left g - 1"
proof -
  assume run: "advance get save authorise rget rput pe rq g st = (g', st')"
  obtain w p s where st: "st = (w, p, s)" by (metis prod.exhaust)
  show "calls_left g' \<le> calls_left g - 1"
    using run st by (cases g) (auto simp: or_fail_def split: sum.splits prod.splits option.splits)
qed

lemma play_calls_left:
  assumes "play get save authorise rget rput pe ctx ks (gs, st) = (gs', st')" and "k < length gs"
  shows "calls_left (gs' ! k) \<le> calls_left (gs ! k) - count_list ks k \<and> length gs' = length gs"
  using assms
proof (induction ks arbitrary: gs st)
  case Nil
  then show ?case by simp
next
  case (Cons j ks)
  show ?case
  proof (cases "j < length gs")
    case True
    obtain g1 st1 where run: "advance get save authorise rget rput pe (ctx j) (gs ! j) st = (g1, st1)"
      by (metis prod.exhaust)
    have "play get save authorise rget rput pe ctx ks (gs[j := g1], st1) = (gs', st')"
      using Cons.prems(1) True run by simp
    from Cons.IH [OF this] advance_calls_left [OF run] Cons.prems(2)
    show ?thesis by (cases "j = k") auto
  qed (use Cons in auto)
qed

section \<open>Any schedule, over any adapters\<close>

context order_service
begin

abbreviation "move \<equiv> advance get save authorise rget rput"

text \<open>What one step may do to the state, and what it leaves for the request.\<close>

definition extends :: "api_request \<Rightarrow> 'w \<times> 'p \<times> 's \<Rightarrow> 'w \<times> 'p \<times> 's \<Rightarrow> bool" where
  "extends r st st' \<longleftrightarrow> good st' \<and> orders (fst st) \<subseteq>\<^sub>m orders (fst st')
     \<and> dom (orders (fst st')) \<subseteq> dom (orders (fst st)) \<union> set (drawn [r])
     \<and> receipts (snd (snd st)) \<subseteq>\<^sub>m receipts (snd (snd st'))"

lemma extends_repo:
  assumes "good (w, p, s)" and "consistent w'" and "orders w' = orders w" and "ready p'"
  shows "extends r (w, p, s) (w', p', s)"
  using assms by (auto simp: extends_def good_def receipts_faithful_def)

lemma kept_receipt:
  assumes "good (w, p, s)" and "receipts s i = Some d" and "orders w i = Some ord" and "render_receipt ord = Inr b"
  shows "d = b"
proof -
  obtain ord' where "orders w i = Some ord'" "render_receipt ord' = Inr d"
    using assms(1,2) by (auto simp: good_def receipts_faithful_def)
  then show ?thesis using assms(3,4) by simp
qed

lemma extends_store:
  assumes "good (w, p, s)"
    and "receipts s' = receipts s \<or> receipts s' = (receipts s)(i \<mapsto> c) \<and> orders w i = Some ord \<and> render_receipt ord = Inr c"
  shows "extends r (w, p, s) (w, p, s')"
proof -
  have "receipts s i = None \<or> receipts s i = Some c" if "orders w i = Some ord" "render_receipt ord = Inr c"
    using kept_receipt [OF assms(1) _ that] by (cases "receipts s i") auto
  then show ?thesis
    using assms by (auto simp: extends_def good_def receipts_faithful_def map_le_def split: if_splits)
qed

lemma charging_ok:
  assumes "good (w, p, s)" and "orders w i = None"
    and "move pe rq (Charging i request) (w, p, s) = (g', st')"
  shows "extends (PostOrder i request) (w, p, s) st' \<and> stage_ok (orders (fst st')) (PostOrder i request) g'"
proof -
  have r: "ready p" and c: "consistent w" using assms(1) by (simp_all add: good_def)
  show ?thesis
  proof (cases "place_order_request_valid request")
    case False
    then have "charge_for request = Inl (Lib PydanticValidationError)"
      by (simp add: charge_for_def to_command_invalid)
    then show ?thesis using assms(3) extends_repo [OF assms(1) c _ r] by auto
  next
    case True
    then have v: "place_order_command_valid (request_command request)" by simp
    let ?command = "request_command request"
    obtain x p' where x: "authorise i (command_total ?command) p = (x, p')" by (metis prod.exhaust)
    then have "g' = or_fail pe rq (try_then x (\<lambda>a. Inr (order_for i ?command a))) Saving" "st' = (w, p', s)"
      using assms(3) by (simp_all add: charge_for_valid [OF True] charged_valid [OF v, abs_def])
    moreover have "ready p'" using stays_ready [OF r x] .
    ultimately show ?thesis
      using extends_repo [OF assms(1) c] order_for_valid [OF v] assms(2) by (cases x) auto
  qed
qed

lemma saving_ok:
  assumes "good (w, p, s)" and "stage_ok (orders w) r (Saving ord)"
    and "move pe rq (Saving ord) (w, p, s) = (g', st')"
  shows "extends r (w, p, s) st' \<and> stage_ok (orders (fst st')) r g'"
proof -
  have v: "order_valid ord" and free: "orders w (oid ord) = None" and c: "consistent w"
    using assms(1,2) by (simp_all add: good_def)
  obtain request where r: "r = PostOrder (oid ord) request" using assms(2) by (auto simp: drawn_one)
  obtain x w' where x: "save ord w = (x, w')" by (metis prod.exhaust)
  obtain resp where resp: "to_response ord = Inr resp" "out_id resp = oid ord" using to_response_returns [OF v] by blast
  have run: "st' = (w', p, s)"
      "g' = or_fail pe rq x (\<lambda>u. Replied (OrderReply 201 resp [(''Location'', ''/api/v1/orders/'' @ uuid_str (oid ord))]))"
    using assms(3) x resp by (cases x; simp)+
  have step: "consistent w' \<and> (orders w' = orders w \<or> stores (orders w) ord (orders w'))"
    using save_stores [OF c v free] save_fails [OF c v free] x by (cases x) blast+
  have grows: "orders w \<subseteq>\<^sub>m orders w'" using step stores_grows [of "orders w" ord] free by auto
  have "extends r (w, p, s) st'"
    using step assms(1) faithful_mono [OF _ grows] grows
    by (auto simp: run extends_def good_def r stores_def split: if_splits)
  moreover have "stage_ok (orders w') r g'"
  proof (cases x)
    case (Inr u)
    then obtain ord' where ord': "orders w' (oid ord) = Some ord'" "order_eq ord' ord" "order_valid ord'"
      using save_stores [OF c v free] x by (auto simp: stores_def)
    then obtain resp' where "to_response ord' = Inr resp'" using to_response_returns by blast
    then show ?thesis
      using ord' to_response_eq [OF ord'(2,3) v _ resp(1)] resp by (simp add: run Inr r)
  qed (simp add: run)
  ultimately show ?thesis by (simp add: run)
qed

lemma reading_ok:
  assumes "good (w, p, s)" and "stage_ok (orders w) r g" and "g = Reading i \<or> g = ReadingFor i"
    and "move pe rq g (w, p, s) = (g', st')"
  shows "extends r (w, p, s) st' \<and> stage_ok (orders (fst st')) r g'"
proof -
  have c: "consistent w" and p: "ready p" using assms(1) by (simp_all add: good_def)
  obtain x w' where x: "get i w = (x, w')" by (metis prod.exhaust)
  have keeps: "consistent w'" "orders w' = orders w" using get_keeps [OF c x] by simp_all
  have st': "st' = (w', p, s)" using assms(3,4) x by auto
  have found: "orders w i = Some ord \<and> order_valid ord" if "x = Inr (Some ord)" for ord
    using get_returns [OF c x [unfolded that]] keyed [OF c] by auto
  have "stage_ok (orders w') r g'"
  proof (cases "\<exists>ord. x = Inr (Some ord)")
    case True
    then obtain ord where ord: "x = Inr (Some ord)" "orders w i = Some ord" "order_valid ord" using found by blast
    obtain resp where "to_response ord = Inr resp" using to_response_returns [OF ord(3)] by blast
    then show ?thesis
      using assms(2-4) x ord keeps(2) by (auto simp: found_order_def)
  next
    case False
    then obtain e where "try_then x (found_order i) = Inl e"
      by (cases x) (auto simp: found_order_def split: option.splits)
    then have "g' = Replied (failed pe rq e)"
      using assms(3,4) x by (auto simp: try_then_Inl_iff)
    then show ?thesis by simp
  qed
  then show ?thesis using extends_repo [OF assms(1) keeps p] by (simp add: st')
qed

lemma storing_ok:
  assumes "good (w, p, s)" and "stage_ok (orders w) r g" and "g = LookingUp i ord \<or> g = Keeping i content"
    and "move pe rq g (w, p, s) = (g', st')"
  shows "extends r (w, p, s) st' \<and> stage_ok (orders (fst st')) r g'"
  using assms(3)
proof
  assume g: "g = LookingUp i ord"
  then have r: "r = GetOrderReceipt i" and ord: "orders w i = Some ord" using assms(2) by simp_all
  obtain x s' where x: "rget i s = (x, s')" by (metis prod.exhaust)
  have keeps: "receipts s' = receipts s" using store.get_keeps [OF x] .
  have c: "consistent w" using assms(1) by (simp add: good_def)
  obtain b where b: "render_receipt ord = Inr b" using render_receipt_returns keyed [OF c ord] by blast
  have "x = Inr (Some d) \<Longrightarrow> d = b" for d
    using store.get_returns [of i s "Some d" s'] x kept_receipt [OF assms(1) _ ord b] by auto
  then show ?thesis
    using assms(4) g r ord b x extends_store [OF assms(1), of s'] keeps
    by (cases x) (auto split: option.splits)
next
  assume g: "g = Keeping i content"
  then obtain ord where r: "r = GetOrderReceipt i" and ord: "orders w i = Some ord" "render_receipt ord = Inr content"
    using assms(2) by (auto split: option.splits)
  obtain x s' where x: "rput i content s = (x, s')" by (metis prod.exhaust)
  have "receipts s' = receipts s \<or> receipts s' = (receipts s)(i \<mapsto> content)"
    using store.put_stores store.put_fails x by (cases x) blast+
  then show ?thesis
    using assms(4) g r ord x extends_store [OF assms(1), of s' i content ord] by (cases x) auto
qed

lemma move_ok:
  assumes "good st" and "stage_ok (orders (fst st)) r g" and "move pe rq g st = (g', st')"
  shows "extends r st st' \<and> stage_ok (orders (fst st')) r g'"
proof -
  obtain w p s where st: "st = (w, p, s)" by (metis prod.exhaust)
  note facts = assms [unfolded st fst_conv]
  show ?thesis
  proof (cases g)
    case (Charging i request)
    then have "r = PostOrder i request" "orders w i = None" using facts(2) by simp_all
    then show ?thesis using charging_ok [OF facts(1) _ facts(3) [unfolded Charging]] by (simp add: st)
  next
    case (Saving ord)
    then show ?thesis using saving_ok [OF facts(1) facts(2,3) [unfolded Saving]] by (simp add: st)
  next
    case (Replied a)
    then show ?thesis using assms by (auto simp: extends_def)
  qed (use reading_ok [OF facts(1,2) _ facts(3)] storing_ok [OF facts(1,2) _ facts(3)] st in auto)
qed

text \<open>The invariant of a schedule: the state in order, every request at a stage it may be at.\<close>

definition in_flight :: "api_request list \<Rightarrow> stage list \<times> 'w \<times> 'p \<times> 's \<Rightarrow> bool" where
  "in_flight rs x \<longleftrightarrow> good (snd x) \<and> list_all2 (stage_ok (orders (fst (snd x)))) rs (fst x)"

lemma map_le_changed: "m \<subseteq>\<^sub>m m' \<Longrightarrow> m' i \<noteq> m i \<Longrightarrow> i \<in> dom m' \<and> i \<notin> dom m"
  by (cases "m i") (auto dest: map_leD)

lemma drawn_split: "drawn (xs @ ys) = drawn xs @ drawn ys"
  by (induction xs rule: drawn.induct) simp_all

lemma drawn_once:
  assumes "distinct (drawn rs)" and "j < k" and "k < length rs" and "i \<in> set (drawn [rs ! j])"
  shows "i \<notin> set (drawn [rs ! k])"
proof -
  have "rs = take j rs @ [rs ! j] @ drop (Suc j) rs"
    using assms(2,3) by (simp add: id_take_nth_drop [symmetric])
  moreover have "drop (Suc j) rs = take (k - Suc j) (drop (Suc j) rs) @ [rs ! k] @ drop (Suc k) rs"
    using assms(2,3) id_take_nth_drop [of "k - Suc j" "drop (Suc j) rs"] by simp
  ultimately obtain a b c where "rs = a @ [rs ! j] @ b @ [rs ! k] @ c" by metis
  then have "distinct (drawn a @ drawn [rs ! j] @ drawn b @ drawn [rs ! k] @ drawn c)"
    using assms(1) by (metis drawn_split)
  then show ?thesis using assms(4) by auto
qed

lemma step_in_flight:
  assumes "distinct (drawn rs)" and "in_flight rs (gs, st)" and "k < length gs"
    and "move pe rq (gs ! k) st = (g', st')"
  shows "in_flight rs (gs[k := g'], st') \<and> extends (rs ! k) st st'"
proof -
  have len: "length rs = length gs" and ok: "good st" "stage_ok (orders (fst st)) (rs ! n) (gs ! n)" if "n < length gs" for n
    using assms(2) that by (auto simp: in_flight_def list_all2_conv_all_nth)
  from move_ok [OF ok(1) [OF assms(3)] ok(2) [OF assms(3)] assms(4)]
  have step: "extends (rs ! k) st st'" "stage_ok (orders (fst st')) (rs ! k) g'" by simp_all
  have grows: "orders (fst st) \<subseteq>\<^sub>m orders (fst st')" using step(1) by (simp add: extends_def)
  have "stage_ok (orders (fst st')) (rs ! n) (gs[k := g'] ! n)" if n: "n < length gs" for n
  proof (cases "n = k")
    case False
    have "orders (fst st') i = orders (fst st) i" if "i \<in> set (drawn [rs ! n])" for i
    proof (rule ccontr)
      assume changed: "orders (fst st') i \<noteq> orders (fst st) i"
      then have "i \<in> dom (orders (fst st'))" "i \<notin> dom (orders (fst st))"
        using map_le_changed [OF grows] by auto
      then have "i \<in> set (drawn [rs ! k])" using step(1) by (auto simp: extends_def)
      then show False
        using drawn_once [OF assms(1), of n k i] drawn_once [OF assms(1), of k n i] that False n assms(3) len [OF n]
        by (cases "n < k") auto
    qed
    then show ?thesis using stage_ok_mono [OF ok(2) [OF n] grows] False by simp
  qed (use step(2) assms(3) in simp)
  then show ?thesis
    using step(1) len [OF assms(3)] by (simp add: in_flight_def list_all2_conv_all_nth extends_def)
qed

lemma drawn_nth:
  assumes "k < length rs"
  shows "set (drawn [rs ! k]) \<subseteq> set (drawn rs)"
proof -
  have "rs = take k rs @ [rs ! k] @ drop (Suc k) rs" using assms by (simp add: id_take_nth_drop [symmetric])
  then have "drawn rs = drawn (take k rs) @ drawn [rs ! k] @ drawn (drop (Suc k) rs)" by (metis drawn_split)
  then show ?thesis by auto
qed

lemma play_ok:
  assumes "distinct (drawn rs)" and "in_flight rs x"
    and "play get save authorise rget rput pe ctx ks x = (gs', st')"
  shows "in_flight rs (gs', st') \<and> orders (fst (snd x)) \<subseteq>\<^sub>m orders (fst st')
    \<and> dom (orders (fst st')) \<subseteq> dom (orders (fst (snd x))) \<union> set (drawn rs)
    \<and> receipts (snd (snd (snd x))) \<subseteq>\<^sub>m receipts (snd (snd st'))"
  using assms(2,3)
proof (induction ks arbitrary: x)
  case Nil
  then show ?case by (cases x) auto
next
  case (Cons k ks)
  obtain gs st where x: "x = (gs, st)" by (metis prod.exhaust)
  show ?case
  proof (cases "k < length gs")
    case True
    obtain g1 st1 where run: "move pe (ctx k) (gs ! k) st = (g1, st1)" by (metis prod.exhaust)
    from step_in_flight [OF assms(1) Cons.prems(1) [unfolded x] True run]
    have one: "in_flight rs (gs[k := g1], st1)" "extends (rs ! k) st st1" by simp_all
    have rest: "play get save authorise rget rput pe ctx ks (gs[k := g1], st1) = (gs', st')"
      using Cons.prems(2) True run by (simp add: x)
    have "k < length rs" using Cons.prems(1) True by (auto simp: x in_flight_def dest: list_all2_lengthD)
    then have "dom (orders (fst st1)) \<subseteq> dom (orders (fst st)) \<union> set (drawn rs)"
      using one(2) drawn_nth unfolding extends_def by blast
    moreover note ih = Cons.IH [OF one(1) rest, unfolded fst_conv snd_conv]
    ultimately have "dom (orders (fst st')) \<subseteq> dom (orders (fst st)) \<union> set (drawn rs)" by blast
    moreover have "orders (fst st) \<subseteq>\<^sub>m orders (fst st')" "receipts (snd (snd st)) \<subseteq>\<^sub>m receipts (snd (snd st'))"
      using ih one(2) unfolding extends_def by (auto intro: map_le_trans)
    ultimately show ?thesis using ih by (simp add: x)
  qed (use Cons.IH [of x] Cons.prems x in auto)
qed

lemma schedule_safe:
  assumes "good st" and "fresh_draws (orders (fst st)) rs"
    and "play get save authorise rget rput pe ctx ks (map arrived rs, st) = (gs, st')"
  shows "good st' \<and> orders (fst st) \<subseteq>\<^sub>m orders (fst st')
    \<and> dom (orders (fst st')) \<subseteq> dom (orders (fst st)) \<union> set (drawn rs)
    \<and> receipts (snd (snd st)) \<subseteq>\<^sub>m receipts (snd (snd st')) \<and> length gs = length rs
    \<and> (\<forall>k < length rs. (\<forall>a. gs ! k = Replied a \<longrightarrow> answers (orders (fst st')) (rs ! k) a)
         \<and> (3 \<le> count_list ks k \<longrightarrow> (\<exists>a. gs ! k = Replied a)))"
proof -
  have free: "orders (fst st) i = None" if "i \<in> set (drawn [rs ! k])" "k < length rs" for i k
    using assms(2) drawn_nth [OF that(2)] that(1) by (auto simp: fresh_draws_def)
  have "stage_ok (orders (fst st)) (rs ! k) (arrived (rs ! k))" if "k < length rs" for k
    using free [OF _ that] by (cases "rs ! k") auto
  then have "in_flight rs (map arrived rs, st)"
    using assms(1) by (simp add: in_flight_def list_all2_conv_all_nth)
  from play_ok [OF _ this assms(3)] assms(2)
  have ok: "in_flight rs (gs, st')" and keeps: "orders (fst st) \<subseteq>\<^sub>m orders (fst st')"
      "dom (orders (fst st')) \<subseteq> dom (orders (fst st)) \<union> set (drawn rs)"
      "receipts (snd (snd st)) \<subseteq>\<^sub>m receipts (snd (snd st'))"
    by (auto simp: fresh_draws_def)
  have len: "length rs = length gs" and st: "good st'"
      and at: "stage_ok (orders (fst st')) (rs ! k) (gs ! k)" if "k < length rs" for k
    using ok that by (auto simp: in_flight_def list_all2_conv_all_nth)
  have "\<exists>a. gs ! k = Replied a" if "k < length rs" "3 \<le> count_list ks k" for k
    using play_calls_left [OF assms(3), of k] that calls_left_arrived [of "rs ! k"] by (simp flip: calls_left_0)
  then show ?thesis
    using ok keeps at by (fastforce simp: in_flight_def dest: list_all2_lengthD)
qed

end

section \<open>Properties\<close>

abbreviation "mem_play \<equiv> play mem_order_get mem_order_save mem_authorise mem_receipt_get mem_receipt_put"

text \<open>The first step of the basket's request over the in-memory gateway.\<close>

lemma charge_basket:
  "advance mem_order_get mem_order_save mem_authorise mem_receipt_get mem_receipt_put pe rq (Charging i basket_request) (w, [5], s)
     = (Saving (order_for i basket_command \<lparr>auth_id = ''auth_'' @ uuid_hex 5\<rparr>), (w, [], s))"
  using basket_command_valid
  by (simp add: charge_for_valid [OF basket_request_valid] basket_request_command charged_valid mem_authorise_eq)

text \<open>
  C7: The order in which the event loop takes the steps of any number of requests does not matter for what
  the service guarantees. Over any adapters that keep their contracts and for every schedule: the state
  stays in order, orders and receipts are never changed or removed, only drawn identifiers appear, every
  reply that was given is true of the orders stored (a 201 means that an equal order is there, a 200
  carries the stored order or the rendering of it), and a request resumed three times has its reply.
\<close>

theorem interleaved_requests_are_safe:
  assumes "order_service get save orders consistent authorise ready rget rput receipts"
    and "service_ok consistent ready orders receipts st" and "fresh_draws (orders (fst st)) rs"
    and "play get save authorise rget rput pe ctx ks (map arrived rs, st) = (gs, st')"
  shows "service_ok consistent ready orders receipts st' \<and> orders (fst st) \<subseteq>\<^sub>m orders (fst st')
    \<and> dom (orders (fst st')) \<subseteq> dom (orders (fst st)) \<union> set (drawn rs)
    \<and> receipts (snd (snd st)) \<subseteq>\<^sub>m receipts (snd (snd st')) \<and> length gs = length rs
    \<and> (\<forall>k < length rs. (\<forall>a. gs ! k = Replied a \<longrightarrow> answers (orders (fst st')) (rs ! k) a)
         \<and> (3 \<le> count_list ks k \<longrightarrow> (\<exists>a. gs ! k = Replied a)))"
  using order_service.schedule_safe [OF assms] .

text \<open>Two requests for one receipt race each other to the store while an order is posted.\<close>

theorem interleaved_requests_are_safe_witness:
  "\<exists>c gs st'.
     mem_play [] (\<lambda>k. order_request) [0, 1, 2, 0, 1, 1, 0, 2, 2]
       (map arrived [GetOrderReceipt 1, GetOrderReceipt 1, PostOrder 2 basket_request], mem_stocked) = (gs, st')
   \<and> gs ! 0 = Replied (BytesReply 200 c RECEIPT_MEDIA_TYPE) \<and> gs ! 1 = Replied (BytesReply 200 c RECEIPT_MEDIA_TYPE)
   \<and> (\<exists>a. gs ! 2 = Replied a \<and> answers (mem_order_map (fst st')) (PostOrder 2 basket_request) a)
   \<and> mem_service_ok st'"
proof -
  let ?rs = "[GetOrderReceipt 1, GetOrderReceipt 1, PostOrder 2 basket_request]"
  let ?ks = "[0, 1, 2, 0, 1, 1, 0, 2, 2] :: nat list"
  obtain c where c: "render_receipt basket_order = Inr c"
    using render_receipt_returns [OF basket_order_valid] by blast
  obtain gs st' where run: "mem_play [] (\<lambda>k. order_request) ?ks (map arrived ?rs, mem_stocked) = (gs, st')"
    by (metis prod.exhaust)
  have two: "gs ! 0 = Replied (BytesReply 200 c RECEIPT_MEDIA_TYPE)" "gs ! 1 = Replied (BytesReply 200 c RECEIPT_MEDIA_TYPE)"
    using run c
    by (auto simp: mem_stocked_def basket_world_def mem_order_get_def mem_receipt_get_def mem_receipt_put_def
        found_order_def charge_basket mem_order_save_def or_fail_def
        simp del: advance.simps(1) split: sum.splits)
  have fresh: "fresh_draws (mem_order_map (fst mem_stocked)) ?rs"
    by (simp add: fresh_draws_def mem_stocked_def basket_world_def)
  note safe = interleaved_requests_are_safe [OF mem_service.order_service_axioms mem_stocked_ok fresh run]
  have three: "3 \<le> count_list ?ks 2" and here: "2 < length ?rs" and third: "?rs ! 2 = PostOrder 2 basket_request" by simp_all
  have "\<exists>a. gs ! 2 = Replied a \<and> answers (mem_order_map (fst st')) (PostOrder 2 basket_request) a"
    using safe three here third by metis
  moreover have "mem_service_ok st'" using safe by blast
  ultimately show ?thesis using run two by blast
qed


end
