(* ===== verification/PyStr.thy ===== *)
theory PyStr
  imports Prelude
begin

text \<open>
  More of Python's \<open>str\<close>, for the scripts: \<open>split()\<close>, \<open>strip()\<close>, \<open>splitlines()\<close>, \<open>find\<close>, \<open>rsplit\<close> with a
  longer separator, and \<open>upper()\<close> on ASCII letters. Code points are at most 255.

  The lemmas say what splitting leaves out and that joining gives the words back (\<open>words_join\<close>), and
  where the first occurrence of a text is after an edit (\<open>find_sub_append\<close>).
\<close>

section \<open>White space\<close>

definition py_space :: "char \<Rightarrow> bool" where
  "py_space c \<longleftrightarrow>
     (let n = (of_char c :: nat) in (9 \<le> n \<and> n \<le> 13) \<or> (28 \<le> n \<and> n \<le> 32) \<or> n = 133 \<or> n = 160)"

text \<open>\<open>s.split()\<close>; \<open>w\<close> is the word being read.\<close>

fun split_words :: "string \<Rightarrow> string \<Rightarrow> string list" where
  "split_words w [] = (if w = [] then [] else [w])"
| "split_words w (c # cs) =
     (if py_space c then (if w = [] then split_words [] cs else w # split_words [] cs)
      else split_words (w @ [c]) cs)"

definition words :: "string \<Rightarrow> string list" where
  "words s = split_words [] s"

definition py_strip :: "string \<Rightarrow> string" where
  "py_strip s = rev (dropWhile py_space (rev (dropWhile py_space s)))"

definition is_word :: "string \<Rightarrow> bool" where
  "is_word w \<longleftrightarrow> w \<noteq> [] \<and> list_all (\<lambda>c. \<not> py_space c) w"

lemma split_words_are_words:
  "list_all (\<lambda>c. \<not> py_space c) w \<Longrightarrow> x \<in> set (split_words w s) \<Longrightarrow> is_word x"
  by (induction w s rule: split_words.induct) (auto simp: is_word_def split: if_splits)

lemma words_are_words: "w \<in> set (words s) \<Longrightarrow> is_word w"
  unfolding words_def by (rule split_words_are_words) simp_all

lemma split_words_append:
  "list_all (\<lambda>c. \<not> py_space c) u \<Longrightarrow> split_words w (u @ s) = split_words (w @ u) s"
  by (induction u arbitrary: w) auto

lemma space_is_space [simp]: "py_space CHR '' ''"
  by (simp add: py_space_def)

lemma words_join:
  assumes "\<And>w. w \<in> set ws \<Longrightarrow> is_word w"
  shows "words (join '' '' ws) = ws"
  using assms
proof (induction "'' ''" ws rule: join.induct)
  case 1
  then show ?case by (simp add: words_def)
next
  case (2 p)
  then show ?case using split_words_append [of p "[]" "[]"] by (simp add: words_def is_word_def)
next
  case (3 p q ps)
  then have "is_word p" and "words (join '' '' (q # ps)) = q # ps" by simp_all
  then show ?case
    using split_words_append [of p "[]" "'' '' @ join '' '' (q # ps)"] by (simp add: words_def is_word_def)
qed

section \<open>Lines\<close>

definition line_break :: "char \<Rightarrow> bool" where
  "line_break c \<longleftrightarrow>
     (let n = (of_char c :: nat) in (10 \<le> n \<and> n \<le> 13) \<or> (28 \<le> n \<and> n \<le> 30) \<or> n = 133)"

text \<open>\<open>s.splitlines()\<close>: a carriage return takes a line feed after it along.\<close>

function split_lines :: "string \<Rightarrow> string list" where
  "split_lines s =
     (if s = [] then []
      else let l = takeWhile (\<lambda>c. \<not> line_break c) s; rest = dropWhile (\<lambda>c. \<not> line_break c) s
           in l # split_lines (drop (if starts_with rest [CHR 0x0D, CHR 0x0A] then 2 else 1) rest))"
  by auto

termination split_lines
proof (relation "measure length")
  fix s :: string and l rest
  assume "s \<noteq> []" "rest = dropWhile (\<lambda>c. \<not> line_break c) s"
  then have "length rest \<le> length s" "s \<noteq> []" by (simp_all add: length_dropWhile_le)
  then show "(drop (if starts_with rest [CHR 0x0D, CHR 0x0A] then 2 else 1) rest, s) \<in> measure length"
    by (cases rest) auto
qed simp

declare split_lines.simps [simp del]

lemma split_lines_empty [simp]: "split_lines [] = []"
  by (simp add: split_lines.simps)

section \<open>Searching\<close>

text \<open>\<open>s.find(sub)\<close>, \<open>None\<close> for \<open>-1\<close>.\<close>

fun find_sub :: "string \<Rightarrow> string \<Rightarrow> nat option" where
  "find_sub sub [] = (if sub = [] then Some 0 else None)"
| "find_sub sub (c # cs) =
     (if starts_with (c # cs) sub then Some 0 else map_option Suc (find_sub sub cs))"

lemma starts_with_take: "starts_with s p \<longleftrightarrow> take (length p) s = p"
  by (metis append_eq_conv_conj append_take_drop_id starts_with_iff)

lemma find_sub_Some:
  "find_sub sub s = Some n \<Longrightarrow> n + length sub \<le> length s \<and> starts_with (drop n s) sub
     \<and> (\<forall>m < n. \<not> starts_with (drop m s) sub)"
proof (induction s arbitrary: n)
  case Nil
  then show ?case by (auto split: if_splits)
next
  case (Cons c cs)
  show ?case
  proof (cases "starts_with (c # cs) sub")
    case True
    then have "length sub \<le> length (c # cs)" by (metis length_append le_add1 starts_with_iff)
    then show ?thesis using Cons.prems True by auto
  next
    case False
    then obtain k where k: "find_sub sub cs = Some k" "n = Suc k" using Cons.prems by auto
    have "\<not> starts_with (drop m (c # cs)) sub" if "m < n" for m
      using that False Cons.IH [OF k(1)] k(2) by (cases m) auto
    then show ?thesis using Cons.IH [OF k(1)] k(2) by simp
  qed
qed

lemma find_sub_intro:
  assumes "starts_with (drop n s) sub" and "n \<le> length s" and "\<And>m. m < n \<Longrightarrow> \<not> starts_with (drop m s) sub"
  shows "find_sub sub s = Some n"
  using assms
proof (induction s arbitrary: n)
  case Nil
  then show ?case by (cases sub) auto
next
  case (Cons c cs)
  show ?case
  proof (cases n)
    case 0
    then show ?thesis using Cons.prems(1) by simp
  next
    case (Suc k)
    have "find_sub sub cs = Some k"
    proof (rule Cons.IH)
      fix m assume "m < k"
      then show "\<not> starts_with (drop m cs) sub" using Cons.prems(3) [of "Suc m"] Suc by simp
    qed (use Cons.prems Suc in simp_all)
    moreover have "\<not> starts_with (c # cs) sub" using Cons.prems(3) [of 0] Suc by simp
    ultimately show ?thesis using Suc by simp
  qed
qed

text \<open>A first occurrence stays the first one when what comes after it changes.\<close>

lemma find_sub_append:
  assumes "find_sub sub s = Some n" and "sub \<noteq> []"
  shows "find_sub sub (take (n + length sub) s @ t) = Some n"
proof (rule find_sub_intro)
  let ?s = "take (n + length sub) s @ t"
  note first = find_sub_Some [OF assms(1)]
  have take: "drop m ?s = take (n + length sub - m) (drop m s) @ t" if "m \<le> n" for m
    using that first by (simp add: drop_take)
  obtain u where "drop n s = sub @ u" using first by (auto simp: starts_with_iff)
  then show "starts_with (drop n ?s) sub" using take [of n] by (simp add: starts_with_iff)
  show "n \<le> length ?s" using first by simp
  fix m assume m: "m < n"
  have "take (length sub) (drop m ?s) = take (length sub) (drop m s)"
    using m first by (auto simp: drop_take)
  then show "\<not> starts_with (drop m ?s) sub" using first m by (simp add: starts_with_take)
qed

text \<open>A text that does not occur, and characters it does not have in front of it.\<close>

definition occurs :: "string \<Rightarrow> string \<Rightarrow> bool" where
  "occurs sub s \<longleftrightarrow> find_sub sub s \<noteq> None"

lemma occurs_iff: "occurs sub s \<longleftrightarrow> (\<exists>u v. s = u @ sub @ v)"
proof
  assume "occurs sub s"
  then obtain n where "find_sub sub s = Some n" by (auto simp: occurs_def)
  from find_sub_Some [OF this] obtain v where "drop n s = sub @ v" by (auto simp: starts_with_iff)
  then have "s = take n s @ sub @ v" by (metis append_take_drop_id)
  then show "\<exists>u v. s = u @ sub @ v" by blast
next
  assume "\<exists>u v. s = u @ sub @ v"
  then obtain u v where s: "s = u @ sub @ v" by blast
  then have ex: "starts_with (drop (length u) s) sub" by simp
  show "occurs sub s"
  proof -
    define n where "n = (LEAST n. starts_with (drop n s) sub)"
    have "starts_with (drop n s) sub" unfolding n_def using ex by (rule LeastI)
    moreover have "n \<le> length u" unfolding n_def using ex by (rule Least_le)
    moreover have "\<And>m. m < n \<Longrightarrow> \<not> starts_with (drop m s) sub" unfolding n_def by (rule not_less_Least)
    ultimately have "find_sub sub s = Some n" using s by (intro find_sub_intro) auto
    then show ?thesis by (simp add: occurs_def)
  qed
qed

text \<open>\<open>s.rsplit(sep, 1)[0]\<close> for a separator of two characters: what is before its last occurrence.\<close>

definition before_last :: "string \<Rightarrow> string \<Rightarrow> string" where
  "before_last sep s =
     (case find_sub (rev sep) (rev s) of None \<Rightarrow> s | Some n \<Rightarrow> rev (drop (n + length sep) (rev s)))"

definition upper_char :: "char \<Rightarrow> char" where
  "upper_char c = (if 97 \<le> (of_char c :: nat) \<and> (of_char c :: nat) \<le> 122 then char_of (of_char c - 32 :: nat) else c)"

definition upper :: "string \<Rightarrow> string" where
  "upper s = map upper_char s"

section \<open>Splitting at a character\<close>

text \<open>\<open>s.split(c)\<close>.\<close>

fun split_char :: "char \<Rightarrow> string \<Rightarrow> string list" where
  "split_char x [] = [[]]"
| "split_char x (c # cs) =
     (if c = x then [] # split_char x cs
      else case split_char x cs of [] \<Rightarrow> [[c]] | p # ps \<Rightarrow> (c # p) # ps)"

lemma split_char_nonempty [simp]: "split_char x s \<noteq> []"
  by (cases s) (auto split: list.splits)

lemma split_char_append: "x \<notin> set p \<Longrightarrow> split_char x (p @ x # s) = p # split_char x s"
  by (induction p) auto

lemma split_char_none: "x \<notin> set p \<Longrightarrow> split_char x p = [p]"
  by (induction p) auto

text \<open>Stripping ignores white space around a text.\<close>

lemma dropWhile_space_Cons: "py_space c \<Longrightarrow> py_strip (c # s) = py_strip s"
  by (simp add: py_strip_def)

lemma py_strip_idem [simp]: "py_strip (py_strip s) = py_strip s"
proof -
  define u where "u = dropWhile py_space s"
  define v where "v = dropWhile py_space (rev u)"
  have u: "u = [] \<or> \<not> py_space (hd u)" using hd_dropWhile [of py_space s] by (auto simp: u_def)
  have "rev u = takeWhile py_space (rev u) @ v" by (simp add: v_def)
  then have "u = rev v @ rev (takeWhile py_space (rev u))" by (metis rev_append rev_rev_ident)
  then have "rev v = [] \<or> \<not> py_space (hd (rev v))" using u by (cases "rev v") (auto, metis hd_append2 list.discI list.sel(1))
  then have "dropWhile py_space (rev v) = rev v" by (cases "rev v") auto
  moreover have "dropWhile py_space v = v" by (simp add: v_def)
  ultimately show ?thesis by (simp add: py_strip_def u_def [symmetric] v_def [symmetric])
qed

end
