(* ===== verification/ConfigDocs.thy ===== *)
theory ConfigDocs
  imports PyStr PyJson Errors
begin

text \<open>
  The generator of the configuration reference and of \<open>.env.example\<close>
  (\<open>scripts/generate_config_docs.py\<close>): what it reads off a settings model, the two files it renders,
  and the check that they are current. A Pydantic model is a value of the datatype \<open>model\<close>, with what
  the generator inspects of a field; the \<open>str\<close> of bounds, floats and literals is part of that value.
  The three symbols of a constraint label above code point 255 are their UTF-8 bytes.

  The lemmas show that wrapping keeps every word and the width (\<open>wrap_comment_exact\<close>), that a table row
  has four cells (\<open>row_has_four_cells\<close>), that nothing of an optional group is set in the example
  (\<open>optional_groups_stay_commented\<close>), and that the check passes after the generator ran
  (\<open>generated_files_are_current\<close>).
\<close>

section \<open>Models as the generator sees them\<close>

datatype scalar = BoolType | IntType | FloatType | StrType

datatype default_value =
    VBool bool
  | VText string
  | VInt int
  | VFloat string
  | VDict "(string \<times> json) list"
  | VList "json list"
  | VSet "string list"
  | VInstance string

datatype default = Undefined | NoneDefault | Plain default_value | Factory default_value

datatype bound_meta = Ge string | Le string | Gt string | OtherMeta

text \<open>
  An annotation: \<open>ANamed\<close> is any other class by its \<open>__name__\<close>; \<open>AUnion\<close> a union by its members. A
  field: annotation, default, description, the \<open>type_label\<close> of its extra schema, its metadata.
\<close>

datatype annotation =
    ANone
  | AScalar scalar
  | ASecretStr
  | ANamed string
  | ALiteral "string list"
  | ADict
  | AList
  | AUnion "annotation list"
  | AModel model
and model = Model "string option" "(string \<times> field_info) list"
and field_info = FieldInfo annotation default "string option" "string option" "bound_meta list"

fun field_annotation :: "field_info \<Rightarrow> annotation" where
  "field_annotation (FieldInfo a d t l m) = a"

record config_variable =
  cv_name :: string
  cv_type_label :: string
  cv_default_label :: string
  cv_description :: string
  cv_secret :: bool
  cv_required_in_group :: bool

record config_group =
  cg_path :: "string list"
  cg_doc :: string
  cg_optional :: bool
  cg_variables :: "config_variable list"

definition ENV_PREFIX :: string where "ENV_PREFIX = ''APP_''"

definition NESTED_DELIMITER :: string where "NESTED_DELIMITER = ''__''"

definition NETWORK_TYPE_LABELS :: "(string \<times> string) list" where
  "NETWORK_TYPE_LABELS =
     [(''PostgresDsn'', ''PostgreSQL URL''), (''RedisDsn'', ''Redis URL''), (''HttpUrl'', ''URL''), (''AnyUrl'', ''URL'')]"

fun scalar_label :: "scalar \<Rightarrow> string" where
  "scalar_label BoolType = ''boolean''"
| "scalar_label IntType = ''integer''"
| "scalar_label FloatType = ''float''"
| "scalar_label StrType = ''string''"

section \<open>Reading one field\<close>

fun unwrap_optional :: "annotation \<Rightarrow> annotation \<times> bool" where
  "unwrap_optional (AUnion members) =
     (case filter (\<lambda>a. a \<noteq> ANone) members of [a] \<Rightarrow> (a, True) | _ \<Rightarrow> (AUnion members, False))"
| "unwrap_optional a = (a, False)"

fun is_model :: "annotation \<Rightarrow> bool" where
  "is_model (AModel m) = True"
| "is_model a = False"

definition json_default :: "default_value \<Rightarrow> string option" where
  "json_default v =
     (case v of
        VDict kvs \<Rightarrow> Some (json_dumps (JObj kvs))
      | VList xs \<Rightarrow> Some (json_dumps (JArr xs))
      | VSet xs \<Rightarrow> Some (json_dumps (JArr (map JStr (sort xs))))
      | _ \<Rightarrow> None)"

fun value_str :: "default_value \<Rightarrow> string" where
  "value_str (VBool b) = (if b then ''True'' else ''False'')"
| "value_str (VText s) = s"
| "value_str (VInt i) = int_str i"
| "value_str (VFloat t) = t"
| "value_str (VInstance t) = t"
| "value_str v = []"

fun render_default :: "field_info \<Rightarrow> string" where
  "render_default (FieldInfo a (Factory (VInstance t)) d l m) = []"
| "render_default (FieldInfo a (Factory v) d l m) = (case json_default v of Some t \<Rightarrow> t | None \<Rightarrow> value_str v)"
| "render_default (FieldInfo a Undefined d l m) = ''unset''"
| "render_default (FieldInfo a NoneDefault d l m) = ''unset''"
| "render_default (FieldInfo a (Plain (VBool b)) d l m) = (if b then ''true'' else ''false'')"
| "render_default (FieldInfo a (Plain v) d l m) = (case json_default v of Some t \<Rightarrow> t | None \<Rightarrow> value_str v)"

definition EN_DASH :: string where "EN_DASH = [CHR 0xE2, CHR 0x80, CHR 0x93]"

definition LE_SIGN :: string where "LE_SIGN = [CHR 0xE2, CHR 0x89, CHR 0xA4]"

definition GE_SIGN :: string where "GE_SIGN = [CHR 0xE2, CHR 0x89, CHR 0xA5]"

text \<open>The bounds the loop over the metadata ends with: minimum, maximum, exclusive minimum.\<close>

fun bounds_loop ::
  "string option \<times> string option \<times> string option \<Rightarrow> bound_meta list \<Rightarrow> string option \<times> string option \<times> string option" where
  "bounds_loop b [] = b"
| "bounds_loop (lo, hi, ex) (Ge v # ms) = bounds_loop (Some v, hi, ex) ms"
| "bounds_loop (lo, hi, ex) (Le v # ms) = bounds_loop (lo, Some v, ex) ms"
| "bounds_loop (lo, hi, ex) (Gt v # ms) = bounds_loop (lo, hi, Some v) ms"
| "bounds_loop b (OtherMeta # ms) = bounds_loop b ms"

definition constraint_label :: "string \<Rightarrow> bound_meta list \<Rightarrow> string" where
  "constraint_label base metadata =
     (case bounds_loop (None, None, None) metadata of
        (Some lo, Some hi, ex) \<Rightarrow> base @ '', '' @ lo @ EN_DASH @ hi
      | (None, Some hi, Some ex) \<Rightarrow> base @ '', > '' @ ex @ '', '' @ LE_SIGN @ '' '' @ hi
      | (Some lo, None, ex) \<Rightarrow> base @ '', '' @ GE_SIGN @ '' '' @ lo
      | (None, Some hi, None) \<Rightarrow> base @ '', '' @ LE_SIGN @ '' '' @ hi
      | (None, None, Some ex) \<Rightarrow> base @ '', > '' @ ex
      | (None, None, None) \<Rightarrow> base)"

fun type_of_annotation :: "annotation \<Rightarrow> bound_meta list \<Rightarrow> string" where
  "type_of_annotation ASecretStr ms = ''secret''"
| "type_of_annotation (ANamed name) ms =
     (case map_of NETWORK_TYPE_LABELS name of
        Some t \<Rightarrow> t
      | None \<Rightarrow> constraint_label (if name = [] then ''string'' else name) ms)"
| "type_of_annotation (ALiteral values) ms = join '' | '' (map (\<lambda>v. ''`'' @ v @ ''`'') values)"
| "type_of_annotation ADict ms = ''JSON object''"
| "type_of_annotation AList ms = ''JSON array''"
| "type_of_annotation (AScalar s) ms = constraint_label (scalar_label s) ms"
| "type_of_annotation ANone ms = constraint_label ''NoneType'' ms"
| "type_of_annotation a ms = constraint_label ''string'' ms"

fun render_type :: "field_info \<Rightarrow> string" where
  "render_type (FieldInfo a d t (Some label) m) = label"
| "render_type (FieldInfo a d t None m) = type_of_annotation (fst (unwrap_optional a)) m"

fun is_secret :: "field_info \<Rightarrow> bool" where
  "is_secret (FieldInfo a d t l m) = (fst (unwrap_optional a) = ASecretStr)"

fun is_required :: "field_info \<Rightarrow> bool" where
  "is_required (FieldInfo a d t l m) = (d = Undefined)"

fun field_description :: "field_info \<Rightarrow> string" where
  "field_description (FieldInfo a d t l m) = (case t of None \<Rightarrow> [] | Some s \<Rightarrow> s)"

definition variable_name :: "string list \<Rightarrow> string \<Rightarrow> string" where
  "variable_name path field_name = ENV_PREFIX @ join NESTED_DELIMITER (map upper (path @ [field_name]))"

definition variable_of :: "string list \<Rightarrow> bool \<Rightarrow> string \<times> field_info \<Rightarrow> config_variable" where
  "variable_of path optional = (\<lambda>(field_name, info).
     \<lparr>cv_name = variable_name path field_name, cv_type_label = render_type info,
      cv_default_label = render_default info, cv_description = field_description info,
      cv_secret = is_secret info, cv_required_in_group = (is_required info \<and> optional)\<rparr>)"

section \<open>Walking a model\<close>

lemma unwrap_optional_model: "unwrap_optional a = (AModel m, b) \<Longrightarrow> size m < size a"
proof (induction a rule: unwrap_optional.induct)
  case (1 members)
  then have "filter (\<lambda>a. a \<noteq> ANone) members = [AModel m]" by (auto split: list.splits)
  then have "AModel m \<in> set (filter (\<lambda>a. a \<noteq> ANone) members)" by simp
  then have "AModel m \<in> set members" by simp
  then have "size (AModel m) \<le> size_list size members" by (simp add: size_list_estimation')
  then show ?case by simp
qed auto

lemma field_annotation_smaller: "size (field_annotation info) < size info"
  by (cases info) simp

lemma field_in_model:
  assumes "(name, info) \<in> set fs"
  shows "size info < size (Model doc fs)"
proof -
  have "size_prod (\<lambda>x. 0) size (name, info) \<le> size_list (size_prod (\<lambda>x. 0) size) fs"
    using assms by (rule size_list_estimation') simp
  then show ?thesis by simp
qed

function walk_model :: "model \<Rightarrow> string list \<Rightarrow> bool \<Rightarrow> config_group list" where
  "walk_model (Model doc fs) path optional =
     \<lparr>cg_path = path, cg_doc = py_strip (case doc of None \<Rightarrow> [] | Some d \<Rightarrow> d), cg_optional = optional,
      cg_variables = map (variable_of path optional)
        (filter (\<lambda>(name, info). \<not> is_model (fst (unwrap_optional (field_annotation info)))) fs)\<rparr>
     # concat (map (\<lambda>(name, info).
         case unwrap_optional (field_annotation info) of
           (AModel sub, was_optional) \<Rightarrow> walk_model sub (path @ [name]) (optional \<or> was_optional)
         | _ \<Rightarrow> []) fs)"
  by pat_completeness auto

termination walk_model
proof (relation "measure (\<lambda>(m, path, optional). size m)")
  fix doc :: "string option" and fs :: "(string \<times> field_info) list" and path optional x name info a sub and was_optional :: bool
  assume "x \<in> set fs" and "(name, info) = x" and "(a, was_optional) = unwrap_optional (field_annotation info)"
    and "a = AModel sub"
  then have "size sub < size (field_annotation info)" and "size info < size (Model doc fs)"
    using unwrap_optional_model [of "field_annotation info" sub was_optional] field_in_model [of name info fs doc]
    by simp_all
  then show "((sub, path @ [name], optional \<or> was_optional), Model doc fs, path, optional)
      \<in> measure (\<lambda>(m, path, optional). size m)"
    using field_annotation_smaller [of info] by simp
qed simp

section \<open>Markdown reduced to text\<close>

text \<open>
  The substitution of one regular expression, as a scan: at each position the match there, if any, is
  replaced and skipped; the character classes exclude what ends them, so a match is determined.
\<close>

definition link_at :: "string \<Rightarrow> (string \<times> string) option" where
  "link_at s =
     (if \<not> starts_with s ''['' then None
      else let label = takeWhile (\<lambda>c. c \<noteq> CHR '']'') (tl s); r = dropWhile (\<lambda>c. c \<noteq> CHR '']'') (tl s)
           in if label = [] \<or> \<not> starts_with r '']('' then None
              else let target = takeWhile (\<lambda>c. c \<noteq> CHR '')'') (drop 2 r); r' = dropWhile (\<lambda>c. c \<noteq> CHR '')'') (drop 2 r)
                   in if target = [] \<or> r' = [] then None else Some (label, tl r'))"

text \<open>Text between two copies of a mark, without the mark's character in it.\<close>

definition between_at :: "string \<Rightarrow> string \<Rightarrow> (string \<times> string) option" where
  "between_at mark s =
     (if \<not> starts_with s mark then None
      else let r = drop (length mark) s; inner = takeWhile (\<lambda>c. c \<noteq> hd mark) r; r' = dropWhile (\<lambda>c. c \<noteq> hd mark) r
           in if inner = [] \<or> \<not> starts_with r' mark then None else Some (inner, drop (length mark) r'))"

definition emphasis_at :: "string \<Rightarrow> (string \<times> string) option" where
  "emphasis_at s =
     (case between_at ''**'' s of Some r \<Rightarrow> Some r
      | None \<Rightarrow> (case between_at ''*'' s of Some r \<Rightarrow> Some r | None \<Rightarrow> between_at ''`'' s))"

text \<open>\<open>fuel\<close> is the length of the text: every round takes a character off it.\<close>

fun sub_all :: "nat \<Rightarrow> (string \<Rightarrow> (string \<times> string) option) \<Rightarrow> string \<Rightarrow> string" where
  "sub_all fuel hit [] = []"
| "sub_all 0 hit s = s"
| "sub_all (Suc fuel) hit (c # cs) =
     (case hit (c # cs) of Some (text, rest) \<Rightarrow> text @ sub_all fuel hit rest | None \<Rightarrow> c # sub_all fuel hit cs)"

definition plain_text :: "string \<Rightarrow> string" where
  "plain_text description =
     (let text = sub_all (length description) link_at description
      in sub_all (length text) emphasis_at text)"

section \<open>The table\<close>

definition is_unset :: "string \<Rightarrow> bool" where
  "is_unset label \<longleftrightarrow> label = [] \<or> label = ''unset''"

definition default_cell :: "config_variable \<Rightarrow> string" where
  "default_cell v =
     (if cv_required_in_group v
      then ''unset, required once any `'' @ before_last NESTED_DELIMITER (cv_name v) @ NESTED_DELIMITER @ ''*` is set''
      else if is_unset (cv_default_label v) then ''unset''
      else ''`'' @ cv_default_label v @ ''`'')"

definition escape_table_cell :: "string \<Rightarrow> string" where
  "escape_table_cell text = concat (map (\<lambda>c. if c = CHR ''|'' then [CHR 0x5C, CHR ''|''] else [c]) text)"

definition table_row :: "config_variable \<Rightarrow> string" where
  "table_row v =
     (let meaning = join '' '' (words (cv_description v));
          cells = [''`'' @ cv_name v @ ''`'', cv_type_label v, default_cell v, meaning]
      in ''| '' @ join '' | '' (map escape_table_cell cells) @ '' |'')"

definition render_markdown_table :: "config_group list \<Rightarrow> string" where
  "render_markdown_table groups =
     join [CHR 0x0A]
       ([''| Variable | Type | Default | Meaning |'', ''| --- | --- | --- | --- |'']
        @ concat (map (\<lambda>g. map table_row (cg_variables g)) groups))"

section \<open>The example file\<close>

fun wrap_loop :: "nat \<Rightarrow> string \<Rightarrow> string list \<Rightarrow> string list" where
  "wrap_loop width current [] = (if current \<noteq> ''#'' then [current] else [])"
| "wrap_loop width current (word # ws) =
     (let candidate = current @ '' '' @ word
      in if length candidate > width \<and> current \<noteq> ''#''
         then current # wrap_loop width (''# '' @ word) ws
         else wrap_loop width candidate ws)"

definition wrap_comment :: "nat \<Rightarrow> string \<Rightarrow> string list" where
  "wrap_comment width text = wrap_loop width ''#'' (words text)"

definition WRAP_WIDTH :: nat where "WRAP_WIDTH = 76"

definition JSON_TYPE_LABELS :: "string list" where
  "JSON_TYPE_LABELS = [''JSON object'', ''JSON array'']"

definition variable_lines :: "bool \<Rightarrow> config_variable \<Rightarrow> string list" where
  "variable_lines optional v =
     wrap_comment WRAP_WIDTH (plain_text (cv_description v))
     @ [if optional then ''# '' @ cv_name v @ ''='' @ (if is_unset (cv_default_label v) then [] else cv_default_label v)
        else if is_unset (cv_default_label v) then ''# '' @ cv_name v @ ''=''
        else if cv_type_label v \<in> set JSON_TYPE_LABELS then cv_name v @ ''='' @ [CHR 0x27] @ cv_default_label v @ [CHR 0x27]
        else cv_name v @ ''='' @ cv_default_label v]"

definition OPTIONAL_NOTICE :: string where
  "OPTIONAL_NOTICE =
     ''# Optional. Uncomment the whole block to enable it; leave it all commented out to run without.''"

definition group_section :: "config_group \<Rightarrow> string list" where
  "group_section g =
     (if cg_doc g \<noteq> [] then wrap_comment WRAP_WIDTH (plain_text (cg_doc g)) else [])
     @ (if cg_optional g then [OPTIONAL_NOTICE] else [])
     @ concat (map (variable_lines (cg_optional g)) (cg_variables g))"

definition ENV_HEADER :: string where
  "ENV_HEADER = concat (map (\<lambda>l. l @ [CHR 0x0A])
     [''# Copy to .env for local development. Never commit .env itself.'',
      ''#'',
      ''# GENERATED FILE -- do not edit. Every line below comes from'',
      ''# src/pyfr_m8_verify/settings.py. Change a description there and run'',
      ''# `just config-docs`; `just gates` fails if this file has drifted.''])"

definition render_env_example :: "config_group list \<Rightarrow> string" where
  "render_env_example groups =
     join [CHR 0x0A, CHR 0x0A] (ENV_HEADER # map (\<lambda>g. join [CHR 0x0A] (group_section g)) groups) @ [CHR 0x0A]"

section \<open>The generated files\<close>

definition MARKER_BEGIN :: string where
  "MARKER_BEGIN = ''<!-- generated: config-table. Run `just config-docs`. -->''"

definition MARKER_END :: string where
  "MARKER_END = ''<!-- /generated: config-table -->''"

text \<open>\<open>str.index\<close> raises where \<open>find\<close> gives \<open>-1\<close>.\<close>

definition index_sub :: "string \<Rightarrow> string \<Rightarrow> exn + nat" where
  "index_sub sub s =
     (case find_sub sub s of None \<Rightarrow> Inl (Lib (ValueError ''substring not found'')) | Some n \<Rightarrow> Inr n)"

definition configuration_doc_with_table :: "string \<Rightarrow> string \<Rightarrow> exn + string" where
  "configuration_doc_with_table existing table =
     try_then (index_sub MARKER_BEGIN existing) (\<lambda>b.
     try_then (index_sub MARKER_END existing) (\<lambda>e.
       Inr (take (b + length MARKER_BEGIN) existing @ [CHR 0x0A, CHR 0x0A] @ table @ [CHR 0x0A, CHR 0x0A] @ drop e existing)))"

text \<open>The two files, each with its text where it exists.\<close>

record generated_files =
  env_example :: "string option"
  configuration_doc :: "string option"

definition read_text :: "string \<Rightarrow> string option \<Rightarrow> exn + string" where
  "read_text path f =
     (case f of None \<Rightarrow> Inl (Lib (OtherException ''FileNotFoundError'' path)) | Some s \<Rightarrow> Inr s)"

definition ENV_EXAMPLE :: string where "ENV_EXAMPLE = ''.env.example''"

definition CONFIGURATION_DOC :: string where "CONFIGURATION_DOC = ''docs/reference/configuration.md''"

definition rendered_outputs :: "model \<Rightarrow> generated_files \<Rightarrow> exn + string \<times> string" where
  "rendered_outputs sm fs =
     (let groups = walk_model sm [] False
      in try_then (read_text CONFIGURATION_DOC (configuration_doc fs)) (\<lambda>existing.
         try_then (configuration_doc_with_table existing (render_markdown_table groups)) (\<lambda>doc.
           Inr (render_env_example groups, doc))))"

definition write_outputs :: "model \<Rightarrow> (generated_files, exn, unit) io" where
  "write_outputs sm = (\<lambda>fs.
     case rendered_outputs sm fs of
       Inl e \<Rightarrow> (Inl e, fs)
     | Inr (env, doc) \<Rightarrow> (Inr (), fs\<lparr>env_example := Some env, configuration_doc := Some doc\<rparr>))"

definition check_outputs :: "model \<Rightarrow> generated_files \<Rightarrow> exn + string list" where
  "check_outputs sm fs =
     try_then (rendered_outputs sm fs) (\<lambda>(env, doc).
     try_then (read_text ENV_EXAMPLE (env_example fs)) (\<lambda>env'.
     try_then (read_text CONFIGURATION_DOC (configuration_doc fs)) (\<lambda>doc'.
       Inr ((if env' \<noteq> env then [ENV_EXAMPLE] else []) @ (if doc' \<noteq> doc then [CONFIGURATION_DOC] else [])))))"

text \<open>The script: the exit code, after checking or writing.\<close>

definition config_docs_main :: "model \<Rightarrow> bool \<Rightarrow> (generated_files, exn, nat) io" where
  "config_docs_main sm check =
     (if check
      then (\<lambda>fs. case check_outputs sm fs of Inl e \<Rightarrow> (Inl e, fs) | Inr stale \<Rightarrow> (Inr (if stale = [] then 0 else 1), fs))
      else and_then (write_outputs sm) (\<lambda>_. ret 0))"

section \<open>The fuel of a substitution\<close>

definition shortens :: "(string \<Rightarrow> (string \<times> string) option) \<Rightarrow> bool" where
  "shortens hit \<longleftrightarrow> (\<forall>s t r. hit s = Some (t, r) \<longrightarrow> length r < length s)"

lemma sub_all_enough:
  assumes "shortens hit"
  shows "length s \<le> n \<Longrightarrow> length s \<le> m \<Longrightarrow> sub_all n hit s = sub_all m hit s"
proof (induction n arbitrary: s m)
  case 0
  then show ?case by simp
next
  case (Suc n)
  show ?case
  proof (cases s)
    case (Cons c cs)
    then obtain k where m: "m = Suc k" using Suc.prems(2) by (cases m) auto
    have tail: "sub_all n hit cs = sub_all k hit cs" using Suc.IH [of cs k] Suc.prems Cons m by simp
    show ?thesis
    proof (cases "hit (c # cs)")
      case None
      then show ?thesis using tail Cons m by simp
    next
      case (Some p)
      obtain t r where p: "p = (t, r)" by (metis prod.exhaust)
      have "length r < length s" using assms Some p Cons unfolding shortens_def by blast
      then have "sub_all n hit r = sub_all k hit r" using Suc.IH [of r k] Suc.prems Cons m by simp
      then show ?thesis using Some p Cons m by simp
    qed
  qed simp
qed

lemma shortens_between: "mark \<noteq> [] \<Longrightarrow> shortens (between_at mark)"
  unfolding shortens_def
proof (intro allI impI)
  fix s t r assume "mark \<noteq> []" and hit: "between_at mark s = Some (t, r)"
  let ?r = "drop (length mark) s"
  have "starts_with s mark" and "r = drop (length mark) (dropWhile (\<lambda>c. c \<noteq> hd mark) ?r)"
    using hit by (auto simp: between_at_def Let_def split: if_splits)
  moreover have "length (dropWhile (\<lambda>c. c \<noteq> hd mark) ?r) \<le> length ?r" by (rule length_dropWhile_le)
  moreover have "length mark \<le> length s" using calculation(1) by (auto simp: starts_with_iff)
  ultimately show "length r < length s" using \<open>mark \<noteq> []\<close> by (cases mark) auto
qed

lemma shortens_emphasis: "shortens emphasis_at"
  using shortens_between [of "''**''"] shortens_between [of "''*''"] shortens_between [of "''`''"]
  by (simp add: shortens_def emphasis_at_def split: option.splits)

lemma shortens_link: "shortens link_at"
  unfolding shortens_def
proof (intro allI impI)
  fix s t r assume hit: "link_at s = Some (t, r)"
  let ?r = "dropWhile (\<lambda>c. c \<noteq> CHR '']'') (tl s)"
  have "starts_with s ''[''" and "r = tl (dropWhile (\<lambda>c. c \<noteq> CHR '')'') (drop 2 ?r))"
    using hit by (auto simp: link_at_def Let_def split: if_splits)
  moreover have "length ?r \<le> length (tl s)" by (rule length_dropWhile_le)
  moreover have "length (dropWhile (\<lambda>c. c \<noteq> CHR '')'') (drop 2 ?r)) \<le> length (drop 2 ?r)" by (rule length_dropWhile_le)
  ultimately show "length r < length s" by (cases s) auto
qed

text \<open>So the length of a text is fuel enough: \<open>sub_all\<close> never stops early.\<close>

lemma plain_text_fuel:
  assumes "length s \<le> n"
  shows "sub_all n link_at s = sub_all (length s) link_at s" and "sub_all n emphasis_at s = sub_all (length s) emphasis_at s"
  using sub_all_enough [OF shortens_link, of s n "length s"] sub_all_enough [OF shortens_emphasis, of s n "length s"] assms
  by simp_all

section \<open>Wrapping\<close>

lemma is_word_hash: "is_word ''#''"
  by (simp add: is_word_def py_space_def)

text \<open>The state of the loop: the mark and the words of the line so far.\<close>

lemma wrap_loop_lines:
  assumes "\<And>w. w \<in> set ws \<Longrightarrow> is_word w" and "\<And>w. w \<in> set taken \<Longrightarrow> is_word w"
    and "length (join '' '' (''#'' # taken)) \<le> width \<or> length taken \<le> 1"
  shows "\<exists>parts. wrap_loop width (join '' '' (''#'' # taken)) ws = map (\<lambda>p. join '' '' (''#'' # p)) parts
    \<and> concat parts = taken @ ws
    \<and> (\<forall>p \<in> set parts. p \<noteq> [] \<and> (length (join '' '' (''#'' # p)) \<le> width \<or> length p = 1))"
  using assms
proof (induction ws arbitrary: taken)
  case Nil
  show ?case
  proof (cases taken)
    case Nil
    then show ?thesis by simp
  next
    case (Cons w ws)
    then have "join '' '' (''#'' # taken) \<noteq> ''#''" by simp
    then show ?thesis using Nil.prems(3) Cons by (intro exI [of _ "[taken]"]) auto
  qed
next
  case (Cons w ws)
  let ?cur = "join '' '' (''#'' # taken)"
  have snoc: "?cur @ '' '' @ w = join '' '' (''#'' # (taken @ [w]))"
  proof -
    have "join '' '' (xs @ [x]) = join '' '' xs @ '' '' @ x" if "xs \<noteq> []" for xs :: "string list" and x
      using that by (induction "'' ''" xs rule: join.induct) auto
    from this [of "''#'' # taken" w] show ?thesis by simp
  qed
  show ?case
  proof (cases "length (?cur @ '' '' @ w) > width \<and> ?cur \<noteq> ''#''")
    case True
    then have "taken \<noteq> []" by auto
    have "wrap_loop width ?cur (w # ws) = ?cur # wrap_loop width (join '' '' (''#'' # [w])) ws"
      using True by (simp add: Let_def)
    moreover obtain parts where "wrap_loop width (join '' '' (''#'' # [w])) ws = map (\<lambda>p. join '' '' (''#'' # p)) parts"
        "concat parts = [w] @ ws" "\<forall>p \<in> set parts. p \<noteq> [] \<and> (length (join '' '' (''#'' # p)) \<le> width \<or> length p = 1)"
      using Cons.IH [of "[w]"] Cons.prems(1) by auto
    ultimately show ?thesis
      using \<open>taken \<noteq> []\<close> Cons.prems(3)
      by (intro exI [of _ "taken # parts"]) (auto simp: length_Suc_conv le_Suc_eq)
  next
    case False
    have small: "length (join '' '' (''#'' # (taken @ [w]))) \<le> width \<or> length (taken @ [w]) \<le> 1"
    proof (cases "taken = []")
      case False
      then have "?cur \<noteq> ''#''" by (cases taken) auto
      then show ?thesis
        using \<open>\<not> (length (?cur @ '' '' @ w) > width \<and> ?cur \<noteq> ''#'')\<close> unfolding snoc [symmetric] by auto
    qed simp
    have "wrap_loop width ?cur (w # ws) = wrap_loop width (join '' '' (''#'' # (taken @ [w]))) ws"
      unfolding wrap_loop.simps Let_def snoc if_not_P [OF False [unfolded snoc]] ..
    then show ?thesis using Cons.IH [of "taken @ [w]"] Cons.prems(1,2) small by auto
  qed
qed

lemma wrap_comment_lines:
  "\<exists>parts. wrap_comment width t = map (\<lambda>p. join '' '' (''#'' # p)) parts \<and> concat parts = words t
    \<and> (\<forall>p \<in> set parts. p \<noteq> [] \<and> (length (join '' '' (''#'' # p)) \<le> width \<or> length p = 1))"
  using wrap_loop_lines [of "words t" "[]" width] words_are_words [of _ t] by (simp add: wrap_comment_def)

lemma wrap_comment_hash: "l \<in> set (wrap_comment width t) \<Longrightarrow> starts_with l ''# ''"
proof -
  obtain parts where "wrap_comment width t = map (\<lambda>p. join '' '' (''#'' # p)) parts" "\<forall>p \<in> set parts. p \<noteq> []"
    using wrap_comment_lines [of width t] by blast
  moreover assume "l \<in> set (wrap_comment width t)"
  ultimately obtain p where "l = join '' '' (''#'' # p)" "p \<noteq> []" by auto
  then show ?thesis by (cases p) (simp_all add: starts_with_iff)
qed

section \<open>Groups below an optional group\<close>

lemma walk_cases:
  assumes "g \<in> set (walk_model (Model doc fs) path optional)"
  obtains (own) "cg_path g = path" "cg_optional g = optional" "cg_variables g = map (variable_of path optional)
        (filter (\<lambda>(name, info). \<not> is_model (fst (unwrap_optional (field_annotation info)))) fs)"
    | (below) name info sub was where "(name, info) \<in> set fs"
        "unwrap_optional (field_annotation info) = (AModel sub, was)"
        "g \<in> set (walk_model sub (path @ [name]) (optional \<or> was))"
proof -
  consider "cg_path g = path \<and> cg_optional g = optional \<and> cg_variables g = map (variable_of path optional)
        (filter (\<lambda>(name, info). \<not> is_model (fst (unwrap_optional (field_annotation info)))) fs)"
    | name info where "(name, info) \<in> set fs" "g \<in> set (case unwrap_optional (field_annotation info) of
           (AModel sub, was_optional) \<Rightarrow> walk_model sub (path @ [name]) (optional \<or> was_optional)
         | _ \<Rightarrow> [])"
    using assms by (subst (asm) walk_model.simps) auto
  then show thesis
  proof cases
    case 1
    then show ?thesis using own by blast
  next
    case 2
    obtain a was where "unwrap_optional (field_annotation info) = (a, was)" by (metis prod.exhaust)
    then show ?thesis using 2 below by (cases a) auto
  qed
qed

lemma walk_path_prefix: "g \<in> set (walk_model m path optional) \<Longrightarrow> \<exists>rest. cg_path g = path @ rest"
proof (induction m path optional arbitrary: g rule: walk_model.induct)
  case (1 doc fs path optional)
  from 1(2) show ?case
  proof (cases rule: walk_cases)
    case (below name info sub was)
    then obtain rest where "cg_path g = (path @ [name]) @ rest" using 1(1) by metis
    then show ?thesis by simp
  qed simp
qed

lemma walk_inherits_optional: "g \<in> set (walk_model m path optional) \<Longrightarrow> optional \<Longrightarrow> cg_optional g"
proof (induction m path optional arbitrary: g rule: walk_model.induct)
  case (1 doc fs path optional)
  from 1(2) show ?case
  proof (cases rule: walk_cases)
    case (below name info sub was)
    then show ?thesis using 1(1,3) by metis
  qed (use 1(3) in simp)
qed

section \<open>Rows\<close>

text \<open>The bars of a line that are not escaped; \<open>prev\<close> is the character before.\<close>

fun bare_bars :: "char \<Rightarrow> string \<Rightarrow> nat" where
  "bare_bars prev [] = 0"
| "bare_bars prev (c # cs) = (if c = CHR ''|'' \<and> prev \<noteq> CHR 0x5C then 1 else 0) + bare_bars c cs"

lemma bare_bars_append: "bare_bars prev (s @ t) = bare_bars prev s + bare_bars (last (prev # s)) t"
  by (induction prev s rule: bare_bars.induct) auto

lemma bare_bars_escaped: "bare_bars prev (escape_table_cell s) = 0"
  by (induction s arbitrary: prev) (auto simp: escape_table_cell_def)

section \<open>Replacing the table\<close>

text \<open>A mark without a line feed does not straddle one.\<close>

lemma not_straddling:
  assumes "x \<notin> set sub" and "u @ [x] @ v = a @ sub @ b"
  shows "(\<exists>c. u = a @ sub @ c) \<or> (\<exists>c. v = c @ sub @ b)"
proof -
  have "u @ ([x] @ v) = (a @ sub) @ b" using assms(2) by simp
  then consider us where "u = (a @ sub) @ us" | us where "u @ us = a @ sub" "[x] @ v = us @ b"
    unfolding append_eq_append_conv2 by blast
  then show ?thesis
  proof cases
    case 1
    then show ?thesis by auto
  next
    case 2
    show ?thesis
    proof (cases us)
      case Nil
      then show ?thesis using 2 by auto
    next
      case (Cons y us')
      then have y: "y = x" "v = us' @ b" using 2(2) by auto
      from 2(1) consider ws where "u = a @ ws" "ws @ us = sub" | ws where "u @ ws = a" "us = ws @ sub"
        unfolding append_eq_append_conv2 by blast
      then show ?thesis
      proof cases
        case 1
        then have "x \<in> set sub" using Cons y(1) by auto
        then show ?thesis using assms(1) by simp
      next
        case 2
        then show ?thesis using assms(1) Cons y by (cases ws) auto
      qed
    qed
  qed
qed

lemma marker_end_no_newline: "CHR 0x0A \<notin> set MARKER_END"
  by (simp add: MARKER_END_def)

lemma marker_begin_no_newline: "CHR 0x0A \<notin> set MARKER_BEGIN"
  by (simp add: MARKER_BEGIN_def)

lemma index_sub_Inr: "index_sub sub s = Inr n \<longleftrightarrow> find_sub sub s = Some n"
  by (simp add: index_sub_def split: option.splits)

text \<open>The first mark after an edit: nothing before it has one, and it starts the rest.\<close>

lemma find_sub_first:
  assumes "\<not> occurs sub s" and "CHR 0x0A \<notin> set sub" and "sub \<noteq> []"
  shows "find_sub sub (s @ [CHR 0x0A] @ sub @ t) = Some (Suc (length s))"
proof (rule find_sub_intro)
  let ?s = "s @ [CHR 0x0A] @ sub @ t"
  show "starts_with (drop (Suc (length s)) ?s) sub" by simp
  show "Suc (length s) \<le> length ?s" by simp
  fix m assume m: "m < Suc (length s)"
  show "\<not> starts_with (drop m ?s) sub"
  proof
    assume "starts_with (drop m ?s) sub"
    then obtain b where "drop m ?s = sub @ b" by (auto simp: starts_with_iff)
    then have eq: "s @ [CHR 0x0A] @ sub @ t = take m ?s @ sub @ b" by (metis append_take_drop_id)
    from not_straddling [OF assms(2) eq] show False
    proof
      assume "\<exists>c. s = take m ?s @ sub @ c"
      then show False using assms(1) unfolding occurs_iff by blast
    next
      assume "\<exists>c. sub @ t = c @ sub @ b"
      then obtain c where "sub @ t = c @ sub @ b" by blast
      from arg_cong [OF this, of length] have "length b \<le> length t" by simp
      moreover have "Suc (length s + length t) = m + length b"
        using arg_cong [OF eq, of length] m by simp
      ultimately show False using m by simp
    qed
  qed
qed

text \<open>Replacing the table twice is replacing it once, when the marks are in order.\<close>

lemma replace_table_again:
  assumes "find_sub MARKER_BEGIN existing = Some b" and "find_sub MARKER_END existing = Some e"
    and "b + length MARKER_BEGIN \<le> e" and "\<not> occurs MARKER_END table"
    and "configuration_doc_with_table existing table = Inr doc"
  shows "configuration_doc_with_table doc table = Inr doc"
proof -
  let ?nl = "[CHR 0x0A] :: string" and ?b = "b + length MARKER_BEGIN"
  define u where "u = take ?b existing"
  define rest where "rest = drop (e + length MARKER_END) existing"
  have e: "drop e existing = MARKER_END @ rest"
  proof -
    obtain v where v: "drop e existing = MARKER_END @ v"
      using find_sub_Some [OF assms(2)] unfolding starts_with_iff by blast
    have "rest = drop (length MARKER_END) (drop e existing)" by (simp add: rest_def add.commute)
    then show ?thesis by (simp add: v)
  qed
  have doc: "doc = u @ ?nl @ ?nl @ table @ ?nl @ ?nl @ MARKER_END @ rest"
    using assms(1,2,5) e by (simp add: configuration_doc_with_table_def index_sub_def u_def)
  have lu: "length u = ?b" using find_sub_Some [OF assms(1)] by (simp add: u_def)
  have "find_sub MARKER_BEGIN doc = Some b"
    using find_sub_append [OF assms(1), of "?nl @ ?nl @ table @ ?nl @ ?nl @ MARKER_END @ rest"]
    by (simp add: doc u_def MARKER_BEGIN_def)
  moreover have "\<not> occurs MARKER_END (u @ ?nl @ ?nl @ table @ ?nl)"
  proof
    assume "occurs MARKER_END (u @ ?nl @ ?nl @ table @ ?nl)"
    then obtain a c where eq: "u @ ?nl @ (?nl @ table @ ?nl) = a @ MARKER_END @ c" by (auto simp: occurs_iff)
    have none: "\<not> occurs MARKER_END []" by (simp add: occurs_def MARKER_END_def)
    have "\<not> occurs MARKER_END u"
    proof
      assume "occurs MARKER_END u"
      then obtain n where n: "find_sub MARKER_END u = Some n" by (auto simp: occurs_def)
      from find_sub_Some [OF this] obtain v where v: "drop n u = MARKER_END @ v" "n + length MARKER_END \<le> length u"
        unfolding starts_with_iff by blast
      have "existing = u @ drop ?b existing" by (simp add: u_def)
      then have "drop n existing = drop n u @ drop (n - length u) (drop ?b existing)" by (metis drop_append)
      then have "starts_with (drop n existing) MARKER_END" unfolding v(1) by simp
      moreover have "n < e" using v(2) lu assms(3) by (simp add: MARKER_END_def)
      ultimately show False using find_sub_Some [OF assms(2)] by blast
    qed
    moreover have "\<not> occurs MARKER_END (?nl @ table @ ?nl)"
    proof
      assume "occurs MARKER_END (?nl @ table @ ?nl)"
      then obtain a c where "[] @ ?nl @ (table @ ?nl) = a @ MARKER_END @ c" by (auto simp: occurs_iff)
      from not_straddling [OF marker_end_no_newline this] none
      obtain a' c' where "table @ ?nl @ [] = a' @ MARKER_END @ c'" by (fastforce simp: occurs_iff)
      from not_straddling [OF marker_end_no_newline this] none assms(4) show False by (fastforce simp: occurs_iff)
    qed
    ultimately show False using not_straddling [OF marker_end_no_newline eq] by (fastforce simp: occurs_iff)
  qed
  then have "find_sub MARKER_END doc = Some (length (u @ ?nl @ ?nl @ table @ ?nl @ ?nl))"
    using find_sub_first [of MARKER_END "u @ ?nl @ ?nl @ table @ ?nl" rest] marker_end_no_newline
    by (simp add: doc MARKER_END_def)
  moreover have "take ?b doc = u" using lu by (simp add: doc)
  moreover have "drop (length (u @ ?nl @ ?nl @ table @ ?nl @ ?nl)) doc = MARKER_END @ rest"
    unfolding doc by (metis append_assoc append_eq_conv_conj)
  ultimately have "configuration_doc_with_table doc table = Inr (u @ [CHR 0x0A, CHR 0x0A] @ table @ [CHR 0x0A, CHR 0x0A] @ MARKER_END @ rest)"
    by (simp only: configuration_doc_with_table_def index_sub_def option.case try_then_simps)
  then show ?thesis by (simp add: doc)
qed

section \<open>Properties\<close>

text \<open>
  Wrapping a comment keeps every word of the text in order, starts each line with the comment mark,
  and keeps each line within the width unless a single word is too long for it.
\<close>

theorem wrap_comment_exact:
  "concat (map (\<lambda>l. tl (words l)) (wrap_comment width t)) = words t
   \<and> (\<forall>l \<in> set (wrap_comment width t). starts_with l ''# '' \<and> (length l \<le> width \<or> length (words l) = 2))"
proof -
  obtain parts where parts: "wrap_comment width t = map (\<lambda>p. join '' '' (''#'' # p)) parts" "concat parts = words t"
      "\<forall>p \<in> set parts. p \<noteq> [] \<and> (length (join '' '' (''#'' # p)) \<le> width \<or> length p = 1)"
    using wrap_comment_lines [of width t] by blast
  have line: "words (join '' '' (''#'' # p)) = ''#'' # p" if "p \<in> set parts" for p
  proof (rule words_join)
    fix w assume "w \<in> set (''#'' # p)"
    then show "is_word w" using that parts(2) words_are_words [of w t] is_word_hash by (metis UN_I set_ConsD set_concat)
  qed
  have "map (\<lambda>l. tl (words l)) (wrap_comment width t) = parts"
    using line by (simp add: parts(1) comp_def map_idI)
  moreover have "\<forall>l \<in> set (wrap_comment width t). length l \<le> width \<or> length (words l) = 2"
    using parts(3) line by (auto simp: parts(1) simp del: join.simps)
  ultimately show ?thesis using parts(2) wrap_comment_hash by auto
qed

theorem wrap_comment_exact_witness:
  "wrap_comment 12 ''one two three four'' = [''# one two'', ''# three four'']
   \<and> concat (map (\<lambda>l. tl (words l)) (wrap_comment 12 ''one two three four'')) = [''one'', ''two'', ''three'', ''four'']"
proof -
  have "words ''one two three four'' = [''one'', ''two'', ''three'', ''four'']"
    "wrap_comment 12 ''one two three four'' = [''# one two'', ''# three four'']"
    by code_simp+
  then show ?thesis using wrap_comment_exact [of 12 "''one two three four''"] by simp
qed

text \<open>
  In the example file nothing of an optional group is set: every line of its section is a comment, and
  so is every line of the section of any group nested below one.
\<close>

theorem optional_groups_stay_commented:
  assumes "g \<in> set (walk_model m path optional)" and "optional \<or> cg_optional g"
  shows "list_all (\<lambda>l. starts_with l ''# '') (group_section g)"
proof -
  have "cg_optional g" using walk_inherits_optional assms by blast
  then show ?thesis
    using wrap_comment_hash
    by (auto simp: group_section_def variable_lines_def OPTIONAL_NOTICE_def list_all_iff split: if_splits)
qed

text \<open>A settings model with an optional group and a group below it.\<close>

definition sample_model :: model where
  "sample_model = Model (Some ''Application settings.'')
     [(''environment'', FieldInfo (ALiteral [''local'', ''production'']) (Plain (VText ''local'')) (Some ''Where it runs.'') None []),
      (''payment'', FieldInfo (AUnion [AModel (Model (Some ''The provider.'')
         [(''base_url'', FieldInfo (ANamed ''HttpUrl'') Undefined (Some ''Its *base* URL.'') None []),
          (''http'', FieldInfo (AModel (Model (Some ''The client.'')
             [(''max_connections'', FieldInfo (AScalar IntType) (Plain (VInt 20)) (Some ''Pool size.'') None [Ge ''1''])]))
             (Factory (VInstance ''HttpClientSettings()'')) None None [])]), ANone]) NoneDefault None None [])]"

lemma sample_groups: "map (\<lambda>g. (cg_path g, cg_optional g)) (walk_model sample_model [] False)
    = [([], False), ([''payment''], True), ([''payment'', ''http''], True)]"
  by (simp add: sample_model_def)

theorem optional_groups_stay_commented_witness:
  "list_all (\<lambda>l. starts_with l ''# '') (group_section (walk_model sample_model [] False ! 2))
   \<and> cg_path (walk_model sample_model [] False ! 2) = [''payment'', ''http'']"
proof -
  let ?gs = "walk_model sample_model [] False"
  have len: "length ?gs = 3" using arg_cong [OF sample_groups, of length] by simp
  have "(\<lambda>g. (cg_path g, cg_optional g)) (?gs ! 2) = ([''payment'', ''http''], True)"
    using sample_groups len nth_map [of 2 ?gs "\<lambda>g. (cg_path g, cg_optional g)"] by simp
  moreover have "?gs ! 2 \<in> set ?gs" using len by simp
  ultimately show ?thesis using optional_groups_stay_commented [of "?gs ! 2" sample_model "[]" False] by simp
qed

text \<open>
  Each row of the configuration table has exactly four cells: five bars that are not escaped, whatever
  the names, types, defaults and descriptions contain.
\<close>

theorem row_has_four_cells:
  "bare_bars CHR '' '' (table_row v) = 5"
  by (simp add: table_row_def Let_def bare_bars_append bare_bars_escaped del: append.simps)

text \<open>
  C40: after the generator has written the two files its check finds nothing stale, and a second run changes
  nothing, when the configuration document has its two markers in order and no description contains the
  end marker.
\<close>

theorem generated_files_are_current:
  assumes "configuration_doc fs = Some existing"
    and "find_sub MARKER_BEGIN existing = Some b" and "find_sub MARKER_END existing = Some e"
    and "b + length MARKER_BEGIN \<le> e"
    and "\<not> occurs MARKER_END (render_markdown_table (walk_model sm [] False))"
  shows "\<exists>fs'. write_outputs sm fs = (Inr (), fs') \<and> check_outputs sm fs' = Inr [] \<and> write_outputs sm fs' = (Inr (), fs')
    \<and> config_docs_main sm True fs' = (Inr 0, fs')"
proof -
  let ?table = "render_markdown_table (walk_model sm [] False)"
  let ?env = "render_env_example (walk_model sm [] False)"
  obtain doc where doc: "configuration_doc_with_table existing ?table = Inr doc"
    using assms(2,3) by (simp add: configuration_doc_with_table_def index_sub_def)
  note again = replace_table_again [OF assms(2,3,4,5) doc]
  let ?fs = "fs\<lparr>env_example := Some ?env, configuration_doc := Some doc\<rparr>"
  have out: "rendered_outputs sm fs = Inr (?env, doc)"
    using assms(1) doc by (simp add: rendered_outputs_def Let_def read_text_def)
  have out': "rendered_outputs sm ?fs = Inr (?env, doc)"
    using again by (simp add: rendered_outputs_def Let_def read_text_def)
  have check: "check_outputs sm ?fs = Inr []" by (simp add: check_outputs_def out' read_text_def)
  show ?thesis
    using check out out' by (intro exI [of _ ?fs]) (simp add: write_outputs_def config_docs_main_def)
qed

definition small_model :: model where
  "small_model = Model (Some ''Application settings.'')
     [(''environment'', FieldInfo (ALiteral [''local'', ''production'']) (Plain (VText ''local'')) (Some ''Where it runs.'') None [])]"

theorem generated_files_are_current_witness:
  "\<exists>fs'. write_outputs small_model \<lparr>env_example = None, configuration_doc = Some (''# Configuration '' @ MARKER_BEGIN @ '' old '' @ MARKER_END)\<rparr>
       = (Inr (), fs')
     \<and> check_outputs small_model fs' = Inr []"
proof -
  let ?doc = "''# Configuration '' @ MARKER_BEGIN @ '' old '' @ MARKER_END"
  have "map_option (\<lambda>n. n) (find_sub MARKER_BEGIN ?doc) = Some 16" by code_simp
  moreover have "map_option (\<lambda>n. n) (find_sub MARKER_END ?doc) = Some 78" by code_simp
  moreover have "\<not> occurs MARKER_END (render_markdown_table (walk_model small_model [] False))" by code_simp
  moreover have "16 + length MARKER_BEGIN \<le> 78" by (simp add: MARKER_BEGIN_def)
  ultimately show ?thesis
    using generated_files_are_current [of "\<lparr>env_example = None, configuration_doc = Some ?doc\<rparr>" ?doc 16 78 small_model]
    by auto
qed

end
