(* ===== verification/DocsGates.thy ===== *)
theory DocsGates
  imports ContractGate
begin

text \<open>
  The scripts that keep the documentation honest: \<open>scripts/check_docs_updated.py\<close> (a change of source
  needs a change of documentation), \<open>scripts/check_docs_freshness.py\<close> (pages not reviewed, pages that
  describe what changed) and \<open>scripts/check_doc_examples.py\<close> (the marked shell examples). What \<open>git\<close>,
  \<open>yaml.safe_load\<close> and \<open>bash\<close> answer is an argument; a date is its ordinal number.

  The lemmas show that only marked blocks are run, whole (\<open>only_marked_examples_run\<close>), what the gates exit
  with (\<open>docs_updated_exact\<close>, \<open>examples_main_exact\<close>), and that the advisory check can fail all the same
  (\<open>freshness_can_fail\<close>).
\<close>

abbreviation NL :: char where "NL \<equiv> CHR 0x0A"

section \<open>A change of source needs documentation\<close>

definition DEFAULT_SOURCE_PREFIXES :: "string list" where "DEFAULT_SOURCE_PREFIXES = [''src/'']"

definition DEFAULT_DOCS_PATHS :: "string list" where "DEFAULT_DOCS_PATHS = [''docs/'', ''README.md'', ''mkdocs.yml'']"

definition changed_files :: "completed \<Rightarrow> exn + string list" where
  "changed_files git_diff = try_then (checked git_diff) (\<lambda>c. Inr (filter (\<lambda>l. l \<noteq> []) (split_lines (stdout c))))"

definition source_changes :: "string list \<Rightarrow> string list \<Rightarrow> string list" where
  "source_changes paths prefixes = filter (\<lambda>path. starts_with_any path prefixes) paths"

definition touches_docs :: "string list \<Rightarrow> string list \<Rightarrow> string option \<Rightarrow> bool" where
  "touches_docs paths docs_paths excluded_prefix \<longleftrightarrow>
     list_ex (\<lambda>path. starts_with_any path docs_paths
       \<and> (case excluded_prefix of None \<Rightarrow> True | Some p \<Rightarrow> \<not> starts_with path p)) paths"

text \<open>An option that was not given, or given no value, leaves the default.\<close>

definition or_default :: "string list option \<Rightarrow> string list \<Rightarrow> string list" where
  "or_default given fallback = (case given of None \<Rightarrow> fallback | Some [] \<Rightarrow> fallback | Some ps \<Rightarrow> ps)"

definition docs_updated_main ::
  "string list option \<Rightarrow> string list option \<Rightarrow> string option \<Rightarrow> completed \<Rightarrow> exn + nat" where
  "docs_updated_main source_arg docs_arg exclude_docs git_diff =
     (let source_prefixes = or_default source_arg DEFAULT_SOURCE_PREFIXES;
          docs_paths = or_default docs_arg DEFAULT_DOCS_PATHS
      in try_then (changed_files git_diff) (\<lambda>paths.
           if source_changes paths source_prefixes = [] \<or> touches_docs paths docs_paths exclude_docs then Inr 0 else Inr 1))"

section \<open>Pages and their front matter\<close>

definition EXCLUDED_PREFIXES :: "string list" where "EXCLUDED_PREFIXES = [''docs/adr/'']"

definition MAX_REVIEW_AGE_DAYS :: int where "MAX_REVIEW_AGE_DAYS = 180"

text \<open>A parsed YAML value; a time stamp is a \<open>datetime\<close>, which is a \<open>date\<close> for \<open>isinstance\<close>.\<close>

datatype yaml =
    YNull
  | YBool bool
  | YInt int
  | YStr string
  | YDay int
  | YMoment int
  | YSeq "yaml list"
  | YMap "(string \<times> yaml) list"
  | YOther string

datatype reviewed = ReviewDay int | ReviewMoment int

record page =
  pg_path :: string
  pg_last_reviewed :: "reviewed option"
  pg_covers :: "string list"

text \<open>The YAML between the fences; the second one is looked for from the fourth character on.\<close>

definition front_matter :: "string \<Rightarrow> string option" where
  "front_matter t =
     (if \<not> starts_with t (''---'' @ [NL]) then None
      else map_option (\<lambda>n. take n (drop 4 t)) (find_sub (NL # ''---'') (drop 4 t)))"

definition parse_frontmatter :: "(string \<Rightarrow> exn + yaml) \<Rightarrow> string \<Rightarrow> exn + (string \<times> yaml) list" where
  "parse_frontmatter safe_load t =
     (case front_matter t of
        None \<Rightarrow> Inr []
      | Some block \<Rightarrow> try_then (safe_load block) (\<lambda>loaded. Inr (case loaded of YMap kvs \<Rightarrow> kvs | _ \<Rightarrow> [])))"

fun yaml_truthy :: "yaml \<Rightarrow> bool" where
  "yaml_truthy YNull = False"
| "yaml_truthy (YBool b) = b"
| "yaml_truthy (YInt i) = (i \<noteq> 0)"
| "yaml_truthy (YStr s) = (s \<noteq> [])"
| "yaml_truthy (YSeq xs) = (xs \<noteq> [])"
| "yaml_truthy (YMap kvs) = (kvs \<noteq> [])"
| "yaml_truthy v = True"

text \<open>The entries of a value in a list comprehension; \<open>py_str_of\<close> is \<open>str\<close> of a parsed value.\<close>

fun yaml_entries :: "(yaml \<Rightarrow> string) \<Rightarrow> yaml \<Rightarrow> exn + string list" where
  "yaml_entries py_str_of (YSeq xs) = Inr (map py_str_of xs)"
| "yaml_entries py_str_of (YStr s) = Inr (map (\<lambda>c. [c]) s)"
| "yaml_entries py_str_of (YMap kvs) = Inr (map fst kvs)"
| "yaml_entries py_str_of v = Inl (Lib TypeError)"

definition covers_of :: "(yaml \<Rightarrow> string) \<Rightarrow> (string \<times> yaml) list \<Rightarrow> exn + string list" where
  "covers_of py_str_of meta =
     (case map_of (rev meta) ''covers'' of
        Some v \<Rightarrow> if yaml_truthy v then yaml_entries py_str_of v else Inr []
      | None \<Rightarrow> Inr [])"

definition reviewed_of :: "(string \<times> yaml) list \<Rightarrow> reviewed option" where
  "reviewed_of meta =
     (case map_of (rev meta) ''last_reviewed'' of
        Some (YDay d) \<Rightarrow> Some (ReviewDay d)
      | Some (YMoment m) \<Rightarrow> Some (ReviewMoment m)
      | _ \<Rightarrow> None)"

text \<open>The pages below the root, in the order \<open>sorted\<close> gives, each with its text.\<close>

definition load_pages ::
  "(string \<Rightarrow> exn + yaml) \<Rightarrow> (yaml \<Rightarrow> string) \<Rightarrow> (string \<times> string) list \<Rightarrow> string list \<Rightarrow> exn + page list" where
  "load_pages safe_load py_str_of files excluded_prefixes =
     map_sum_list (\<lambda>(path, t).
         try_then (parse_frontmatter safe_load t) (\<lambda>meta.
         try_then (covers_of py_str_of meta) (\<lambda>covers.
           Inr \<lparr>pg_path = path, pg_last_reviewed = reviewed_of meta, pg_covers = covers\<rparr>)))
       (filter (\<lambda>(path, t). \<not> starts_with_any path excluded_prefixes) files)"

text \<open>Comparing a \<open>datetime\<close> with a \<open>date\<close> raises.\<close>

definition is_stale :: "int \<Rightarrow> page \<Rightarrow> exn + bool" where
  "is_stale cutoff p =
     (case pg_last_reviewed p of
        None \<Rightarrow> Inr False
      | Some (ReviewDay d) \<Rightarrow> Inr (d < cutoff)
      | Some (ReviewMoment m) \<Rightarrow> Inl (Lib TypeError))"

definition stale_pages :: "page list \<Rightarrow> int \<Rightarrow> exn + page list" where
  "stale_pages pages today = filter_sum (is_stale (today - MAX_REVIEW_AGE_DAYS)) pages"

definition undeclared_pages :: "page list \<Rightarrow> page list" where
  "undeclared_pages pages = filter (\<lambda>p. pg_last_reviewed p = None) pages"

definition covers_path :: "string \<Rightarrow> string \<Rightarrow> bool" where
  "covers_path covered path \<longleftrightarrow> path = covered \<or> ends_with covered ''/'' \<and> starts_with path covered"

definition uncovered_changes :: "page list \<Rightarrow> string list \<Rightarrow> (string \<times> string) list" where
  "uncovered_changes pages changed =
     concat (map (\<lambda>p. if pg_path p \<in> set changed then []
       else map (\<lambda>covered. (pg_path p, covered)) (filter (\<lambda>covered. list_ex (covers_path covered) changed) (pg_covers p))) pages)"

datatype warning = StalePage string | UndeclaredPage string | UncoveredChange string string

text \<open>The exit code and the warnings printed.\<close>

definition freshness_main ::
  "(string \<Rightarrow> exn + yaml) \<Rightarrow> (yaml \<Rightarrow> string) \<Rightarrow> (string \<times> string) list \<Rightarrow> string list \<Rightarrow> completed \<Rightarrow> int \<Rightarrow>
   exn + nat \<times> warning list" where
  "freshness_main safe_load py_str_of files exclude git_diff today =
     try_then (load_pages safe_load py_str_of files (EXCLUDED_PREFIXES @ exclude)) (\<lambda>pages.
     try_then (changed_files git_diff) (\<lambda>changed.
     try_then (stale_pages pages today) (\<lambda>stale.
       Inr (0, map (\<lambda>p. StalePage (pg_path p)) stale
               @ map (\<lambda>p. UndeclaredPage (pg_path p)) (undeclared_pages pages)
               @ map (\<lambda>(p, covered). UncoveredChange p covered) (uncovered_changes pages changed)))))"

section \<open>The marked examples\<close>

definition MARKER :: string where "MARKER = ''<!-- exec -->''"

definition FENCE :: string where "FENCE = ''```''"

definition fence_languages :: "string list" where "fence_languages = [''bash'', ''shell'', ''console'']"

record doc_example =
  ex_path :: string
  ex_line :: nat
  ex_body :: string

text \<open>At the start of a line: the marker, the opening fence, and what follows.\<close>

definition block_open :: "string \<Rightarrow> string option" where
  "block_open s =
     (let head_text = MARKER @ [NL] @ FENCE; r = drop (length head_text) s
      in if \<not> starts_with s head_text then None
         else case find (\<lambda>lang. starts_with r (lang @ [NL])) fence_languages of
           None \<Rightarrow> None
         | Some lang \<Rightarrow> Some (drop (length lang + 1) r))"

text \<open>The body up to the first line that starts with the closing fence; \<open>bol\<close> says whether a line starts here.\<close>

fun close_at :: "bool \<Rightarrow> string \<Rightarrow> (string \<times> string) option" where
  "close_at bol [] = None"
| "close_at bol (c # cs) =
     (if bol \<and> starts_with (c # cs) FENCE then Some ([], drop (length FENCE) (c # cs))
      else map_option (\<lambda>(blk, rest). (c # blk, rest)) (close_at (c = NL) cs))"

definition newlines :: "string \<Rightarrow> nat" where
  "newlines s = length (filter (\<lambda>c. c = NL) s)"

definition block_at :: "bool \<Rightarrow> string \<Rightarrow> (string \<times> string) option" where
  "block_at bol s = (if \<not> bol then None else case block_open s of None \<Rightarrow> None | Some r \<Rightarrow> close_at True r)"

lemma close_at_parts: "close_at bol s = Some (blk, rest) \<Longrightarrow> s = blk @ FENCE @ rest"
proof (induction bol s arbitrary: blk rule: close_at.induct)
  case (2 bol c cs)
  show ?case
  proof (cases "bol \<and> starts_with (c # cs) FENCE")
    case True
    then have "blk = []" "rest = drop (length FENCE) (c # cs)" using 2(2) by simp_all
    moreover obtain u where "c # cs = FENCE @ u" using True by (auto simp: starts_with_iff)
    ultimately show ?thesis by simp
  next
    case False
    then show ?thesis using 2 by (auto split: if_splits)
  qed
qed simp

lemma block_open_parts:
  assumes "block_open s = Some r"
  shows "\<exists>lang \<in> set fence_languages. s = MARKER @ [NL] @ FENCE @ lang @ [NL] @ r"
proof -
  define head_text where "head_text = MARKER @ [NL] @ FENCE"
  have o: "block_open s =
     (let r = drop (length head_text) s
      in if \<not> starts_with s head_text then None
         else case find (\<lambda>lang. starts_with r (lang @ [NL])) fence_languages of
           None \<Rightarrow> None
         | Some lang \<Rightarrow> Some (drop (length lang + 1) r))"
    by (simp only: block_open_def head_text_def Let_def)
  obtain t where t: "s = head_text @ t"
    using assms unfolding o Let_def by (auto simp: starts_with_iff split: if_splits)
  then have "(case find (\<lambda>lang. starts_with t (lang @ [NL])) fence_languages of
      None \<Rightarrow> None | Some lang \<Rightarrow> Some (drop (length lang + 1) t)) = Some r"
    using assms unfolding o by (simp add: Let_def)
  then obtain lang where "find (\<lambda>lang. starts_with t (lang @ [NL])) fence_languages = Some lang" "r = drop (length lang + 1) t"
    by (auto split: option.splits)
  moreover from this(1) have "lang \<in> set fence_languages" "starts_with t (lang @ [NL])"
    by (auto simp: find_Some_iff)
  ultimately show ?thesis using t unfolding head_text_def by (auto simp: starts_with_iff)
qed

lemma block_at_parts:
  assumes "block_at bol s = Some (blk, rest)"
  shows "bol \<and> (\<exists>lang \<in> set fence_languages. s = MARKER @ [NL] @ FENCE @ lang @ [NL] @ blk @ FENCE @ rest)"
proof -
  obtain r where r: "bol" "block_open s = Some r" "close_at True r = Some (blk, rest)"
    using assms by (auto simp: block_at_def split: if_splits option.splits)
  then show ?thesis using block_open_parts [OF r(2)] close_at_parts [OF r(3)] by auto
qed

text \<open>Every match in turn, with the number of its line.\<close>

function find_blocks :: "bool \<Rightarrow> nat \<Rightarrow> string \<Rightarrow> (nat \<times> string) list" where
  "find_blocks bol line [] = []"
| "find_blocks bol line (c # cs) =
     (case block_at bol (c # cs) of
        Some (blk, rest) \<Rightarrow> (line, blk) # find_blocks False (line + 2 + newlines blk) rest
      | None \<Rightarrow> find_blocks (c = NL) (if c = NL then line + 1 else line) cs)"
  by pat_completeness auto

termination find_blocks
proof (relation "measure (\<lambda>(bol, line, s). length s)")
  fix bol line c cs x blk rest
  assume "block_at bol (c # cs) = Some x" and "(blk, rest) = x"
  then obtain lang where "c # cs = MARKER @ [NL] @ FENCE @ lang @ [NL] @ blk @ FENCE @ rest"
    using block_at_parts by blast
  from arg_cong [OF this, of length] have "length rest < length (c # cs)" by simp
  then show "((False, line + 2 + newlines blk, rest), bol, line, c # cs) \<in> measure (\<lambda>(bol, line, s). length s)"
    by simp
qed auto

definition find_examples :: "(string \<times> string) list \<Rightarrow> doc_example list" where
  "find_examples files =
     concat (map (\<lambda>(path, t). map (\<lambda>(line, blk). \<lparr>ex_path = path, ex_line = line, ex_body = blk\<rparr>) (find_blocks True 1 t))
       (filter (\<lambda>(path, t). ''superpowers'' \<notin> set (split_char (CHR ''/'') path)) files))"

text \<open>\<open>bash\<close> is what running a body gives: its exit code and output, or an exception (a timeout).\<close>

definition run_example :: "(string \<Rightarrow> exn + completed) \<Rightarrow> doc_example \<Rightarrow> exn + bool \<times> string" where
  "run_example bash ex = try_then (bash (ex_body ex)) (\<lambda>c. Inr (returncode c = 0, stdout c @ stderr c))"

definition examples_main :: "(string \<Rightarrow> exn + completed) \<Rightarrow> (string \<times> string) list \<Rightarrow> exn + nat" where
  "examples_main bash files =
     (let examples = find_examples files
      in if examples = [] then Inr 1
         else try_then (map_sum_list (run_example bash) examples) (\<lambda>results.
           Inr (if length (filter (\<lambda>(ok, out). \<not> ok) results) \<noteq> 0 then 1 else 0)))"

section \<open>What is found\<close>

text \<open>What the scan found in a text, of which \<open>pre\<close> is behind it.\<close>

lemma find_blocks_found:
  assumes "(n, blk) \<in> set (find_blocks bol line s)"
    and "bol \<longleftrightarrow> pre = [] \<or> last pre = NL" and "line = Suc (newlines pre)"
  shows "\<exists>pre' lang post. pre @ s = pre' @ MARKER @ [NL] @ FENCE @ lang @ [NL] @ blk @ FENCE @ post
    \<and> lang \<in> set fence_languages \<and> (pre' = [] \<or> last pre' = NL) \<and> n = Suc (newlines pre')"
  using assms
proof (induction bol line s arbitrary: pre rule: find_blocks.induct)
  case (2 bol line c cs)
  show ?case
  proof (cases "block_at bol (c # cs)")
    case None
    have "(n, blk) \<in> set (find_blocks (c = NL) (if c = NL then line + 1 else line) cs)" using 2(3) None by simp
    from 2(1) [OF None this, of "pre @ [c]"] 2(5) show ?thesis by (auto simp: newlines_def)
  next
    case (Some p)
    obtain b rest where p: "p = (b, rest)" by (metis prod.exhaust)
    from block_at_parts [OF Some [unfolded p]]
    obtain lang where lang: "bol" "lang \<in> set fence_languages"
        "c # cs = MARKER @ [NL] @ FENCE @ lang @ [NL] @ b @ FENCE @ rest"
      by blast
    from 2(3) Some p consider "n = line" "blk = b" | "(n, blk) \<in> set (find_blocks False (line + 2 + newlines b) rest)" by auto
    then show ?thesis
    proof cases
      case 1
      then show ?thesis using lang 2(4,5) by (intro exI [of _ pre] exI [of _ lang] exI [of _ rest]) simp
    next
      case 2: 2
      let ?pre = "pre @ MARKER @ [NL] @ FENCE @ lang @ [NL] @ b @ FENCE"
      have "newlines MARKER = 0" "newlines FENCE = 0" "newlines lang = 0"
        using lang(2) by (auto simp: newlines_def MARKER_def FENCE_def fence_languages_def)
      then have "line + 2 + newlines b = Suc (newlines ?pre)" using \<open>line = Suc (newlines pre)\<close> by (simp add: newlines_def)
      moreover have "False \<longleftrightarrow> ?pre = [] \<or> last ?pre = NL" by (simp add: FENCE_def)
      moreover have "pre @ c # cs = ?pre @ rest" using lang(3) by simp
      ultimately show ?thesis
        using "2.IH"(2) [OF Some p [symmetric] 2, of ?pre] by metis
    qed
  qed
qed simp

section \<open>Properties\<close>

text \<open>
  Only marked blocks are run, and as they are written: a body that is executed stands in its page
  between a fence of one of the three languages, on a line of its own directly below the marker, and a
  closing fence, and it is reported under the line of its marker.
\<close>

theorem only_marked_examples_run:
  assumes "ex \<in> set (find_examples files)"
  shows "\<exists>t pre lang post. (ex_path ex, t) \<in> set files
    \<and> t = pre @ MARKER @ [NL] @ FENCE @ lang @ [NL] @ ex_body ex @ FENCE @ post
    \<and> lang \<in> set fence_languages \<and> (pre = [] \<or> last pre = NL) \<and> ex_line ex = Suc (newlines pre)"
proof -
  obtain t where t: "(ex_path ex, t) \<in> set files" "(ex_line ex, ex_body ex) \<in> set (find_blocks True 1 t)"
    using assms by (auto simp: find_examples_def)
  from find_blocks_found [OF t(2), of "[]"] t(1) show ?thesis by (auto simp: newlines_def)
qed

definition sample_page :: string where
  "sample_page = ''# Use'' @ [NL] @ ''```bash'' @ [NL] @ ''rm x'' @ [NL] @ ''```'' @ [NL]
     @ MARKER @ [NL] @ ''```bash'' @ [NL] @ ''curl x'' @ [NL] @ ''```'' @ [NL]"

theorem only_marked_examples_run_witness:
  "find_examples [(''docs/use.md'', sample_page)] = [\<lparr>ex_path = ''docs/use.md'', ex_line = 5, ex_body = ''curl x'' @ [NL]\<rparr>]
   \<and> (\<exists>pre lang post. sample_page = pre @ MARKER @ [NL] @ FENCE @ lang @ [NL] @ ''curl x'' @ [NL] @ FENCE @ post)"
proof -
  let ?ex = "\<lparr>ex_path = ''docs/use.md'', ex_line = 5, ex_body = ''curl x'' @ [NL]\<rparr>"
  have found: "find_examples [(''docs/use.md'', sample_page)] = [?ex]" by code_simp
  obtain pre lang post where "sample_page = pre @ MARKER @ [NL] @ FENCE @ lang @ [NL] @ (''curl x'' @ [NL]) @ FENCE @ post"
      "lang \<in> set fence_languages"
    using only_marked_examples_run [of ?ex "[(''docs/use.md'', sample_page)]"] found by auto
  then show ?thesis using found by (intro conjI exI) simp_all
qed

text \<open>
  The check of the examples passes exactly when there is an example and every one of them exits with 0;
  none at all is a failure.
\<close>

theorem examples_main_exact:
  "examples_main bash files = Inr 0 \<longleftrightarrow>
     find_examples files \<noteq> [] \<and> (\<forall>ex \<in> set (find_examples files). \<exists>c. bash (ex_body ex) = Inr c \<and> returncode c = 0)"
proof -
  have ran: "(\<exists>out. run_example bash ex = Inr (True, out)) \<longleftrightarrow> (\<exists>c. bash (ex_body ex) = Inr c \<and> returncode c = 0)" for ex
    by (cases "bash (ex_body ex)") (auto simp: run_example_def)
  have all: "(\<exists>results. map_sum_list (run_example bash) exs = Inr results \<and> (\<forall>r \<in> set results. fst r))
      \<longleftrightarrow> (\<forall>ex \<in> set exs. \<exists>c. bash (ex_body ex) = Inr c \<and> returncode c = 0)" for exs
    unfolding ran [symmetric]
  proof (induction exs)
    case (Cons ex exs)
    then show ?case
      by (cases "run_example bash ex"; cases "map_sum_list (run_example bash) exs") auto
  qed simp
  have "examples_main bash files = Inr 0 \<longleftrightarrow> find_examples files \<noteq> []
      \<and> (\<exists>results. map_sum_list (run_example bash) (find_examples files) = Inr results \<and> (\<forall>r \<in> set results. fst r))"
    by (cases "map_sum_list (run_example bash) (find_examples files)")
      (simp_all add: examples_main_def Let_def filter_empty_conv case_prod_beta)
  then show ?thesis using all by simp
qed

text \<open>
  The gate on undocumented changes fails exactly when a changed path is below a watched prefix and no
  changed path is a documented surface.
\<close>

theorem docs_updated_exact:
  assumes "changed_files git_diff = Inr paths"
  shows "docs_updated_main source_arg docs_arg exclude_docs git_diff = Inr (if
      (\<exists>path \<in> set paths. \<exists>p \<in> set (or_default source_arg DEFAULT_SOURCE_PREFIXES). starts_with path p)
      \<and> \<not> (\<exists>path \<in> set paths. (\<exists>p \<in> set (or_default docs_arg DEFAULT_DOCS_PATHS). starts_with path p)
            \<and> (\<forall>x. exclude_docs = Some x \<longrightarrow> \<not> starts_with path x))
      then 1 else 0)"
  using assms
  by (auto simp: docs_updated_main_def Let_def source_changes_def touches_docs_def list_ex_iff starts_with_any_def
      filter_empty_conv split: option.splits)

text \<open>
  The advisory check can fail: a page whose review date carries a time is a date for the check on loading and
  then cannot be compared with one, so the script ends with an exception where it promises exit code 0.
\<close>

theorem freshness_can_fail:
  assumes "p \<in> set pages" and "pg_last_reviewed p = Some (ReviewMoment m)"
  shows "\<exists>e. stale_pages pages today = Inl e"
  using assms(1) unfolding stale_pages_def
proof (induction pages)
  case (Cons q pages)
  show ?case
  proof (cases "q = p")
    case True
    then show ?thesis using assms(2) by (simp add: is_stale_def)
  next
    case False
    then show ?thesis using Cons by (cases "is_stale (today - MAX_REVIEW_AGE_DAYS) q") auto
  qed
qed simp

end
