(* ===== verification/Clients.thy ===== *)
theory Clients
  imports Lifecycle
begin

text \<open>
  The clients the composition root constructs (\<open>infrastructure/db/engine.py\<close>,
  \<open>infrastructure/http/client.py\<close>, \<open>infrastructure/cache/client.py\<close>,
  \<open>infrastructure/storage/client.py\<close>, \<open>infrastructure/storage/receipt_store.py\<close>): a client is a record
  of the arguments it is constructed with, since the libraries behind them are outside.

  The lemmas show that every wait of every client has a positive deadline, that the ceilings on
  connections are exact, and that the container holds these clients (\<open>every_client_is_bounded\<close>); and
  the one deadline the settings let an operator switch off (\<open>statement_timeout_can_be_off\<close>).
\<close>

section \<open>HTTP\<close>

record http_timeout =
  to_connect :: rat
  to_read :: rat
  to_write :: rat
  to_pool :: rat

record http_client_config =
  hc_base_url :: string
  hc_headers :: "(string \<times> string) list"
  hc_timeout :: http_timeout
  hc_max_connections :: int
  hc_max_keepalive_connections :: int

definition build_http_client ::
  "http_client_settings \<Rightarrow> string \<Rightarrow> (string \<times> string) list option \<Rightarrow> http_client_config" where
  "build_http_client s base_url headers =
     \<lparr>hc_base_url = base_url,
      hc_headers = (case headers of None \<Rightarrow> [] | Some hs \<Rightarrow> hs),
      hc_timeout = \<lparr>to_connect = http_connect_timeout_seconds s, to_read = http_read_timeout_seconds s,
        to_write = http_write_timeout_seconds s, to_pool = http_pool_timeout_seconds s\<rparr>,
      hc_max_connections = http_max_connections s,
      hc_max_keepalive_connections = http_max_keepalive_connections s\<rparr>"

text \<open>The retry loop of \<open>HttpPaymentGateway\<close>: what its \<open>__init__\<close> constructs the caller with.\<close>

definition RETRY_WALL_CLOCK_TIMEOUT_SECONDS :: rat where
  "RETRY_WALL_CLOCK_TIMEOUT_SECONDS = 45"

definition RETRY_WAIT_JITTER_SECONDS :: rat where
  "RETRY_WAIT_JITTER_SECONDS = 1"

record retrying_caller =
  ry_attempts :: int
  ry_wait_initial :: rat
  ry_wait_max :: rat
  ry_timeout :: rat
  ry_wait_jitter :: rat

definition mk_retrying_caller :: "int \<Rightarrow> rat \<Rightarrow> rat \<Rightarrow> retrying_caller" where
  "mk_retrying_caller n wait_initial_seconds wait_max_seconds =
     \<lparr>ry_attempts = n, ry_wait_initial = wait_initial_seconds, ry_wait_max = wait_max_seconds,
      ry_timeout = RETRY_WALL_CLOCK_TIMEOUT_SECONDS, ry_wait_jitter = RETRY_WAIT_JITTER_SECONDS\<rparr>"

section \<open>PostgreSQL\<close>

record engine_config =
  ec_url :: string
  ec_pool_size :: int
  ec_max_overflow :: int
  ec_pool_pre_ping :: bool
  ec_hide_parameters :: bool
  ec_server_settings :: "(string \<times> string) list"

definition build_engine :: "(string \<Rightarrow> bool) \<Rightarrow> database_settings \<Rightarrow> exn + engine_config" where
  "build_engine bracketed_ok s =
     try_then (async_dsn bracketed_ok (db_dsn s)) (\<lambda>url.
       Inr \<lparr>ec_url = url, ec_pool_size = db_pool_size s, ec_max_overflow = 0, ec_pool_pre_ping = True,
            ec_hide_parameters = True,
            ec_server_settings = [(''statement_timeout'', int_str (db_statement_timeout_ms s))]\<rparr>)"

record sessionmaker_config =
  sm_engine :: engine_config
  sm_expire_on_commit :: bool

definition build_sessionmaker :: "engine_config \<Rightarrow> sessionmaker_config" where
  "build_sessionmaker engine = \<lparr>sm_engine = engine, sm_expire_on_commit = False\<rparr>"

section \<open>Redis\<close>

record redis_config =
  rc_url :: string
  rc_max_connections :: int
  rc_socket_connect_timeout :: rat
  rc_socket_timeout :: rat
  rc_decode_responses :: bool

definition build_redis_client :: "cache_settings \<Rightarrow> redis_config" where
  "build_redis_client s =
     \<lparr>rc_url = cache_dsn s, rc_max_connections = cache_pool_size s,
      rc_socket_connect_timeout = cache_connect_timeout_seconds s,
      rc_socket_timeout = cache_operation_timeout_seconds s, rc_decode_responses = False\<rparr>"

section \<open>S3\<close>

record s3_session =
  aws_access_key_id :: string
  aws_secret_access_key :: string
  region_name :: string

definition build_s3_session :: "storage_settings \<Rightarrow> s3_session" where
  "build_s3_session s =
     \<lparr>aws_access_key_id = st_access_key_id s, aws_secret_access_key = st_secret_access_key s,
      region_name = st_region s\<rparr>"

record s3_config =
  s3_connect_timeout :: rat
  s3_read_timeout :: rat
  s3_max_attempts :: nat
  s3_retry_mode :: string
  s3_addressing_style :: string

definition build_client_config :: "storage_settings \<Rightarrow> s3_config" where
  "build_client_config s =
     \<lparr>s3_connect_timeout = st_connect_timeout_seconds s, s3_read_timeout = st_read_timeout_seconds s,
      s3_max_attempts = 2, s3_retry_mode = ''standard'', s3_addressing_style = ''path''\<rparr>"

text \<open>The receipt store's fields, and the client it opens for each call.\<close>

record s3_receipt_store =
  rs_session :: s3_session
  rs_config :: s3_config
  rs_bucket :: string
  rs_endpoint_url :: "string option"

definition mk_s3_receipt_store :: "s3_session \<Rightarrow> s3_config \<Rightarrow> storage_settings \<Rightarrow> s3_receipt_store" where
  "mk_s3_receipt_store session config s =
     \<lparr>rs_session = session, rs_config = config, rs_bucket = st_bucket s, rs_endpoint_url = st_endpoint_url s\<rparr>"

definition s3_client :: "s3_receipt_store \<Rightarrow> s3_session \<times> string \<times> string option \<times> s3_config" where
  "s3_client st = (rs_session st, ''s3'', rs_endpoint_url st, rs_config st)"

section \<open>All of them\<close>

record clients =
  cls_http :: "http_client_config option"
  cls_retrying :: "retrying_caller option"
  cls_database :: "sessionmaker_config option"
  cls_redis :: "redis_config option"
  cls_storage :: "s3_receipt_store option"

text \<open>What \<open>build_container\<close> constructs, in the order it does.\<close>

definition build_clients :: "(string \<Rightarrow> bool) \<Rightarrow> settings \<Rightarrow> exn + clients" where
  "build_clients bracketed_ok s =
     (let http = map_option (\<lambda>p. build_http_client (pay_http p) (pay_base_url p)
                   (case pay_api_key p of None \<Rightarrow> None | Some k \<Rightarrow> Some (bearer_header (Some k)))) (payment s)
      in try_then (case database s of None \<Rightarrow> Inr None | Some d \<Rightarrow> try_then (build_engine bracketed_ok d) (\<lambda>e. Inr (Some e))) (\<lambda>engine.
           Inr \<lparr>cls_http = http,
                cls_retrying = map_option (\<lambda>p. mk_retrying_caller (pay_retry_attempts p)
                  (pay_retry_initial_wait_seconds p) (pay_retry_max_wait_seconds p)) (payment s),
                cls_database = map_option build_sessionmaker engine,
                cls_redis = map_option build_redis_client (cache s),
                cls_storage = map_option (\<lambda>st. mk_s3_receipt_store (build_s3_session st) (build_client_config st) st) (storage s)\<rparr>))"

text \<open>Every wait a client may be in, with its deadline in seconds, and every ceiling on connections.\<close>

definition deadlines :: "clients \<Rightarrow> rat list" where
  "deadlines cs =
     (case cls_http cs of None \<Rightarrow> []
      | Some h \<Rightarrow> [to_connect (hc_timeout h), to_read (hc_timeout h), to_write (hc_timeout h), to_pool (hc_timeout h)])
     @ (case cls_retrying cs of None \<Rightarrow> [] | Some y \<Rightarrow> [ry_timeout y])
     @ (case cls_redis cs of None \<Rightarrow> [] | Some r \<Rightarrow> [rc_socket_connect_timeout r, rc_socket_timeout r])
     @ (case cls_storage cs of None \<Rightarrow> [] | Some st \<Rightarrow> [s3_connect_timeout (rs_config st), s3_read_timeout (rs_config st)])"

definition connection_limits :: "clients \<Rightarrow> int list" where
  "connection_limits cs =
     (case cls_http cs of None \<Rightarrow> [] | Some h \<Rightarrow> [hc_max_connections h])
     @ (case cls_database cs of None \<Rightarrow> [] | Some d \<Rightarrow> [ec_pool_size (sm_engine d) + ec_max_overflow (sm_engine d)])
     @ (case cls_redis cs of None \<Rightarrow> [] | Some r \<Rightarrow> [rc_max_connections r])"

lemma settings_valid_parts:
  assumes "settings_valid bracketed_ok s"
  shows "payment s = Some p \<Longrightarrow> payment_settings_valid p" "cache s = Some c \<Longrightarrow> cache_settings_valid c"
    "storage s = Some st \<Longrightarrow> storage_settings_valid st" "database s = Some d \<Longrightarrow> database_settings_valid bracketed_ok d"
  using assms by (simp_all add: settings_valid_def)

lemma build_clients_fields:
  assumes "build_clients bracketed_ok s = Inr cs"
  shows "cls_http cs = map_option (\<lambda>p. build_http_client (pay_http p) (pay_base_url p)
      (case pay_api_key p of None \<Rightarrow> None | Some k \<Rightarrow> Some (bearer_header (Some k)))) (payment s)"
    and "cls_retrying cs = map_option (\<lambda>p. mk_retrying_caller (pay_retry_attempts p)
      (pay_retry_initial_wait_seconds p) (pay_retry_max_wait_seconds p)) (payment s)"
    and "cls_redis cs = map_option build_redis_client (cache s)"
    and "cls_storage cs = map_option (\<lambda>st. mk_s3_receipt_store (build_s3_session st) (build_client_config st) st) (storage s)"
    and "cls_database cs = Some m \<Longrightarrow> \<exists>d. database s = Some d \<and> build_engine bracketed_ok d = Inr (sm_engine m)"
    and "cls_database cs = None \<longleftrightarrow> database s = None"
  using assms
  by (auto simp: build_clients_def Let_def build_sessionmaker_def try_then_Inr_iff split: option.splits)

lemma build_engine_Inr:
  "build_engine bracketed_ok d = Inr e \<Longrightarrow> ec_pool_size e = db_pool_size d \<and> ec_max_overflow e = 0"
  by (auto simp: build_engine_def try_then_Inr_iff)

lemma build_clients_deadlines:
  assumes "settings_valid bracketed_ok s" and "build_clients bracketed_ok s = Inr cs"
  shows "list_all (\<lambda>d. 0 < d) (deadlines cs)" and "list_all (\<lambda>n. 1 \<le> n) (connection_limits cs)"
    and "cls_retrying cs = Some y \<Longrightarrow> 1 \<le> ry_attempts y"
proof -
  note fields = build_clients_fields [OF assms(2)] and valid = settings_valid_parts [OF assms(1)]
  have "list_all (\<lambda>d. 0 < d) (case cls_http cs of None \<Rightarrow> []
      | Some h \<Rightarrow> [to_connect (hc_timeout h), to_read (hc_timeout h), to_write (hc_timeout h), to_pool (hc_timeout h)])"
    using valid(1)
    by (cases "payment s") (auto simp: fields build_http_client_def payment_settings_valid_def http_client_settings_valid_def)
  moreover have "list_all (\<lambda>d. 0 < d) (case cls_retrying cs of None \<Rightarrow> [] | Some y \<Rightarrow> [ry_timeout y])"
    by (cases "payment s") (auto simp: fields mk_retrying_caller_def RETRY_WALL_CLOCK_TIMEOUT_SECONDS_def)
  moreover have "list_all (\<lambda>d. 0 < d) (case cls_redis cs of None \<Rightarrow> [] | Some r \<Rightarrow> [rc_socket_connect_timeout r, rc_socket_timeout r])"
    using valid(2) by (cases "cache s") (auto simp: fields build_redis_client_def cache_settings_valid_def)
  moreover have "list_all (\<lambda>d. 0 < d) (case cls_storage cs of None \<Rightarrow> []
      | Some st \<Rightarrow> [s3_connect_timeout (rs_config st), s3_read_timeout (rs_config st)])"
    using valid(3)
    by (cases "storage s") (auto simp: fields mk_s3_receipt_store_def build_client_config_def storage_settings_valid_def)
  ultimately show "list_all (\<lambda>d. 0 < d) (deadlines cs)" by (simp add: deadlines_def)
  have "list_all (\<lambda>n. 1 \<le> n) (case cls_http cs of None \<Rightarrow> [] | Some h \<Rightarrow> [hc_max_connections h])"
    using valid(1)
    by (cases "payment s") (auto simp: fields build_http_client_def payment_settings_valid_def http_client_settings_valid_def)
  moreover have "list_all (\<lambda>n. 1 \<le> n)
      (case cls_database cs of None \<Rightarrow> [] | Some d \<Rightarrow> [ec_pool_size (sm_engine d) + ec_max_overflow (sm_engine d)])"
  proof (cases "cls_database cs")
    case (Some m)
    then obtain d where "database s = Some d" "build_engine bracketed_ok d = Inr (sm_engine m)" using fields(5) by blast
    then show ?thesis using Some valid(4) build_engine_Inr by (fastforce simp: database_settings_valid_def)
  qed simp
  moreover have "list_all (\<lambda>n. 1 \<le> n) (case cls_redis cs of None \<Rightarrow> [] | Some r \<Rightarrow> [rc_max_connections r])"
    using valid(2) by (cases "cache s") (auto simp: fields build_redis_client_def cache_settings_valid_def)
  ultimately show "list_all (\<lambda>n. 1 \<le> n) (connection_limits cs)" by (simp add: connection_limits_def)
  show "1 \<le> ry_attempts y" if "cls_retrying cs = Some y"
    using that valid(1) by (auto simp: fields mk_retrying_caller_def payment_settings_valid_def)
qed

text \<open>The container's handles are those of the clients.\<close>

lemma build_clients_container:
  assumes "build_container bracketed_ok s = Inr c"
  shows "\<exists>cs. build_clients bracketed_ok s = Inr cs
    \<and> c_engine c = map_option (ec_url \<circ> sm_engine) (cls_database cs)
    \<and> c_http_client c = map_option hc_base_url (cls_http cs) \<and> c_redis c = map_option rc_url (cls_redis cs)"
  using assms
  by (auto simp: build_clients_def build_container_def Let_def select_payments_def select_orders_def wrap_cache_def
      build_http_client_def build_redis_client_def build_engine_def build_sessionmaker_def try_then_Inr_iff
      split: option.splits)

section \<open>Properties\<close>

text \<open>
  No HTTP, Redis or S3 call waits without a limit: settings that passed validation build every client,
  each of these timeouts is positive, each pool has room for a connection and never for more than its
  setting says, a payment is attempted at least once and an S3 call at most twice, and the clients are the
  ones the container holds.
\<close>

theorem every_client_is_bounded:
  assumes "settings_valid bracketed_ok s"
    and "\<And>d. database s = Some d \<Longrightarrow> \<exists>scheme rest. db_dsn d = scheme @ ''://'' @ rest \<and> CHR '':'' \<notin> set scheme"
  shows "\<exists>c cs. build_container bracketed_ok s = Inr c \<and> build_clients bracketed_ok s = Inr cs
    \<and> c_engine c = map_option (ec_url \<circ> sm_engine) (cls_database cs)
    \<and> c_http_client c = map_option hc_base_url (cls_http cs) \<and> c_redis c = map_option rc_url (cls_redis cs)
    \<and> list_all (\<lambda>d. 0 < d) (deadlines cs) \<and> list_all (\<lambda>n. 1 \<le> n) (connection_limits cs)
    \<and> (\<forall>d. cls_database cs = Some d \<longrightarrow> ec_max_overflow (sm_engine d) = 0)
    \<and> (\<forall>st. cls_storage cs = Some st \<longrightarrow> s3_max_attempts (rs_config st) = 2)
    \<and> (\<forall>y. cls_retrying cs = Some y \<longrightarrow> 1 \<le> ry_attempts y)"
proof -
  obtain c where c: "build_container bracketed_ok s = Inr c" using valid_settings_container [OF assms] by blast
  obtain cs where cs: "build_clients bracketed_ok s = Inr cs"
      "c_engine c = map_option (ec_url \<circ> sm_engine) (cls_database cs)"
      "c_http_client c = map_option hc_base_url (cls_http cs)" "c_redis c = map_option rc_url (cls_redis cs)"
    using build_clients_container [OF c] by blast
  have "ec_max_overflow (sm_engine d) = 0" if "cls_database cs = Some d" for d
    using build_clients_fields(5) [OF cs(1) that] build_engine_Inr by blast
  moreover have "s3_max_attempts (rs_config st) = 2" if "cls_storage cs = Some st" for st
    using that by (auto simp: build_clients_fields(4) [OF cs(1)] mk_s3_receipt_store_def build_client_config_def)
  ultimately show ?thesis using c cs build_clients_deadlines [OF assms(1) cs(1)] by blast
qed

theorem every_client_is_bounded_witness:
  "\<exists>cs. build_clients (\<lambda>n. True) full_settings = Inr cs \<and> deadlines cs = [2, 5, 5, 1, 45, 1 / 2, 1 / 2]
    \<and> connection_limits cs = [20, 10, 10] \<and> list_all (\<lambda>d. 0 < d) (deadlines cs)"
proof -
  obtain cs where cs: "build_clients (\<lambda>n. True) full_settings = Inr cs" "list_all (\<lambda>d. 0 < d) (deadlines cs)"
    using every_client_is_bounded [OF full_settings_valid full_dsn_shape] by blast
  then show ?thesis
    by (auto simp: build_clients_def Let_def full_settings_def default_settings_def build_engine_def try_then_Inr_iff
        deadlines_def connection_limits_def build_http_client_def build_redis_client_def build_sessionmaker_def
        mk_retrying_caller_def RETRY_WALL_CLOCK_TIMEOUT_SECONDS_def)
qed

text \<open>
  The settings accept a statement timeout of zero, and the engine hands PostgreSQL exactly that, which
  for PostgreSQL means none.
\<close>

theorem statement_timeout_can_be_off:
  assumes "database_settings_valid bracketed_ok d" and "build_engine bracketed_ok d = Inr e"
  shows "database_settings_valid bracketed_ok (d\<lparr>db_statement_timeout_ms := 0\<rparr>)
    \<and> (\<exists>e'. build_engine bracketed_ok (d\<lparr>db_statement_timeout_ms := 0\<rparr>) = Inr e'
          \<and> ec_server_settings e' = [(''statement_timeout'', ''0'')])"
proof -
  have "int_str 0 = ''0''" by code_simp
  then show ?thesis using assms by (auto simp: database_settings_valid_def build_engine_def try_then_Inr_iff)
qed

end
